(* ===== verification/Prelude.thy ===== *)
theory Prelude
  imports Main "HOL-Library.Word"
begin

text \<open>
  Shared vocabulary of the development: the widths of the C integers, memory as
  byte lists, the big-endian accessors of \<^verbatim>\<open>libavutil/intreadwrite.h\<close>, C division,
  the error codes as values, and the generic lemmas and collections that the
  component theories use.
\<close>

unbundle bit_operations_syntax

named_theorems byte_simps "lengths and round trips of the byte accessors"
named_theorems wf_intros "introduction rules of the components' invariants"

section \<open>Integers and bytes\<close>

type_synonym u8 = "8 word"
type_synonym u16 = "16 word"
type_synonym u32 = "32 word"
type_synonym u64 = "64 word"
type_synonym bytes = "8 word list"

text \<open>
  The accessors \<open>AV_RB16\<close>, \<open>AV_RB32\<close>, \<open>AV_RB64\<close> and the stores \<open>AV_WB*\<close>. A read is
  written on the bytes it reads, so that each caller says which offsets it touches.
\<close>

definition rb16 :: "u8 \<Rightarrow> u8 \<Rightarrow> u16" where
  "rb16 b0 b1 = push_bit 8 (ucast b0) OR ucast b1"

definition rb32 :: "u8 \<Rightarrow> u8 \<Rightarrow> u8 \<Rightarrow> u8 \<Rightarrow> u32" where
  "rb32 b0 b1 b2 b3 =
     push_bit 24 (ucast b0) OR push_bit 16 (ucast b1) OR push_bit 8 (ucast b2) OR ucast b3"

definition rb64 :: "u32 \<Rightarrow> u32 \<Rightarrow> u64" where
  "rb64 hi lo = push_bit 32 (ucast hi) OR ucast lo"

definition AV_RB16 :: "bytes \<Rightarrow> nat \<Rightarrow> u16" where
  "AV_RB16 xs i = rb16 (xs ! i) (xs ! (i + 1))"

definition AV_RB32 :: "bytes \<Rightarrow> nat \<Rightarrow> u32" where
  "AV_RB32 xs i = rb32 (xs ! i) (xs ! (i + 1)) (xs ! (i + 2)) (xs ! (i + 3))"

definition AV_RB64 :: "bytes \<Rightarrow> nat \<Rightarrow> u64" where
  "AV_RB64 xs i = rb64 (AV_RB32 xs i) (AV_RB32 xs (i + 4))"

definition AV_WB16 :: "u16 \<Rightarrow> bytes" where
  "AV_WB16 x = [ucast (drop_bit 8 x), ucast x]"

definition AV_WB32 :: "u32 \<Rightarrow> bytes" where
  "AV_WB32 x = [ucast (drop_bit 24 x), ucast (drop_bit 16 x), ucast (drop_bit 8 x), ucast x]"

definition AV_WB64 :: "u64 \<Rightarrow> bytes" where
  "AV_WB64 x = AV_WB32 (ucast (drop_bit 32 x)) @ AV_WB32 (ucast x)"

lemma length_AV_WB16 [simp, byte_simps]: "length (AV_WB16 x) = 2"
  by (simp add: AV_WB16_def)

lemma length_AV_WB32 [simp, byte_simps]: "length (AV_WB32 x) = 4"
  by (simp add: AV_WB32_def)

lemma length_AV_WB64 [simp, byte_simps]: "length (AV_WB64 x) = 8"
  by (simp add: AV_WB64_def)

lemma rb16_split [simp, byte_simps]: "rb16 (ucast (drop_bit 8 x)) (ucast x) = x"
  by (rule bit_word_eqI) (auto simp: rb16_def bit_simps)

lemma rb32_split [simp, byte_simps]:
  "rb32 (ucast (drop_bit 24 x)) (ucast (drop_bit 16 x)) (ucast (drop_bit 8 x)) (ucast x) = x"
proof (rule bit_word_eqI)
  fix n
  assume "n < LENGTH(32)"
  then consider "n < 8" | "8 \<le> n" "n < 16" | "16 \<le> n" "n < 24" | "24 \<le> n" "n < 32"
    by fastforce
  then show "bit (rb32 (ucast (drop_bit 24 x)) (ucast (drop_bit 16 x))
      (ucast (drop_bit 8 x)) (ucast x)) n = bit x n"
    by cases (auto simp: rb32_def bit_simps)
qed

lemma rb64_split [simp, byte_simps]: "rb64 (ucast (drop_bit 32 x)) (ucast x) = x"
  by (rule bit_word_eqI) (auto simp: rb64_def bit_simps)

lemma AV_RB16_append [simp, byte_simps]: "AV_RB16 (AV_WB16 x @ ys) 0 = x"
  by (simp add: AV_RB16_def AV_WB16_def)

lemma AV_RB32_append [simp, byte_simps]: "AV_RB32 (AV_WB32 x @ ys) 0 = x"
  by (simp add: AV_RB32_def AV_WB32_def nth_Cons')

lemma AV_WB16_nonempty [simp]: "AV_WB16 x \<noteq> []"
  by (simp add: AV_WB16_def)

lemma AV_WB16_rb16: "AV_WB16 (rb16 a b) = [a, b]"
proof -
  have "ucast (drop_bit 8 (rb16 a b)) = a"
    by (rule bit_word_eqI) (auto simp: rb16_def bit_simps dest: bit_imp_le_length)
  moreover have "ucast (rb16 a b) = b"
    by (rule bit_word_eqI) (auto simp: rb16_def bit_simps)
  ultimately show ?thesis
    by (simp add: AV_WB16_def)
qed

section \<open>C arithmetic\<close>

text \<open>Division and remainder of C truncate towards zero.\<close>

definition c_div :: "int \<Rightarrow> int \<Rightarrow> int" where
  "c_div a b = sgn a * sgn b * (\<bar>a\<bar> div \<bar>b\<bar>)"

definition c_mod :: "int \<Rightarrow> int \<Rightarrow> int" where
  "c_mod a b = a - c_div a b * b"

lemma c_div_nonneg [simp]: "0 \<le> a \<Longrightarrow> 0 < b \<Longrightarrow> c_div a b = a div b"
  by (cases "a = 0") (simp_all add: c_div_def)

lemma c_mod_nonneg [simp]: "0 \<le> a \<Longrightarrow> 0 < b \<Longrightarrow> c_mod a b = a mod b"
  by (simp add: c_mod_def minus_div_mult_eq_mod)

section \<open>Error codes\<close>

text \<open>
  The negative return values of the modelled functions: the \<open>AVERROR\<close> codes they name,
  the bare \<open>-1\<close> of the RTP code, and negative codes handed through from a library call.
\<close>

datatype averror =
    EINVAL | ENOMEM | EAGAIN | ETIMEDOUT | EIO
  | AVERROR_INVALIDDATA | AVERROR_EXTERNAL | AVERROR_EOF | AVERROR_BUFFER_TOO_SMALL
  | AVERROR_PATCHWELCOME | AVERROR_EXPERIMENTAL | AVERROR_DEMUXER_NOT_FOUND
  | Minus_one
  | Lib_error int

type_synonym 'a res = "averror + 'a"

abbreviation Err :: "averror \<Rightarrow> 'a res" where
  "Err \<equiv> Inl"

abbreviation Ok :: "'a \<Rightarrow> 'a res" where
  "Ok \<equiv> Inr"

definition is_ok :: "'a res \<Rightarrow> bool" where
  "is_ok r = (case r of Inl _ \<Rightarrow> False | Inr _ \<Rightarrow> True)"

lemma is_ok_simps [simp]: "is_ok (Inr x)" "\<not> is_ok (Inl e)"
  by (simp_all add: is_ok_def)

lemma is_ok_iff: "is_ok r \<longleftrightarrow> (\<exists>x. r = Inr x)"
  by (simp add: is_ok_def split: sum.split)

section \<open>Lists\<close>

text \<open>Splitting a list into consecutive chunks of at most \<open>n\<close> elements.\<close>

function chunks :: "nat \<Rightarrow> 'a list \<Rightarrow> 'a list list" where
  "chunks n xs = (if xs = [] \<or> n = 0 then [] else take n xs # chunks n (drop n xs))"
  by pat_completeness auto
termination
  by (relation "measure (\<lambda>(n, xs). length xs)") auto

declare chunks.simps [simp del]

lemma concat_chunks: "0 < n \<Longrightarrow> concat (chunks n xs) = xs"
  by (induction n xs rule: chunks.induct) (subst chunks.simps, simp)

lemma chunks_le: "c \<in> set (chunks n xs) \<Longrightarrow> length c \<le> n \<and> c \<noteq> []"
  by (induction n xs rule: chunks.induct) (subst (asm) (2) chunks.simps, auto split: if_splits)

lemma list_update_beyond [simp]: "length xs \<le> i \<Longrightarrow> xs[i := v] = xs"
  by (rule list_update_beyond)

text \<open>The first element that satisfies a test is removed.\<close>

fun remove_first :: "('a \<Rightarrow> bool) \<Rightarrow> 'a list \<Rightarrow> 'a list" where
  "remove_first P [] = []"
| "remove_first P (x # xs) = (if P x then xs else x # remove_first P xs)"

lemma remove_first_none [simp]: "\<forall>x \<in> set xs. \<not> P x \<Longrightarrow> remove_first P xs = xs"
  by (induction xs) auto

lemma set_remove_first_subset: "set (remove_first P xs) \<subseteq> set xs"
  by (induction xs) auto

lemma remove_first_sound: "x \<in> set (remove_first P xs) \<Longrightarrow> x \<in> set xs"
  using set_remove_first_subset [of P xs] by blast

lemma remove_first_keeps: "x \<in> set xs \<Longrightarrow> \<not> P x \<Longrightarrow> x \<in> set (remove_first P xs)"
  by (induction xs) auto

lemma distinct_remove_first: "distinct xs \<Longrightarrow> distinct (remove_first P xs)"
  by (induction xs) (auto dest: remove_first_sound)

lemma remove_first_append:
  "remove_first P (xs @ y # ys) = xs @ ys" if "\<forall>x \<in> set xs. \<not> P x" "P y"
  using that by (induction xs) auto

end
