(* ===== verification/P2P_Lists.thy ===== *)
theory P2P_Lists
  imports Prelude
begin

text \<open>
  The intrusive linked lists of \<^verbatim>\<open>libavformat/p2p.c\<close>: the caches of peer connection
  nodes (keyed by the remote id), of tracks (keyed by the track id) and of remote
  candidates. The C code walks \<open>next\<close> pointers; the first half of the theory models
  exactly that on a heap of cells, where a dereference of a freed cell, or a walk that
  never ends, is \<open>None\<close>. The second half is the abstract list, and the refinement
  lemmas that connect the two. The rest of the development uses the abstract lists.
\<close>

section \<open>The heap of list cells\<close>

type_synonym addr = nat

text \<open>
  A cell has the fields of the C structs that the list code reads: the key (\<open>remote_id\<close>
  of a node, where \<open>None\<close> is a NULL string; \<open>track_id\<close> of a track) and \<open>next\<close>.
\<close>

record 'k cell =
  key :: 'k
  nxt :: "addr option"

type_synonym 'k heap = "addr \<rightharpoonup> 'k cell"

text \<open>Following the list from a pointer until the test holds: the common loop of the find functions.\<close>

partial_function (option) ll_find ::
    "('k \<Rightarrow> bool) \<Rightarrow> 'k heap \<Rightarrow> addr option \<Rightarrow> addr option option" where
  "ll_find P h p =
     (case p of None \<Rightarrow> Some None
      | Some a \<Rightarrow> (case h a of None \<Rightarrow> None
          | Some c \<Rightarrow> if P (key c) then Some (Some a) else ll_find P h (nxt c)))"

text \<open>
  The removal loop with its pointers \<open>prev\<close> and \<open>p\<close> (\<open>curr\<close>): the matching cell is unlinked and
  freed (dropped from the heap), and the new head is returned with the heap.
\<close>

partial_function (option) ll_remove ::
    "('k \<Rightarrow> bool) \<Rightarrow> addr option \<Rightarrow> 'k heap \<Rightarrow> addr option \<Rightarrow> addr option
       \<Rightarrow> ('k heap \<times> addr option) option" where
  "ll_remove P first h prev p =
     (case p of None \<Rightarrow> Some (h, first)
      | Some a \<Rightarrow> (case h a of None \<Rightarrow> None
          | Some c \<Rightarrow>
              if P (key c) then
                (case prev of
                   None \<Rightarrow> Some (h(a := None), nxt c)
                 | Some b \<Rightarrow> (case h b of None \<Rightarrow> None
                     | Some cb \<Rightarrow> Some ((h(b \<mapsto> cb\<lparr>nxt := nxt c\<rparr>))(a := None), first)))
              else ll_remove P first h (Some a) (nxt c)))"

text \<open>Walking to the tail and linking the new cell there.\<close>

partial_function (option) ll_link_tail ::
    "'k heap \<Rightarrow> addr \<Rightarrow> addr \<Rightarrow> 'k heap option" where
  "ll_link_tail h t new =
     (case h t of None \<Rightarrow> None
      | Some c \<Rightarrow> (case nxt c of
            None \<Rightarrow> Some (h(t \<mapsto> c\<lparr>nxt := Some new\<rparr>))
          | Some t' \<Rightarrow> ll_link_tail h t' new))"

section \<open>Nodes: found by remote id or by peer connection id\<close>

text \<open>The fields of \<open>PeerConnectionNode\<close> and \<open>PeerConnectionTrack\<close> that identify a cell.\<close>

record node_key =
  nk_remote_id :: "string option"
  nk_pc_id :: int

record track_key =
  tk_track_id :: int
  tk_stream_index :: int

text \<open>\<open>curr->remote_id && strcmp(curr->remote_id, remote_id) == 0\<close>\<close>

definition remote_is :: "string \<Rightarrow> node_key \<Rightarrow> bool" where
  "remote_is r k = (nk_remote_id k = Some r)"

definition find_peer_connection_node_by_remote_id ::
    "node_key heap \<Rightarrow> addr option \<Rightarrow> string option \<Rightarrow> addr option option" where
  "find_peer_connection_node_by_remote_id h head remote_id =
     (case remote_id of None \<Rightarrow> Some None | Some r \<Rightarrow> ll_find (remote_is r) h head)"

definition find_peer_connection_node_by_pc_id ::
    "node_key heap \<Rightarrow> addr option \<Rightarrow> int \<Rightarrow> addr option option" where
  "find_peer_connection_node_by_pc_id h head pc_id = ll_find (\<lambda>k. nk_pc_id k = pc_id) h head"

definition remove_peer_connection_node_from_list ::
    "node_key heap \<Rightarrow> addr option \<Rightarrow> string option
       \<Rightarrow> (node_key heap \<times> addr option) res option" where
  "remove_peer_connection_node_from_list h head remote_id =
     (case remote_id of None \<Rightarrow> Some (Err AVERROR_INVALIDDATA)
      | Some r \<Rightarrow> map_option Ok (ll_remove (remote_is r) head h None head))"

definition append_peer_connection_node_to_list ::
    "node_key heap \<Rightarrow> addr option \<Rightarrow> addr option
       \<Rightarrow> (node_key heap \<times> addr option) res option" where
  "append_peer_connection_node_to_list h head new_node =
     (case new_node of None \<Rightarrow> Some (Err AVERROR_INVALIDDATA)
      | Some n \<Rightarrow> (case h n of None \<Rightarrow> None
          | Some c \<Rightarrow>
              Option.bind (find_peer_connection_node_by_remote_id h head (nk_remote_id (key c)))
                (\<lambda>found.
              Option.bind
                (if found \<noteq> None
                 then remove_peer_connection_node_from_list h head (nk_remote_id (key c))
                 else Some (Ok (h, head))) (\<lambda>r.
              case r of Inl e \<Rightarrow> Some (Err e)
              | Inr (h1, head1) \<Rightarrow>
                  (case head1 of
                     None \<Rightarrow> Some (Ok (h1, Some n))
                   | Some t \<Rightarrow> map_option (\<lambda>h2. Ok (h2, head1)) (ll_link_tail h1 t n))))))"

section \<open>Tracks: found by track id or by stream index\<close>

definition find_peer_connection_track_by_track_id ::
    "track_key heap \<Rightarrow> addr option \<Rightarrow> int \<Rightarrow> addr option option" where
  "find_peer_connection_track_by_track_id h head track_id =
     ll_find (\<lambda>k. tk_track_id k = track_id) h head"

definition find_peer_connection_track_by_stream_index ::
    "track_key heap \<Rightarrow> addr option \<Rightarrow> int \<Rightarrow> addr option option" where
  "find_peer_connection_track_by_stream_index h head stream_index =
     ll_find (\<lambda>k. tk_stream_index k = stream_index) h head"

definition remove_peer_connection_track_from_list ::
    "track_key heap \<Rightarrow> addr option \<Rightarrow> int \<Rightarrow> (track_key heap \<times> addr option) option" where
  "remove_peer_connection_track_from_list h head track_id =
     ll_remove (\<lambda>k. tk_track_id k = track_id) head h None head"

definition append_peer_connection_track_to_list ::
    "track_key heap \<Rightarrow> addr option \<Rightarrow> addr option
       \<Rightarrow> (track_key heap \<times> addr option) res option" where
  "append_peer_connection_track_to_list h head new_track =
     (case new_track of None \<Rightarrow> Some (Err AVERROR_INVALIDDATA)
      | Some n \<Rightarrow> (case h n of None \<Rightarrow> None
          | Some c \<Rightarrow>
              Option.bind (find_peer_connection_track_by_track_id h head (tk_track_id (key c)))
                (\<lambda>found.
              Option.bind
                (if found \<noteq> None
                 then remove_peer_connection_track_from_list h head (tk_track_id (key c))
                 else Some (h, head)) (\<lambda>(h1, head1).
              case head1 of
                None \<Rightarrow> Some (Ok (h1, Some n))
              | Some t \<Rightarrow> map_option (\<lambda>h2. Ok (h2, head1)) (ll_link_tail h1 t n)))))"

section \<open>Remote candidates: a stack\<close>

record PeerConnectionNodeCandidate =
  cand_candidate :: string
  cand_mid :: string

text \<open>
  The candidate cache is pushed at the head and freed as a whole; \<open>None\<close> for \<open>head\<close> or
  \<open>new_candidate\<close> is a NULL argument, an empty string a leading NUL.
\<close>

definition append_peer_connection_node_candidate_to_list ::
    "PeerConnectionNodeCandidate list option \<Rightarrow> PeerConnectionNodeCandidate option
       \<Rightarrow> PeerConnectionNodeCandidate list res" where
  "append_peer_connection_node_candidate_to_list head new_candidate =
     (case (head, new_candidate) of
        (Some cs, Some c) \<Rightarrow>
          if cand_mid c = [] \<or> cand_candidate c = [] then Err AVERROR_INVALIDDATA
          else Ok (c # cs)
      | _ \<Rightarrow> Err AVERROR_INVALIDDATA)"

fun clear_peer_connection_node_candidate_list ::
    "PeerConnectionNodeCandidate list \<Rightarrow> PeerConnectionNodeCandidate list" where
  "clear_peer_connection_node_candidate_list [] = []"
| "clear_peer_connection_node_candidate_list (c # cs) =
     clear_peer_connection_node_candidate_list cs"

section \<open>Lists on the heap\<close>

text \<open>
  \<open>lpath h p as q\<close>: following \<open>next\<close> from \<open>p\<close> visits the cells \<open>as\<close> and arrives at \<open>q\<close>;
  \<open>llist h p as\<close> is the well-formed list: the path ends in NULL.
\<close>

fun lpath :: "'k heap \<Rightarrow> addr option \<Rightarrow> addr list \<Rightarrow> addr option \<Rightarrow> bool" where
  "lpath h p [] q = (p = q)"
| "lpath h p (a # as) q = (p = Some a \<and> (\<exists>c. h a = Some c \<and> lpath h (nxt c) as q))"

definition llist :: "'k heap \<Rightarrow> addr option \<Rightarrow> addr list \<Rightarrow> bool" where
  "llist h p as = lpath h p as None"

definition key_of :: "'k heap \<Rightarrow> addr \<Rightarrow> 'k" where
  "key_of h a = key (the (h a))"

lemma llist_Nil [simp]: "llist h p [] \<longleftrightarrow> p = None"
  by (simp add: llist_def)

lemma llist_Cons [simp]:
  "llist h p (a # as) \<longleftrightarrow> p = Some a \<and> (\<exists>c. h a = Some c \<and> llist h (nxt c) as)"
  by (simp add: llist_def)

lemma llist_None [simp]: "llist h None as \<longleftrightarrow> as = []"
  by (cases as) auto

lemma lpath_append: "lpath h p (as @ bs) q \<longleftrightarrow> (\<exists>m. lpath h p as m \<and> lpath h m bs q)"
  by (induction as arbitrary: p) auto

lemma llist_append: "llist h p (as @ bs) \<longleftrightarrow> (\<exists>m. lpath h p as m \<and> llist h m bs)"
  by (simp add: llist_def lpath_append)

lemma lpath_upd [simp]: "a \<notin> set as \<Longrightarrow> lpath (h(a := v)) p as q = lpath h p as q"
  by (induction as arbitrary: p) auto

lemma llist_upd [simp]: "a \<notin> set as \<Longrightarrow> llist (h(a := v)) p as = llist h p as"
  by (simp add: llist_def)

lemma llist_unique: "llist h p as \<Longrightarrow> llist h p bs \<Longrightarrow> as = bs"
proof (induction as arbitrary: p bs)
  case Nil
  then show ?case by simp
next
  case (Cons a as)
  then show ?case by (cases bs) auto
qed

lemma llist_distinct: "llist h p as \<Longrightarrow> distinct as"
proof (induction as arbitrary: p)
  case (Cons a as)
  then obtain c where c: "h a = Some c" "llist h (nxt c) as" by auto
  have "a \<notin> set as"
  proof
    assume "a \<in> set as"
    then obtain xs ys where as: "as = xs @ a # ys" by (auto simp: in_set_conv_decomp)
    with c(2) have "llist h (Some a) (a # ys)" by (auto simp: llist_append)
    moreover have "llist h (Some a) (a # as)" using c by simp
    ultimately have "a # ys = a # as" by (rule llist_unique)
    with as show False by simp
  qed
  with Cons.IH c(2) show ?case by auto
qed simp

lemma llist_in_dom: "llist h p as \<Longrightarrow> a \<in> set as \<Longrightarrow> \<exists>c. h a = Some c"
  by (induction as arbitrary: p) auto

section \<open>The loops compute the list functions\<close>

lemma ll_find_llist:
  "llist h p as \<Longrightarrow> ll_find P h p = Some (find (\<lambda>a. P (key_of h a)) as)"
proof (induction as arbitrary: p)
  case Nil
  then show ?case by (simp add: ll_find.simps)
next
  case (Cons a as)
  then obtain c where "p = Some a" "h a = Some c" "llist h (nxt c) as" by auto
  with Cons.IH show ?case by (subst ll_find.simps) (simp add: key_of_def)
qed

lemma ll_link_tail_closed:
  "llist h (Some t) as \<Longrightarrow>
   ll_link_tail h t n = Some (h(last as \<mapsto> (the (h (last as)))\<lparr>nxt := Some n\<rparr>))"
proof (induction as arbitrary: t)
  case Nil
  then show ?case by simp
next
  case (Cons a as)
  then obtain c where c: "a = t" "h t = Some c" "llist h (nxt c) as" by auto
  show ?case
  proof (cases "nxt c")
    case None
    with c have "as = []" by simp
    with c None show ?thesis by (subst ll_link_tail.simps) simp
  next
    case (Some t')
    with c Cons.IH [of t'] have "as \<noteq> []"
      "ll_link_tail h t' n = Some (h(last as \<mapsto> (the (h (last as)))\<lparr>nxt := Some n\<rparr>))"
      by auto
    with c Some show ?thesis by (subst ll_link_tail.simps) simp
  qed
qed

lemma ll_link_tail_llist:
  assumes "llist h (Some t) as" "n \<notin> set as" "h n = Some cn" "nxt cn = None"
  shows "\<exists>h'. ll_link_tail h t n = Some h' \<and> llist h' (Some t) (as @ [n])
      \<and> dom h' = dom h \<and> (\<forall>a. key_of h' a = key_of h a)"
proof -
  from assms(1) have ne: "as \<noteq> []" by auto
  then obtain bs l where as: "as = bs @ [l]" by (metis rev_exhaust)
  with assms(1) obtain m cl where m: "lpath h (Some t) bs (Some l)" "h l = Some cl" "nxt cl = None"
    by (auto simp: llist_append)
  let ?h = "h(l \<mapsto> cl\<lparr>nxt := Some n\<rparr>)"
  have "l \<notin> set bs"
    using llist_distinct [OF assms(1)] as by simp
  then have "lpath ?h (Some t) bs (Some l)" using m(1) by simp
  moreover have "llist ?h (Some l) [l, n]"
    using assms as by auto
  ultimately have "llist ?h (Some t) (as @ [n])"
    unfolding as by (auto simp: llist_append lpath_append)
  moreover have "ll_link_tail h t n = Some ?h"
    using ll_link_tail_closed [OF assms(1)] as m(2) by simp
  ultimately show ?thesis
    using m(2) by (auto simp: key_of_def)
qed

lemma ll_remove_llist:
  "llist h cur as \<Longrightarrow>
   (case prev of None \<Rightarrow> bs = [] \<and> first = cur
    | Some b \<Rightarrow> \<exists>xs. bs = xs @ [b] \<and> lpath h first bs cur) \<Longrightarrow> distinct (bs @ as) \<Longrightarrow>
   \<exists>h' hd'. ll_remove P first h prev cur = Some (h', hd')
      \<and> llist h' hd' (bs @ remove_first (\<lambda>a. P (key_of h a)) as)
      \<and> (\<forall>a \<in> dom h'. key_of h' a = key_of h a)
      \<and> (\<forall>a. a \<notin> set (bs @ as) \<longrightarrow> h' a = h a)
      \<and> dom h' = dom h - set (case find (\<lambda>a. P (key_of h a)) as of None \<Rightarrow> [] | Some a \<Rightarrow> [a])"
proof (induction as arbitrary: prev cur bs)
  case Nil
  then show ?case
    by (subst ll_remove.simps) (auto split: option.splits simp: llist_def)
next
  case (Cons a as)
  then obtain c where c: "cur = Some a" "h a = Some c" "llist h (nxt c) as" by auto
  have k: "key_of h a = key c" using c by (simp add: key_of_def)
  show ?case
  proof (cases "P (key c)")
    case True
    show ?thesis
    proof (cases prev)
      case None
      with c True k Cons.prems show ?thesis
        by (subst ll_remove.simps) (auto simp: key_of_def)
    next
      case (Some b)
      with Cons.prems c obtain xs cb where b: "bs = xs @ [b]" "lpath h first xs (Some b)"
        "h b = Some cb" "nxt cb = Some a" "b \<notin> set xs" "b \<noteq> a" "b \<notin> set as" "a \<notin> set xs" "a \<notin> set as"
        by (auto simp: lpath_append)
      let ?h = "(h(b \<mapsto> cb\<lparr>nxt := nxt c\<rparr>))(a := None)"
      have "llist ?h first (xs @ b # as)"
        unfolding llist_append using b c by (intro exI [of _ "Some b"]) simp
      moreover have "ll_remove P first h prev cur = Some (?h, first)"
        using Some b c True by (subst ll_remove.simps) simp
      ultimately show ?thesis
        using b c True k by (auto simp: key_of_def)
    qed
  next
    case False
    have "\<exists>xs. bs @ [a] = xs @ [a] \<and> lpath h first (bs @ [a]) (nxt c)"
      using Cons.prems c by (auto simp: lpath_append split: option.splits)
    with Cons.IH [OF c(3), where prev = "Some a" and bs = "bs @ [a]"] Cons.prems(3) False k c
    show ?thesis by (subst ll_remove.simps) simp
  qed
qed

lemma find_snoc:
  "find P (xs @ [y]) = (case find P xs of None \<Rightarrow> if P y then Some y else None | Some x \<Rightarrow> Some x)"
  by (induction xs) auto

section \<open>The contract of a keyed list\<close>

text \<open>
  What the rest of the code relies on: searching returns the first matching cell, and
  appending a fresh cell replaces the cell with the same key by the new one at the tail.
  \<open>same k k'\<close> says that a search for the key of \<open>k\<close> stops at a cell with key \<open>k'\<close>.
\<close>

locale keyed_list =
  fixes fnd :: "'k heap \<Rightarrow> addr option \<Rightarrow> 'k \<Rightarrow> addr option option"
    and app :: "'k heap \<Rightarrow> addr option \<Rightarrow> addr option \<Rightarrow> ('k heap \<times> addr option) res option"
    and same :: "'k \<Rightarrow> 'k \<Rightarrow> bool"
  assumes fnd_list: "llist h p as \<Longrightarrow> fnd h p k = Some (find (\<lambda>a. same k (key_of h a)) as)"
    and app_list: "llist h p as \<Longrightarrow> n \<notin> set as \<Longrightarrow> h n = Some c \<Longrightarrow> nxt c = None \<Longrightarrow>
      \<exists>h' p'. app h p (Some n) = Some (Ok (h', p'))
        \<and> llist h' p' (remove_first (\<lambda>a. same (key c) (key_of h a)) as @ [n])
        \<and> (\<forall>a \<in> dom h'. key_of h' a = key_of h a)"
    and same_refl: "same k k' \<Longrightarrow> same k' k'"
    and same_same: "same k k1 \<Longrightarrow> same k' k1 \<Longrightarrow> same k k2 = same k' k2"
begin

definition unique_keys :: "'k heap \<Rightarrow> addr list \<Rightarrow> bool" where
  "unique_keys h as \<longleftrightarrow>
     (\<forall>a \<in> set as. \<forall>b \<in> set as. \<forall>k. same k (key_of h a) \<and> same k (key_of h b) \<longrightarrow> a = b)"

lemma remove_first_no_match:
  assumes "distinct as" "unique_keys h as" "a \<in> set (remove_first (\<lambda>a. same k (key_of h a)) as)"
  shows "\<not> same k (key_of h a)"
  using assms
proof (induction as)
  case (Cons x as)
  have "unique_keys h as"
    using Cons.prems(2) by (auto simp: unique_keys_def)
  with Cons show ?case
    by (force simp: unique_keys_def dest: remove_first_sound split: if_splits)
qed simp

lemma keys_kept:
  assumes "llist h' p' as" "\<forall>a \<in> dom h'. key_of h' a = key_of h a" "a \<in> set as"
  shows "key_of h' a = key_of h a"
  using assms llist_in_dom by (metis domI)

lemma app_unique:
  assumes l: "llist h p as" "n \<notin> set as" "h n = Some c" "nxt c = None" and u: "unique_keys h as"
    and r: "app h p (Some n) = Some (Ok (h', p'))" "llist h' p' bs"
  shows "unique_keys h' bs"
proof -
  let ?as = "remove_first (\<lambda>a. same (key c) (key_of h a)) as"
  obtain h1 p1 where 1: "app h p (Some n) = Some (Ok (h1, p1))" "llist h1 p1 (?as @ [n])"
      "\<forall>a \<in> dom h1. key_of h1 a = key_of h a"
    using app_list [OF l] by blast
  with r have eq: "h1 = h'" "p1 = p'" by auto
  with 1 r have bs: "bs = ?as @ [n]" using llist_unique by blast
  have k: "\<And>a. a \<in> set bs \<Longrightarrow> key_of h' a = key_of h a"
    using keys_kept 1 eq bs by blast
  have n: "key_of h n = key c" using l by (simp add: key_of_def)
  have d: "distinct as" using l(1) by (rule llist_distinct)
  have x: "\<not> same k (key_of h a)" if "a \<in> set ?as" "same k (key c)" for a k
    using remove_first_no_match [OF d u that(1)] same_same [OF that(2) same_refl [OF that(2)]]
    by blast
  have ab: "a = b" if "a \<in> set ?as" "b \<in> set ?as" "same k (key_of h a)" "same k (key_of h b)" for a b k
    using that u unfolding unique_keys_def by (meson remove_first_sound)
  show ?thesis
    unfolding unique_keys_def
  proof (intro ballI allI impI)
    fix a b k'
    assume ab': "a \<in> set bs" "b \<in> set bs"
      and "same k' (key_of h' a) \<and> same k' (key_of h' b)"
    then have s: "same k' (key_of h a)" "same k' (key_of h b)" using k by auto
    from ab' bs consider "a \<in> set ?as" "b \<in> set ?as" | "a = n" "b = n"
      | "a \<in> set ?as" "b = n" | "a = n" "b \<in> set ?as" by auto
    then show "a = b"
    proof cases
      case 1
      then show ?thesis using ab s by blast
    next
      case 3
      then show ?thesis using x [of a k'] s n by simp
    next
      case 4
      then show ?thesis using x [of b k'] s n by simp
    qed simp
  qed
qed

lemma find_remove_first_other:
  assumes "same k0 k0" "\<not> same k k0"
  shows "find (\<lambda>a. same k (f a)) (remove_first (\<lambda>a. same k0 (f a)) as) = find (\<lambda>a. same k (f a)) as"
proof -
  have "\<not> same k y" if "same k0 y" for y
    using same_same [OF that, of k k0] assms by blast
  then show ?thesis by (induction as) auto
qed

lemma find_cong_keys:
  assumes "\<And>a. a \<in> set as \<Longrightarrow> f a = g a"
  shows "find (\<lambda>a. same k (f a)) as = find (\<lambda>a. same k (g a)) as"
  using assms by (induction as) auto

lemma fnd_after_app:
  assumes l: "llist h p as" "n \<notin> set as" "h n = Some c" "nxt c = None" and u: "unique_keys h as"
    and s: "same (key c) (key c)"
    and r: "app h p (Some n) = Some (Ok (h', p'))"
  shows "fnd h' p' (key c) = Some (Some n)"
    and "\<not> same k (key c) \<Longrightarrow> fnd h' p' k = fnd h p k"
proof -
  let ?as = "remove_first (\<lambda>a. same (key c) (key_of h a)) as"
  obtain h1 p1 where 1: "app h p (Some n) = Some (Ok (h1, p1))" "llist h1 p1 (?as @ [n])"
      "\<forall>a \<in> dom h1. key_of h1 a = key_of h a"
    using app_list [OF l] by blast
  with r have eq: "h1 = h'" "p1 = p'" by auto
  have k: "key_of h' a = key_of h a" if "a \<in> set (?as @ [n])" for a
    using keys_kept [OF 1(2,3) that] eq by simp
  have n: "key_of h n = key c" using l by (simp add: key_of_def)
  have d: "distinct as" using l(1) by (rule llist_distinct)
  have f: "fnd h' p' k' = Some (find (\<lambda>a. same k' (key_of h a)) (?as @ [n]))" for k'
    using fnd_list [of h' p' "?as @ [n]" k'] 1 eq find_cong_keys [of "?as @ [n]", OF k] by simp
  have none: "find (\<lambda>a. same (key c) (key_of h a)) ?as = None"
    unfolding find_None_iff using remove_first_no_match [OF d u] by blast
  show "fnd h' p' (key c) = Some (Some n)"
    using f none n s by (simp add: find_snoc)
  show "fnd h' p' k = fnd h p k" if "\<not> same k (key c)"
    using f fnd_list [OF l(1)] find_remove_first_other [OF s that, of "key_of h" as] n that
    by (simp add: find_snoc split: option.splits)
qed

end

section \<open>Both caches satisfy the contract\<close>

lemma ll_remove_head:
  assumes "llist h p as"
  shows "\<exists>h' p'. ll_remove P p h None p = Some (h', p')
      \<and> llist h' p' (remove_first (\<lambda>a. P (key_of h a)) as)
      \<and> (\<forall>a \<in> dom h'. key_of h' a = key_of h a) \<and> (\<forall>a. a \<notin> set as \<longrightarrow> h' a = h a)"
  using ll_remove_llist [OF assms, where prev = None and bs = "[]" and first = p and P = P]
    llist_distinct [OF assms] by auto

lemma ll_append_tail:
  assumes "llist h p as" "n \<notin> set as" "h n = Some c" "nxt c = None"
  shows "\<exists>h' p'. (case p of None \<Rightarrow> Some (Ok (h, Some n))
        | Some t \<Rightarrow> map_option (\<lambda>h2. Ok (h2, p)) (ll_link_tail h t n)) = Some (Ok (h', p'))
      \<and> llist h' p' (as @ [n]) \<and> dom h' = dom h \<and> (\<forall>a. key_of h' a = key_of h a)"
proof (cases p)
  case None
  with assms show ?thesis by simp
next
  case (Some t)
  with assms ll_link_tail_llist [of h t as n c] show ?thesis by auto
qed

lemma remove_then_append:
  assumes "llist h p as" "n \<notin> set as" "h n = Some c" "nxt c = None"
  shows "\<exists>h1 p1 h' p'. ll_remove P p h None p = Some (h1, p1)
      \<and> (case p1 of None \<Rightarrow> Some (Ok (h1, Some n))
        | Some t \<Rightarrow> map_option (\<lambda>h2. Ok (h2, p1)) (ll_link_tail h1 t n)) = Some (Ok (h', p'))
      \<and> llist h' p' (remove_first (\<lambda>a. P (key_of h a)) as @ [n])
      \<and> (\<forall>a \<in> dom h'. key_of h' a = key_of h a)"
proof -
  let ?as = "remove_first (\<lambda>a. P (key_of h a)) as"
  obtain h1 p1 where 1: "ll_remove P p h None p = Some (h1, p1)" "llist h1 p1 ?as"
    "\<forall>a \<in> dom h1. key_of h1 a = key_of h a" "\<forall>a. a \<notin> set as \<longrightarrow> h1 a = h a"
    using ll_remove_head [OF assms(1)] by blast
  have "n \<notin> set ?as" using assms(2) by (blast dest: remove_first_sound)
  moreover have "h1 n = Some c" using 1(4) assms by simp
  ultimately obtain h' p' where
    2: "(case p1 of None \<Rightarrow> Some (Ok (h1, Some n))
        | Some t \<Rightarrow> map_option (\<lambda>h2. Ok (h2, p1)) (ll_link_tail h1 t n)) = Some (Ok (h', p'))"
      "llist h' p' (?as @ [n])" "dom h' = dom h1" "\<forall>a. key_of h' a = key_of h1 a"
    using ll_append_tail [OF 1(2)] assms(4) by blast
  show ?thesis
    using 1 2 by (intro exI [of _ h1] exI [of _ p1] exI [of _ h'] exI [of _ p']) simp
qed

definition same_remote :: "node_key \<Rightarrow> node_key \<Rightarrow> bool" where
  "same_remote k k' \<longleftrightarrow> nk_remote_id k \<noteq> None \<and> nk_remote_id k' = nk_remote_id k"

definition same_track :: "track_key \<Rightarrow> track_key \<Rightarrow> bool" where
  "same_track k k' \<longleftrightarrow> tk_track_id k' = tk_track_id k"

lemma find_node_list:
  "llist h p as \<Longrightarrow> find_peer_connection_node_by_remote_id h p (nk_remote_id k)
     = Some (find (\<lambda>a. same_remote k (key_of h a)) as)"
proof (cases "nk_remote_id k")
  case None
  moreover have "find (\<lambda>a. False) as = None" by (simp add: find_None_iff)
  ultimately show ?thesis
    by (simp add: find_peer_connection_node_by_remote_id_def same_remote_def)
next
  case (Some r)
  moreover assume "llist h p as"
  ultimately show ?thesis
    by (simp add: find_peer_connection_node_by_remote_id_def same_remote_def ll_find_llist
        remote_is_def)
qed

lemma append_node_list:
  assumes l: "llist h p as" "n \<notin> set as" "h n = Some c" "nxt c = None"
  shows "\<exists>h' p'. append_peer_connection_node_to_list h p (Some n) = Some (Ok (h', p'))
      \<and> llist h' p' (remove_first (\<lambda>a. same_remote (key c) (key_of h a)) as @ [n])
      \<and> (\<forall>a \<in> dom h'. key_of h' a = key_of h a)"
proof (cases "find (\<lambda>a. same_remote (key c) (key_of h a)) as")
  case None
  then have "remove_first (\<lambda>a. same_remote (key c) (key_of h a)) as = as"
    by (simp only: find_None_iff) (rule remove_first_none, blast)
  then show ?thesis
    using ll_append_tail [OF l] find_node_list [OF l(1), of "key c"] None l(3)
    by (simp add: append_peer_connection_node_to_list_def) (metis)
next
  case (Some b)
  then obtain r where r: "nk_remote_id (key c) = Some r" by (auto simp: find_Some_iff same_remote_def)
  then have P: "(\<lambda>a. same_remote (key c) (key_of h a)) = (\<lambda>a. remote_is r (key_of h a))"
    by (simp add: remote_is_def same_remote_def)
  show ?thesis
    using remove_then_append [OF l, of "remote_is r"] find_node_list [OF l(1), of "key c"] Some l(3) r
    unfolding P
    by (auto simp add: append_peer_connection_node_to_list_def
        remove_peer_connection_node_from_list_def)
qed

lemma append_track_list:
  assumes l: "llist h p as" "n \<notin> set as" "h n = Some c" "nxt c = None"
  shows "\<exists>h' p'. append_peer_connection_track_to_list h p (Some n) = Some (Ok (h', p'))
      \<and> llist h' p' (remove_first (\<lambda>a. same_track (key c) (key_of h a)) as @ [n])
      \<and> (\<forall>a \<in> dom h'. key_of h' a = key_of h a)"
proof (cases "find (\<lambda>a. same_track (key c) (key_of h a)) as")
  case None
  then have "remove_first (\<lambda>a. same_track (key c) (key_of h a)) as = as"
    by (simp only: find_None_iff) (rule remove_first_none, blast)
  then show ?thesis
    using ll_append_tail [OF l] None l(1,3)
    by (simp add: append_peer_connection_track_to_list_def ll_find_llist same_track_def
        find_peer_connection_track_by_track_id_def) (metis)
next
  case (Some b)
  show ?thesis
    using remove_then_append [OF l, of "\<lambda>k. tk_track_id k = tk_track_id (key c)"] Some l(1,3)
    by (auto simp add: append_peer_connection_track_to_list_def ll_find_llist same_track_def
        find_peer_connection_track_by_track_id_def remove_peer_connection_track_from_list_def)
qed

interpretation nodes: keyed_list
  "\<lambda>h p k. find_peer_connection_node_by_remote_id h p (nk_remote_id k)"
  append_peer_connection_node_to_list same_remote
  by unfold_locales
    (simp_all add: find_node_list append_node_list, simp_all add: same_remote_def)

interpretation tracks: keyed_list
  "\<lambda>h p k. find_peer_connection_track_by_track_id h p (tk_track_id k)"
  append_peer_connection_track_to_list same_track
  by unfold_locales
    (simp_all add: find_peer_connection_track_by_track_id_def ll_find_llist append_track_list,
      simp_all add: same_track_def)

definition unique_remote_ids :: "node_key heap \<Rightarrow> addr list \<Rightarrow> bool" where
  "unique_remote_ids h as \<longleftrightarrow>
     (\<forall>a \<in> set as. \<forall>b \<in> set as. nk_remote_id (key_of h a) \<noteq> None
        \<and> nk_remote_id (key_of h a) = nk_remote_id (key_of h b) \<longrightarrow> a = b)"

definition unique_track_ids :: "track_key heap \<Rightarrow> addr list \<Rightarrow> bool" where
  "unique_track_ids h as \<longleftrightarrow>
     (\<forall>a \<in> set as. \<forall>b \<in> set as. tk_track_id (key_of h a) = tk_track_id (key_of h b) \<longrightarrow> a = b)"

lemma unique_remote_ids_iff: "nodes.unique_keys h as = unique_remote_ids h as"
  unfolding nodes.unique_keys_def unique_remote_ids_def same_remote_def by metis

lemma unique_track_ids_iff: "tracks.unique_keys h as = unique_track_ids h as"
  unfolding tracks.unique_keys_def unique_track_ids_def same_track_def
  by (metis track_key.select_convs(1))

section \<open>Properties\<close>

text \<open>C10. Appending a node refines the list operation: for a well-formed cache and a fresh
  node whose \<open>next\<close> is NULL, the pointer code terminates without touching freed memory, and
  the cache it leaves is the old one less the first node with the same remote id, with the
  new node at the tail and every key unchanged.\<close>

theorem append_node_refines:
  assumes "llist h p as" and "n \<notin> set as" and "h n = Some c" and "nxt c = None"
  shows "\<exists>h' p'. append_peer_connection_node_to_list h p (Some n) = Some (Ok (h', p'))
      \<and> llist h' p' (remove_first (\<lambda>a. same_remote (key c) (key_of h a)) as @ [n])
      \<and> (\<forall>a \<in> dom h'. key_of h' a = key_of h a)"
  using assms by (rule nodes.app_list)

definition example_nodes :: "node_key heap" where
  "example_nodes = [0 \<mapsto> \<lparr>key = \<lparr>nk_remote_id = Some ''a'', nk_pc_id = 1\<rparr>, nxt = Some 1\<rparr>,
     1 \<mapsto> \<lparr>key = \<lparr>nk_remote_id = Some ''b'', nk_pc_id = 2\<rparr>, nxt = None\<rparr>,
     2 \<mapsto> \<lparr>key = \<lparr>nk_remote_id = Some ''a'', nk_pc_id = 3\<rparr>, nxt = None\<rparr>]"

lemma example_nodes_list:
  "llist example_nodes (Some 0) [0, 1]" "2 \<notin> set [0::addr, 1]"
  "example_nodes 2 = Some \<lparr>key = \<lparr>nk_remote_id = Some ''a'', nk_pc_id = 3\<rparr>, nxt = None\<rparr>"
  "unique_remote_ids example_nodes [0, 1]"
  by (simp_all add: example_nodes_def unique_remote_ids_def key_of_def)

theorem append_node_refines_witness:
  "\<exists>h' p'. append_peer_connection_node_to_list example_nodes (Some 0) (Some 2) = Some (Ok (h', p'))
      \<and> llist h' p' [1, 2]"
proof -
  have eq: "remove_first (\<lambda>a. same_remote (key \<lparr>key = \<lparr>nk_remote_id = Some ''a'', nk_pc_id = 3\<rparr>,
      nxt = None\<rparr>) (key_of example_nodes a)) [0, 1] @ [2] = [1, 2]"
    by (simp add: example_nodes_def same_remote_def key_of_def)
  have n: "nxt \<lparr>key = \<lparr>nk_remote_id = Some ''a'', nk_pc_id = 3\<rparr>, nxt = None\<rparr> = None" by simp
  show ?thesis
    using append_node_refines [OF example_nodes_list(1-3) n, unfolded eq] by blast
qed

text \<open>The node cache behaves as a map from remote ids: after an append the new node is
  the one found under its remote id, every other remote id finds what it found before, and
  no two nodes of the cache share a remote id if none did before.\<close>

theorem append_node_lookup:
  assumes "llist h p as" and "n \<notin> set as" and "h n = Some c" and "nxt c = None"
    and "unique_remote_ids h as" and "nk_remote_id (key c) = Some r"
    and "append_peer_connection_node_to_list h p (Some n) = Some (Ok (h', p'))"
  shows "find_peer_connection_node_by_remote_id h' p' (Some r) = Some (Some n)
     \<and> (\<forall>q. q \<noteq> Some r \<longrightarrow> find_peer_connection_node_by_remote_id h' p' q
              = find_peer_connection_node_by_remote_id h p q)
     \<and> (\<forall>bs. llist h' p' bs \<longrightarrow> unique_remote_ids h' bs)"
proof (intro conjI allI impI)
  note l = assms(1-4) assms(5) [folded unique_remote_ids_iff]
  have s: "same_remote (key c) (key c)" using assms(6) by (simp add: same_remote_def)
  show "find_peer_connection_node_by_remote_id h' p' (Some r) = Some (Some n)"
    using nodes.fnd_after_app(1) [OF l s assms(7)] assms(6) by simp
  show "find_peer_connection_node_by_remote_id h' p' q
      = find_peer_connection_node_by_remote_id h p q" if "q \<noteq> Some r" for q
    using nodes.fnd_after_app(2) [OF l s assms(7), of "\<lparr>nk_remote_id = q, nk_pc_id = 0\<rparr>"] that assms(6)
    by (simp add: same_remote_def)
  show "unique_remote_ids h' bs" if "llist h' p' bs" for bs
    using nodes.app_unique [OF l assms(7) that] by (simp add: unique_remote_ids_iff)
qed

theorem append_node_lookup_witness:
  "\<exists>h' p'. append_peer_connection_node_to_list example_nodes (Some 0) (Some 2) = Some (Ok (h', p'))
     \<and> find_peer_connection_node_by_remote_id h' p' (Some ''a'') = Some (Some 2)
     \<and> find_peer_connection_node_by_remote_id h' p' (Some ''b'')
         = find_peer_connection_node_by_remote_id example_nodes (Some 0) (Some ''b'')"
proof -
  obtain h' p' where
    "append_peer_connection_node_to_list example_nodes (Some 0) (Some 2) = Some (Ok (h', p'))"
    using append_node_list [OF example_nodes_list(1-3)] by auto
  then show ?thesis
    using append_node_lookup [OF example_nodes_list(1-3) _ example_nodes_list(4), of "''a''" h' p']
    by (intro exI [of _ h'] exI [of _ p']) simp
qed

text \<open>The track cache behaves as a map from track ids: after an append the new track is
  found under its id, the other ids find what they found before, and ids stay unique.\<close>

theorem append_track_lookup:
  assumes "llist h p as" and "n \<notin> set as" and "h n = Some c" and "nxt c = None"
    and "unique_track_ids h as"
    and "append_peer_connection_track_to_list h p (Some n) = Some (Ok (h', p'))"
  shows "find_peer_connection_track_by_track_id h' p' (tk_track_id (key c)) = Some (Some n)
     \<and> (\<forall>i. i \<noteq> tk_track_id (key c) \<longrightarrow> find_peer_connection_track_by_track_id h' p' i
              = find_peer_connection_track_by_track_id h p i)
     \<and> (\<forall>bs. llist h' p' bs \<longrightarrow> unique_track_ids h' bs)"
proof (intro conjI allI impI)
  note l = assms(1-4) assms(5) [folded unique_track_ids_iff]
  have s: "same_track (key c) (key c)" by (simp add: same_track_def)
  show "find_peer_connection_track_by_track_id h' p' (tk_track_id (key c)) = Some (Some n)"
    using tracks.fnd_after_app(1) [OF l s assms(6)] by simp
  show "find_peer_connection_track_by_track_id h' p' i
      = find_peer_connection_track_by_track_id h p i" if "i \<noteq> tk_track_id (key c)" for i
    using tracks.fnd_after_app(2) [OF l s assms(6), of "\<lparr>tk_track_id = i, tk_stream_index = 0\<rparr>"] that
    by (simp add: same_track_def)
  show "unique_track_ids h' bs" if "llist h' p' bs" for bs
    using tracks.app_unique [OF l assms(6) that] by (simp add: unique_track_ids_iff)
qed

theorem append_track_lookup_witness:
  "let h = [7 \<mapsto> \<lparr>key = \<lparr>tk_track_id = 4, tk_stream_index = 0\<rparr>, nxt = None\<rparr>,
            8 \<mapsto> \<lparr>key = \<lparr>tk_track_id = 5, tk_stream_index = 1\<rparr>, nxt = None\<rparr>];
       h' = h(7 \<mapsto> \<lparr>key = \<lparr>tk_track_id = 4, tk_stream_index = 0\<rparr>, nxt = Some 8\<rparr>)
   in append_peer_connection_track_to_list h (Some 7) (Some 8) = Some (Ok (h', Some 7))
     \<and> find_peer_connection_track_by_track_id h' (Some 7) 5 = Some (Some 8)"
proof -
  define h :: "track_key heap" where
    "h = [7 \<mapsto> \<lparr>key = \<lparr>tk_track_id = 4, tk_stream_index = 0\<rparr>, nxt = None\<rparr>,
          8 \<mapsto> \<lparr>key = \<lparr>tk_track_id = 5, tk_stream_index = 1\<rparr>, nxt = None\<rparr>]"
  define h' where "h' = h(7 \<mapsto> \<lparr>key = \<lparr>tk_track_id = 4, tk_stream_index = 0\<rparr>, nxt = Some 8\<rparr>)"
  have r: "append_peer_connection_track_to_list h (Some 7) (Some 8) = Some (Ok (h', Some 7))"
    by (simp add: append_peer_connection_track_to_list_def find_peer_connection_track_by_track_id_def
        ll_find.simps ll_link_tail.simps h_def h'_def)
  have "find_peer_connection_track_by_track_id h' (Some 7) 5 = Some (Some 8)"
    using append_track_lookup [OF _ _ _ _ _ r, of "[7]"]
    by (simp add: h_def unique_track_ids_def)
  with r show ?thesis by (simp add: h_def h'_def)
qed

end
