(* ===== verification/P2P_Types.thy ===== *)
theory P2P_Types
  imports Complex_Main Prelude P2P_Lists
begin

text \<open>
  The data of \<^verbatim>\<open>libavformat/p2p.h\<close>, and the world in which the P2P code runs: the
  allocated nodes and tracks, the context they hang from, and the calls made to
  libdatachannel and to the FFmpeg layers below. Those layers are a parameter \<open>E\<close> of the
  model: given the calls made so far and the next one, it says what the call returns (an
  integer, and the text it writes into its output buffer where it has one).

  Pointers are addresses; a linked list hanging from a field is the list of its addresses
  (\<open>P2P_Lists\<close> proves that the pointer code computes the list operations used here).
\<close>

section \<open>Enumerations\<close>

datatype ProbingPhase =
    PROBING_SLOW_START | PROBING_BANDWIDTH | PROBING_VERIFICATION | PROBING_COMPLETE

datatype PeerConnectionStatus =
    Disconnected | Connecting | Connected | NetworkProbing | Selected | Closed | Failed

datatype PeerConnectionTrackType =
    TrackType_Unknown | TrackType_Video | TrackType_Audio
  | TrackType_DataChannel | TrackType_ProbeChannel

datatype AVMediaType =
    AVMEDIA_TYPE_UNKNOWN | AVMEDIA_TYPE_VIDEO | AVMEDIA_TYPE_AUDIO | AVMEDIA_TYPE_DATA
  | AVMEDIA_TYPE_SUBTITLE

text \<open>The codec ids that the modelled files name; \<open>CODEC_OTHER n\<close> is any other id.\<close>

datatype AVCodecID =
    CODEC_NONE | CODEC_H264 | CODEC_HEVC | CODEC_AV1 | CODEC_VP8 | CODEC_VP9 | CODEC_OPUS
  | CODEC_AAC | CODEC_PCM_MULAW | CODEC_PCM_ALAW | CODEC_PCM_S16LE | CODEC_OTHER nat

datatype rtcState =
    RTC_NEW | RTC_CONNECTING | RTC_CONNECTED | RTC_DISCONNECTED | RTC_FAILED | RTC_CLOSED
  | RTC_STATE_OTHER int

datatype rtcIceState =
    RTC_ICE_NEW | RTC_ICE_CHECKING | RTC_ICE_CONNECTED | RTC_ICE_COMPLETED | RTC_ICE_FAILED
  | RTC_ICE_DISCONNECTED | RTC_ICE_CLOSED | RTC_ICE_OTHER int

datatype rtcCodec =
    RTC_CODEC_H264 | RTC_CODEC_H265 | RTC_CODEC_AV1 | RTC_CODEC_VP9 | RTC_CODEC_OPUS
  | RTC_CODEC_AAC | RTC_CODEC_PCMA | RTC_CODEC_PCMU | RTC_CODEC_INVALID

datatype rtcDirection = RTC_DIRECTION_SENDONLY | RTC_DIRECTION_RECVONLY

section \<open>Constants\<close>

definition SDP_MAX_SIZE :: int where "SDP_MAX_SIZE = 8192"
definition P2P_RTP_MAX_PACKET_SIZE :: int where "P2P_RTP_MAX_PACKET_SIZE = 1450"
definition PROBE_MAX_PACKET_SIZE :: nat where "PROBE_MAX_PACKET_SIZE = 1500"
definition PROBE_TIMEOUT_MS :: int where "PROBE_TIMEOUT_MS = 5000 * 1000"
definition MIN_BANDWIDTH_KBPS :: rat where "MIN_BANDWIDTH_KBPS = 500"
definition MAX_RTT_MS :: rat where "MAX_RTT_MS = 1000"
definition MAX_PACKET_LOSS :: rat where "MAX_PACKET_LOSS = 1 / 10"
definition PROBE_CHANNEL_LABEL :: string where "PROBE_CHANNEL_LABEL = ''probe_channel''"
definition P2P_WAITING_RECEIVER_TIMEOUT_SEC :: int where "P2P_WAITING_RECEIVER_TIMEOUT_SEC = 10"

section \<open>Structs\<close>

text \<open>
  Times are in microseconds. The \<open>double\<close> fields are exact rationals (the rounding of
  floating point is not modelled); \<open>min_rtt = None\<close> is the initial \<open>INFINITY\<close>.
\<close>

record NetworkQualityMetrics =
  start_time :: int
  last_recv_time :: int
  packets_sent :: int
  packets_received :: int
  rtt_sum :: rat
  rtt_count :: int
  bytes_received :: u64
  packet_loss_rate :: rat
  bandwidth_kbps :: rat
  ice_connectivity_score :: int
  final_score :: rat
  phase :: ProbingPhase
  expected_packets :: int
  timeout_ms :: int
  probe_start_time :: int
  min_rtt :: "rat option"
  max_rtt :: rat

text \<open>A track: \<open>rtp_ctx\<close> is the handle of the chained RTP (de)muxer, where there is one.\<close>

record PeerConnectionTrack =
  rtp_ctx :: "int option"
  rtp_url_context :: bool
  stream_index :: int
  track_type :: PeerConnectionTrackType
  track_id :: int

record PeerConnectionNode =
  remote_id :: "string option"
  pc_id :: int
  status :: PeerConnectionStatus
  track_caches :: "addr list"
  video_track :: "addr option"
  audio_track :: "addr option"
  probe_track :: "addr option"
  candidate_caches :: "PeerConnectionNodeCandidate list"
  network_quality :: NetworkQualityMetrics

record AVStream =
  codec_type :: AVMediaType
  codec_id :: AVCodecID
  sample_rate :: int
  ch_layout :: string
  extradata :: bytes
  time_base :: "int \<times> int"

text \<open>\<open>av_mallocz\<close> and \<open>memset\<close> zero a struct.\<close>

definition zero_metrics :: NetworkQualityMetrics where
  "zero_metrics = \<lparr>start_time = 0, last_recv_time = 0, packets_sent = 0, packets_received = 0,
     rtt_sum = 0, rtt_count = 0, bytes_received = 0, packet_loss_rate = 0, bandwidth_kbps = 0,
     ice_connectivity_score = 0, final_score = 0, phase = PROBING_SLOW_START,
     expected_packets = 0, timeout_ms = 0, probe_start_time = 0, min_rtt = Some 0, max_rtt = 0\<rparr>"

definition zero_track :: PeerConnectionTrack where
  "zero_track = \<lparr>rtp_ctx = None, rtp_url_context = False, stream_index = 0,
     track_type = TrackType_Unknown, track_id = 0\<rparr>"

definition zero_node :: PeerConnectionNode where
  "zero_node = \<lparr>remote_id = None, pc_id = 0, status = Disconnected, track_caches = [],
     video_track = None, audio_track = None, probe_track = None, candidate_caches = [],
     network_quality = zero_metrics\<rparr>"

definition zero_stream :: AVStream where
  "zero_stream = \<lparr>codec_type = AVMEDIA_TYPE_UNKNOWN, codec_id = CODEC_NONE, sample_rate = 0,
     ch_layout = [], extradata = [], time_base = (0, 0)\<rparr>"

section \<open>Calls to the layers below\<close>

text \<open>The callbacks the code installs in libdatachannel, by the name of the C function.\<close>

datatype handler =
    On_pc_local_description | On_pc_local_candidate | On_pc_state_change
  | On_pc_ice_state_change | On_pc_gathering_state | On_pc_signaling_state
  | On_pc_data_channel | On_pc_track
  | On_track_open | On_track_error | On_track_close
  | On_probe_channel_open | On_probe_channel_error | On_probe_channel_closed
  | On_probe_channel_message
  | On_ws_open | On_ws_error | On_ws_close | On_ws_message | P2p_connect_thread_fn
  | Webrtc_on_state_change

record rtcTrackInit =
  ti_direction :: rtcDirection
  ti_codec :: rtcCodec
  ti_payloadType :: int
  ti_ssrc :: u32
  ti_mid :: string
  ti_msid :: string
  ti_trackId :: string
  ti_profile :: "string option"

datatype ext_call =
    RtcCreatePeerConnection | RtcDeletePeerConnection int | RtcSetUserPointer int
  | RtcSetCallback handler int
  | RtcSetLocalDescription int string | RtcGetLocalDescription int
  | RtcSetRemoteDescription int string string | RtcAddRemoteCandidate int string string
  | RtcSendMessage int bytes | RtcReceiveMessage int int
  | RtcAddTrackEx int rtcTrackInit | RtcDeleteTrack int
  | RtcCreateDataChannelEx int string | RtcDeleteDataChannel int
  | RtcGetTrackDescription int | RtcGetTrackDirection int
  | RtcGetTrackPayloadTypesForCodec int | RtcCreateWebSocket string
  | Av_mallocz | Av_gettime | Av_random | Rand | Av_usleep int
  | Avformat_new_stream | Avformat_alloc_context | Avformat_open_input int string
  | Avformat_close_input int | Ffio_fdopen int
  | Rtp_chain_mux_open int | Rtp_mux_payload_type int | Rtp_mux_ssrc int
  | Sdp_write_media int
  | Av_write_frame int int | Abort
  | Ffurl_alloc string | Ffurl_connect "(string \<times> string) list" | Ffurl_read_complete int
  | Ffurl_closep | Av_opt_get_location | Avformat_free_context int
  | RtcGetTrackMid int | Assert_fail
  | Rtp_free_url_context int | Av_find_input_format string | Avcodec_parameters_copy int
  | Ff_copy_whiteblacklists int | Av_read_frame int | Stream_add_bitstream_filter string string
  | Avformat_find_stream_info int | Av_packet_ref | Av_packet_unref | Pthread_create handler
  | Pthread_detach | Av_gettime_relative | Av_asprintf

text \<open>C strings passed to a call that takes bytes.\<close>

definition text_bytes :: "string \<Rightarrow> bytes" where
  "text_bytes s = map of_char s"

type_synonym ext = "ext_call list \<Rightarrow> ext_call \<Rightarrow> int \<times> string"

text \<open>The calls made so far, the base of every state that makes calls.\<close>

record io =
  calls :: "ext_call list"

text \<open>Making a call: the answer, and the call recorded.\<close>

definition ext_call :: "ext \<Rightarrow> ext_call \<Rightarrow> 'a io_scheme \<Rightarrow> (int \<times> string) \<times> 'a io_scheme" where
  "ext_call E c w = (E (calls w) c, w\<lparr>calls := calls w @ [c]\<rparr>)"

definition ext_int :: "ext \<Rightarrow> ext_call \<Rightarrow> 'a io_scheme \<Rightarrow> int \<times> 'a io_scheme" where
  "ext_int E c w = (fst (E (calls w) c), w\<lparr>calls := calls w @ [c]\<rparr>)"

text \<open>A call whose result the code ignores.\<close>

definition ext_do :: "ext_call \<Rightarrow> 'a io_scheme \<Rightarrow> 'a io_scheme" where
  "ext_do c w = w\<lparr>calls := calls w @ [c]\<rparr>"

lemma calls_ext [simp]:
  "calls (ext_do c w) = calls w @ [c]"
  "calls (snd (ext_int E c w)) = calls w @ [c]"
  "calls (snd (ext_call E c w)) = calls w @ [c]"
  by (simp_all add: ext_do_def ext_int_def ext_call_def)

section \<open>The world\<close>

record world = io +
  nodes :: "addr \<rightharpoonup> PeerConnectionNode"
  tracks :: "addr \<rightharpoonup> PeerConnectionTrack"
  next_addr :: addr
  streams :: "AVStream list"
  local_id :: "string option"
  web_socket :: int
  web_socket_connected :: int
  web_socket_server :: "(string \<times> string) option"
  room_info_room_id :: "string option"
  peer_connection_node_caches :: "addr list"
  selected_node :: "addr option"
  signal_callbacks :: bool
  config :: "string list"

lemma ext_do_simps [simp]:
  "nodes (ext_do c w) = nodes w"
  "tracks (ext_do c w) = tracks w" "next_addr (ext_do c w) = next_addr w"
  "streams (ext_do c w) = streams w"
  "local_id (ext_do c w) = local_id w" "web_socket (ext_do c w) = web_socket w"
  "web_socket_connected (ext_do c w) = web_socket_connected w"
  "room_info_room_id (ext_do c w) = room_info_room_id w"
  "peer_connection_node_caches (ext_do c w) = peer_connection_node_caches w"
  "selected_node (ext_do c w) = selected_node w"
  "signal_callbacks (ext_do c w) = signal_callbacks w"
  "config (ext_do c w) = config w"
  "world.more (ext_do c w) = world.more w"
  by (simp_all add: ext_do_def)

definition upd_node :: "addr \<Rightarrow> (PeerConnectionNode \<Rightarrow> PeerConnectionNode) \<Rightarrow> 'a world_scheme
    \<Rightarrow> 'a world_scheme" where
  "upd_node a f w = w\<lparr>nodes := (nodes w)(a := map_option f (nodes w a))\<rparr>"

definition upd_track :: "addr \<Rightarrow> (PeerConnectionTrack \<Rightarrow> PeerConnectionTrack) \<Rightarrow> 'a world_scheme
    \<Rightarrow> 'a world_scheme" where
  "upd_track a f w = w\<lparr>tracks := (tracks w)(a := map_option f (tracks w a))\<rparr>"

lemma upd_node_simps [simp]:
  "calls (upd_node a f w) = calls w" "tracks (upd_node a f w) = tracks w"
  "nodes (upd_node a f w) = (nodes w)(a := map_option f (nodes w a))"
  "next_addr (upd_node a f w) = next_addr w" "streams (upd_node a f w) = streams w"
  "local_id (upd_node a f w) = local_id w" "web_socket (upd_node a f w) = web_socket w"
  "room_info_room_id (upd_node a f w) = room_info_room_id w"
  "peer_connection_node_caches (upd_node a f w) = peer_connection_node_caches w"
  "selected_node (upd_node a f w) = selected_node w"
  "signal_callbacks (upd_node a f w) = signal_callbacks w"
  "world.more (upd_node a f w) = world.more w"
  by (simp_all add: upd_node_def)

lemma upd_track_simps [simp]:
  "calls (upd_track a f w) = calls w" "nodes (upd_track a f w) = nodes w"
  "tracks (upd_track a f w) = (tracks w)(a := map_option f (tracks w a))"
  "next_addr (upd_track a f w) = next_addr w" "streams (upd_track a f w) = streams w"
  "local_id (upd_track a f w) = local_id w" "web_socket (upd_track a f w) = web_socket w"
  "room_info_room_id (upd_track a f w) = room_info_room_id w"
  "peer_connection_node_caches (upd_track a f w) = peer_connection_node_caches w"
  "selected_node (upd_track a f w) = selected_node w"
  "signal_callbacks (upd_track a f w) = signal_callbacks w"
  "world.more (upd_track a f w) = world.more w"
  by (simp_all add: upd_track_def)

text \<open>The node and the track at an address; an address in use is always allocated.\<close>

definition node_at :: "'a world_scheme \<Rightarrow> addr \<Rightarrow> PeerConnectionNode" where
  "node_at w a = (case nodes w a of None \<Rightarrow> zero_node | Some n \<Rightarrow> n)"

definition track_at :: "'a world_scheme \<Rightarrow> addr \<Rightarrow> PeerConnectionTrack" where
  "track_at w a = (case tracks w a of None \<Rightarrow> zero_track | Some t \<Rightarrow> t)"

section \<open>The caches of the world\<close>

definition find_node :: "string option \<Rightarrow> 'a world_scheme \<Rightarrow> addr option" where
  "find_node r w = (case r of None \<Rightarrow> None
     | Some s \<Rightarrow> find (\<lambda>a. remote_id (node_at w a) = Some s) (peer_connection_node_caches w))"

definition find_node_by_pc_id :: "int \<Rightarrow> 'a world_scheme \<Rightarrow> addr option" where
  "find_node_by_pc_id i w = find (\<lambda>a. pc_id (node_at w a) = i) (peer_connection_node_caches w)"

definition find_track :: "addr \<Rightarrow> int \<Rightarrow> 'a world_scheme \<Rightarrow> addr option" where
  "find_track n i w = find (\<lambda>t. track_id (track_at w t) = i) (track_caches (node_at w n))"

definition find_track_by_stream :: "addr \<Rightarrow> int \<Rightarrow> 'a world_scheme \<Rightarrow> addr option" where
  "find_track_by_stream n i w =
     find (\<lambda>t. stream_index (track_at w t) = i) (track_caches (node_at w n))"

text \<open>\<open>free\<close> of a node or track: its address is no longer allocated.\<close>

definition free_node :: "addr \<Rightarrow> 'a world_scheme \<Rightarrow> 'a world_scheme" where
  "free_node a w = w\<lparr>nodes := (nodes w)(a := None)\<rparr>"

definition free_track :: "addr \<Rightarrow> 'a world_scheme \<Rightarrow> 'a world_scheme" where
  "free_track a w = w\<lparr>tracks := (tracks w)(a := None)\<rparr>"

text \<open>Appending to a cache; an entry with the same key is removed and freed first.\<close>

definition append_node :: "addr \<Rightarrow> 'a world_scheme \<Rightarrow> 'a world_scheme" where
  "append_node n w =
     (let old = find_node (remote_id (node_at w n)) w
      in case old of
           None \<Rightarrow> w\<lparr>peer_connection_node_caches := peer_connection_node_caches w @ [n]\<rparr>
         | Some o' \<Rightarrow> free_node o' (w\<lparr>peer_connection_node_caches :=
             remove_first (\<lambda>a. remote_id (node_at w a) = remote_id (node_at w n))
               (peer_connection_node_caches w) @ [n]\<rparr>))"

definition append_track :: "addr \<Rightarrow> addr \<Rightarrow> 'a world_scheme \<Rightarrow> 'a world_scheme" where
  "append_track n t w =
     (let i = track_id (track_at w t)
      in case find_track n i w of
           None \<Rightarrow> upd_node n (\<lambda>nd. nd\<lparr>track_caches := track_caches nd @ [t]\<rparr>) w
         | Some u \<Rightarrow> free_track u (upd_node n (\<lambda>nd. nd\<lparr>track_caches :=
             remove_first (\<lambda>v. track_id (track_at w v) = i) (track_caches nd) @ [t]\<rparr>) w))"

text \<open>Allocation of a zeroed node or track; a NULL result is the answer 0 of \<open>av_mallocz\<close>.\<close>

definition alloc_node :: "ext \<Rightarrow> 'a world_scheme \<Rightarrow> addr option \<times> 'a world_scheme" where
  "alloc_node E w =
     (let (r, w) = ext_int E Av_mallocz w in
      if r = 0 then (None, w)
      else (Some (next_addr w),
            w\<lparr>nodes := (nodes w)(next_addr w \<mapsto> zero_node), next_addr := next_addr w + 1\<rparr>))"

definition alloc_track :: "ext \<Rightarrow> 'a world_scheme \<Rightarrow> addr option \<times> 'a world_scheme" where
  "alloc_track E w =
     (let (r, w) = ext_int E Av_mallocz w in
      if r = 0 then (None, w)
      else (Some (next_addr w),
            w\<lparr>tracks := (tracks w)(next_addr w \<mapsto> zero_track), next_addr := next_addr w + 1\<rparr>))"

end
