(* ===== verification/Uuid.thy ===== *)
theory Uuid
  imports Prelude
begin

text \<open>
  Text formatting: the \<open>printf\<close> conversions the P2P code uses, and the UUIDs of
  \<^verbatim>\<open>libavutil/uuid.c\<close> that name media streams and tracks.
\<close>

section \<open>Conversions of printf\<close>

definition digit_char :: "nat \<Rightarrow> char" where
  "digit_char d = ''0123456789abcdef'' ! d"

fun nat_string :: "nat \<Rightarrow> nat \<Rightarrow> string" where
  "nat_string base n =
     (if n < base \<or> base < 2 then [digit_char (n mod 16)]
      else nat_string base (n div base) @ [digit_char (n mod base mod 16)])"

declare nat_string.simps [simp del]

text \<open>\<open>%d\<close> of a C int, and \<open>%08x\<close> of an unsigned one.\<close>

definition fmt_d :: "int \<Rightarrow> string" where
  "fmt_d n = (if n < 0 then ''-'' @ nat_string 10 (nat (- n)) else nat_string 10 (nat n))"

definition fmt_08x :: "u32 \<Rightarrow> string" where
  "fmt_08x n = (let s = nat_string 16 (unat n) in replicate (8 - length s) (CHR ''0'') @ s)"

text \<open>\<open>strstr\<close> and \<open>strchr\<close>: the rest of the string from the first match on.\<close>

fun strstr :: "string \<Rightarrow> string \<Rightarrow> string option" where
  "strstr s needle =
     (if take (length needle) s = needle then Some s
      else case s of [] \<Rightarrow> None | _ # rest \<Rightarrow> strstr rest needle)"

declare strstr.simps [simp del]

definition strchr :: "string \<Rightarrow> char \<Rightarrow> string option" where
  "strchr s c = (case dropWhile (\<lambda>x. x \<noteq> c) s of [] \<Rightarrow> None | t \<Rightarrow> Some t)"

lemma strstr_Nil: "needle \<noteq> [] \<Longrightarrow> strstr [] needle = None"
  by (simp add: strstr.simps)

section \<open>UUIDs\<close>

definition av_tolower :: "char \<Rightarrow> char" where
  "av_tolower c = (let n = (of_char c :: nat) in if 65 \<le> n \<and> n \<le> 90 then char_of (n + 32) else c)"

definition xdigit_to_int :: "char \<Rightarrow> int" where
  "xdigit_to_int c0 =
     (let c = (of_char (av_tolower c0) :: nat)
      in if 97 \<le> c \<and> c \<le> 102 then int c - 97 + 10
         else if 48 \<le> c \<and> c \<le> 57 then int c - 48
         else - 1)"

text \<open>
  The loop over the 16 bytes, on the characters still to be read. A string of 36 characters
  never runs out of them.
\<close>

fun uuid_parse_bytes :: "nat list \<Rightarrow> string \<Rightarrow> bytes res" where
  "uuid_parse_bytes [] cp = Ok []"
| "uuid_parse_bytes (i # rest) cp =
     (let cp = (if i = 4 \<or> i = 6 \<or> i = 8 \<or> i = 10 then tl cp else cp);
          hi = xdigit_to_int (hd cp);
          lo = xdigit_to_int (hd (tl cp))
      in if hi = - 1 \<or> lo = - 1 then Err EINVAL
         else case uuid_parse_bytes rest (tl (tl cp)) of
             Inl e \<Rightarrow> Inl e
           | Inr bs \<Rightarrow> Ok (word_of_int (hi * 16 + lo) # bs))"

definition av_uuid_parse :: "string \<Rightarrow> bytes res" where
  "av_uuid_parse s = (if length s \<noteq> 36 then Err EINVAL else uuid_parse_bytes [0..<16] s)"

fun uuid_unparse_bytes :: "nat \<Rightarrow> bytes \<Rightarrow> string" where
  "uuid_unparse_bytes i [] = []"
| "uuid_unparse_bytes i (tmp # uuid) =
     (if i = 4 \<or> i = 6 \<or> i = 8 \<or> i = 10 then ''-'' else [])
     @ digit_char (unat (drop_bit 4 tmp)) # digit_char (unat (tmp AND 15)) # uuid_unparse_bytes (Suc i) uuid"

definition av_uuid_unparse :: "bytes \<Rightarrow> string" where
  "av_uuid_unparse uuid = uuid_unparse_bytes 0 uuid"

definition av_uuid_urn_parse :: "string \<Rightarrow> bytes res" where
  "av_uuid_urn_parse s =
     (if map av_tolower (take 9 s) \<noteq> ''urn:uuid:'' then Err EINVAL else av_uuid_parse (drop 9 s))"

section \<open>Round trip\<close>

lemma all_digits:
  assumes "d < 16"
  shows "xdigit_to_int (digit_char d) = int d"
proof -
  have "d \<in> {0, 1, 2, 3, 4, 5, 6, 7, 8, 9, 10, 11, 12, 13, 14, 15}"
    using assms by (simp only: insert_iff empty_iff) presburger
  then show ?thesis by (auto simp: digit_char_def xdigit_to_int_def av_tolower_def)
qed

lemma nibbles: "drop_bit 4 b * 16 + (b AND 15) = b" for b :: u8
proof -
  have "b = push_bit 4 (drop_bit 4 b) + (b AND 15)"
  proof -
    have "b AND 15 = take_bit 4 b" by (simp add: take_bit_eq_mask mask_eq_exp_minus_1)
    then show ?thesis by (simp add: bits_ident)
  qed
  then show ?thesis by (simp add: push_bit_eq_mult mult.commute)
qed

lemma nibble_bounds: "unat (drop_bit 4 b) < 16" "unat (b AND 15) < 16" for b :: u8
proof -
  have "unat b < 256" using unsigned_less [of b] by simp
  then show "unat (drop_bit 4 b) < 16"
    by (simp only: unat_drop_bit_eq) (simp add: drop_bit_eq_div)
  have "b AND 15 \<le> 15" by (rule word_and_le1)
  then show "unat (b AND 15) < 16" by (simp add: word_le_nat_alt)
qed

lemma parse_unparse_bytes:
  "uuid_parse_bytes [i..<i + length us] (uuid_unparse_bytes i us) = Ok us"
proof (induction us arbitrary: i)
  case (Cons u us)
  have "[i..<i + length (u # us)] = i # [Suc i..<Suc i + length us]"
    using upt_conv_Cons [of i "i + length (u # us)"] by (simp del: upt_Suc)
  moreover have "uint (drop_bit 4 u) \<noteq> - 1" "uint (u AND 15) \<noteq> - 1"
    using uint_ge_0 [of "drop_bit 4 u"] uint_ge_0 [of "u AND 15"] by linarith+
  ultimately show ?case
    using Cons.IH [of "Suc i"] by (simp add: all_digits nibble_bounds nibbles Let_def del: upt_Suc)
qed simp

lemma length_unparse_bytes:
  "length (uuid_unparse_bytes i us) =
     2 * length us + card ({4, 6, 8, 10} \<inter> {i..<i + length us})"
proof (induction us arbitrary: i)
  case (Cons u us)
  have "{i..<i + length (u # us)} = insert i {Suc i..<Suc i + length us}" by auto
  with Cons.IH [of "Suc i"] show ?case by (auto simp: Int_insert_right)
qed simp

section \<open>Properties\<close>

text \<open>A UUID printed by \<open>av_uuid_unparse\<close> has 36 characters, and \<open>av_uuid_parse\<close> reads
  back exactly the 16 bytes it was printed from.\<close>

theorem uuid_roundtrip:
  assumes "length uuid = 16"
  shows "length (av_uuid_unparse uuid) = 36 \<and> av_uuid_parse (av_uuid_unparse uuid) = Ok uuid"
proof -
  have "{4, 6, 8, 10} \<inter> {0..<0 + (16 :: nat)} = {4, 6, 8, 10}" by auto
  then have "length (av_uuid_unparse uuid) = 36"
    by (simp add: av_uuid_unparse_def length_unparse_bytes assms)
  moreover have "uuid_parse_bytes [0..<16] (uuid_unparse_bytes 0 uuid) = Ok uuid"
    using parse_unparse_bytes [of 0 uuid] assms by (simp del: upt_Suc upt_rec_numeral)
  ultimately show ?thesis by (simp add: av_uuid_parse_def av_uuid_unparse_def)
qed

theorem uuid_roundtrip_witness:
  "length (av_uuid_unparse (replicate 16 0xab)) = 36
     \<and> av_uuid_parse (av_uuid_unparse (replicate 16 0xab)) = Ok (replicate 16 0xab)"
  by (rule uuid_roundtrip) simp

text \<open>The separators of a UUID are not checked: replacing the four characters at 8, 13,
  18 and 23 of a string by anything does not change what \<open>av_uuid_parse\<close> returns.\<close>

theorem uuid_separators_ignored:
  "av_uuid_parse (s[8 := a, 13 := b, 18 := c, 23 := d]) = av_uuid_parse s"
proof (cases "length s = 36")
  case True
  then obtain c0 c1 c2 c3 c4 c5 c6 c7 x8 t where s: "s = [c0, c1, c2, c3, c4, c5, c6, c7, x8] @ t"
      and t: "length t = 27"
    by (auto simp: numeral_eq_Suc length_Suc_conv)
  then obtain c9 c10 c11 c12 x13 u where u: "t = [c9, c10, c11, c12, x13] @ u" "length u = 22"
    by (auto simp: numeral_eq_Suc length_Suc_conv)
  then obtain c14 c15 c16 c17 x18 v where v: "u = [c14, c15, c16, c17, x18] @ v" "length v = 17"
    by (auto simp: numeral_eq_Suc length_Suc_conv)
  then obtain c19 c20 c21 c22 x23 w where w: "v = [c19, c20, c21, c22, x23] @ w" "length w = 12"
    by (auto simp: numeral_eq_Suc length_Suc_conv)
  show ?thesis
    using True w(2) unfolding s u v w by (simp add: av_uuid_parse_def upt_rec Let_def)
next
  case False
  then show ?thesis by (simp add: av_uuid_parse_def)
qed

end
