(* ===== verification/Rtp.thy ===== *)
theory Rtp
  imports P2P_Types Uuid
begin

text \<open>
  \<^verbatim>\<open>libavformat/rtp.h\<close> and \<^verbatim>\<open>rtp.c\<close>: the constants of RTP and RTCP, the table of static
  payload types and the look-ups in it; the NTP time format of \<^verbatim>\<open>libavformat/utils.c\<close>.
\<close>

section \<open>Constants\<close>

definition RTP_VERSION :: nat where "RTP_VERSION = 2"
definition RTP_PT_PRIVATE :: int where "RTP_PT_PRIVATE = 96"
definition RTCP_TX_RATIO_NUM :: u32 where "RTCP_TX_RATIO_NUM = 5"
definition RTCP_TX_RATIO_DEN :: u32 where "RTCP_TX_RATIO_DEN = 1000"

definition RTCP_FIR :: u8 where "RTCP_FIR = 192"
definition RTCP_IJ :: u8 where "RTCP_IJ = 195"
definition RTCP_SR :: u8 where "RTCP_SR = 200"
definition RTCP_RR :: u8 where "RTCP_RR = 201"
definition RTCP_SDES :: u8 where "RTCP_SDES = 202"
definition RTCP_BYE :: u8 where "RTCP_BYE = 203"
definition RTCP_RTPFB :: u8 where "RTCP_RTPFB = 205"
definition RTCP_PSFB :: u8 where "RTCP_PSFB = 206"
definition RTCP_TOKEN :: u8 where "RTCP_TOKEN = 210"

text \<open>The first byte of every packet, \<open>RTP_VERSION << 6\<close>.\<close>

definition version_byte :: u8 where "version_byte = push_bit 6 (of_nat RTP_VERSION)"

definition RTP_PT_IS_RTCP :: "u8 \<Rightarrow> bool" where
  "RTP_PT_IS_RTCP x \<longleftrightarrow> RTCP_FIR \<le> x \<and> x \<le> RTCP_IJ \<or> RTCP_SR \<le> x \<and> x \<le> RTCP_TOKEN"

lemma version_byte_val [simp]: "version_byte = 0x80"
  by (simp add: version_byte_def RTP_VERSION_def)

text \<open>A packet with the fixed header only.\<close>

definition rtp_packet :: "u8 \<Rightarrow> bool \<Rightarrow> u16 \<Rightarrow> u32 \<Rightarrow> u32 \<Rightarrow> bytes \<Rightarrow> bytes" where
  "rtp_packet pt m sq ts ss payload =
     [version_byte, (pt AND 0x7f) OR (if m then 0x80 else 0)] @ AV_WB16 sq @ AV_WB32 ts @ AV_WB32 ss @ payload"

lemma rtp_packet_fields:
  "length (rtp_packet pt m sq ts ss payload) = 12 + length payload"
  "rtp_packet pt m sq ts ss payload ! 0 = 0x80"
  "AV_RB16 (rtp_packet pt m sq ts ss payload) 2 = sq"
  "AV_RB32 (rtp_packet pt m sq ts ss payload) 4 = ts"
  "AV_RB32 (rtp_packet pt m sq ts ss payload) 8 = ss"
  "drop 12 (rtp_packet pt m sq ts ss payload) = payload"
  by (simp_all add: rtp_packet_def AV_RB16_def AV_RB32_def AV_WB16_def AV_WB32_def)

definition type_ok :: "u8 \<Rightarrow> bool" where
  "type_ok pt \<longleftrightarrow> (pt AND 0x7f) AND 0x7f = pt \<and> ((pt AND 0x7f) OR 0x80) AND 0x7f = pt
     \<and> \<not> RTP_PT_IS_RTCP (pt AND 0x7f) \<and> \<not> RTP_PT_IS_RTCP ((pt AND 0x7f) OR 0x80)
     \<and> \<not> bit (pt AND 0x7f) 7 \<and> bit ((pt AND 0x7f) OR 0x80) 7"

lemma type_ok_all: "list_all (\<lambda>n. type_ok (word_of_nat n)) [96..<128]"
  by code_simp

lemma rtp_packet_type:
  assumes "96 \<le> pt" "pt < 128"
  shows "(rtp_packet pt m sq ts ss payload ! Suc 0) AND 0x7f = pt"
    and "\<not> RTP_PT_IS_RTCP (rtp_packet pt m sq ts ss payload ! Suc 0)"
    and "bit (rtp_packet pt m sq ts ss payload ! Suc 0) 7 = m"
proof -
  have "unat pt \<in> set [96..<128]" using assms unfolding set_upt by (simp add: word_le_nat_alt word_less_nat_alt del: upt_Suc)
  then have "type_ok (word_of_nat (unat pt))"
    using type_ok_all unfolding list_all_iff by blast
  then have t: "type_ok pt" by simp
  have b: "rtp_packet pt m sq ts ss payload ! Suc 0 = (pt AND 0x7f) OR (if m then 0x80 else 0)"
    by (simp add: rtp_packet_def)
  note t = t [unfolded type_ok_def]
  show "(rtp_packet pt m sq ts ss payload ! Suc 0) AND 0x7f = pt"
    unfolding b using t by (cases m) (auto simp only: if_True if_False or.right_neutral)
  show "\<not> RTP_PT_IS_RTCP (rtp_packet pt m sq ts ss payload ! Suc 0)"
    unfolding b using t by (cases m) (auto simp only: if_True if_False or.right_neutral)
  show "bit (rtp_packet pt m sq ts ss payload ! Suc 0) 7 = m"
    unfolding b using t by (cases m) (auto simp only: if_True if_False or.right_neutral)
qed

section \<open>Codec parameters\<close>

record AVCodecParameters =
  par_codec_type :: AVMediaType
  par_codec_id :: AVCodecID
  par_sample_rate :: int
  par_nb_channels :: int
  par_block_align :: int
  par_bits_per_coded_sample :: int
  par_extradata :: bytes
  par_width :: int
  par_height :: int

record rtp_stream =
  st_index :: int
  st_id :: int
  st_time_base :: "int \<times> int"
  codecpar :: AVCodecParameters

text \<open>Codec ids the RTP files name beside those of the P2P code, by their number.\<close>

definition CODEC_MPEG1VIDEO :: AVCodecID where "CODEC_MPEG1VIDEO = CODEC_OTHER 1"
definition CODEC_MPEG2VIDEO :: AVCodecID where "CODEC_MPEG2VIDEO = CODEC_OTHER 2"
definition CODEC_H261 :: AVCodecID where "CODEC_H261 = CODEC_OTHER 3"
definition CODEC_H263 :: AVCodecID where "CODEC_H263 = CODEC_OTHER 4"
definition CODEC_MJPEG :: AVCodecID where "CODEC_MJPEG = CODEC_OTHER 7"
definition CODEC_PCM_S16BE :: AVCodecID where "CODEC_PCM_S16BE = CODEC_OTHER 65537"
definition CODEC_ADPCM_G722 :: AVCodecID where "CODEC_ADPCM_G722 = CODEC_OTHER 69660"
definition CODEC_MP2 :: AVCodecID where "CODEC_MP2 = CODEC_OTHER 86016"
definition CODEC_MP3 :: AVCodecID where "CODEC_MP3 = CODEC_OTHER 86017"
definition CODEC_QCELP :: AVCodecID where "CODEC_QCELP = CODEC_OTHER 86040"
definition CODEC_G723_1 :: AVCodecID where "CODEC_G723_1 = CODEC_OTHER 86068"
definition CODEC_MPEG2TS :: AVCodecID where "CODEC_MPEG2TS = CODEC_OTHER 131072"

lemmas codec_ids = CODEC_MPEG1VIDEO_def CODEC_MPEG2VIDEO_def CODEC_H261_def CODEC_H263_def
  CODEC_MJPEG_def CODEC_PCM_S16BE_def CODEC_ADPCM_G722_def CODEC_MP2_def CODEC_MP3_def
  CODEC_QCELP_def CODEC_G723_1_def CODEC_MPEG2TS_def

section \<open>Static payload types\<close>

record payload_row =
  row_pt :: int
  row_name :: string
  row_type :: AVMediaType
  row_codec :: AVCodecID
  clock_rate :: int
  audio_channels :: int

definition rtp_payload_types :: "payload_row list" where
  "rtp_payload_types = map (\<lambda>(p, n, t, c, r, ch). \<lparr>row_pt = p, row_name = n, row_type = t,
       row_codec = c, clock_rate = r, audio_channels = ch\<rparr>)
    [(0, ''PCMU'', AVMEDIA_TYPE_AUDIO, CODEC_PCM_MULAW, 8000, 1),
     (3, ''GSM'', AVMEDIA_TYPE_AUDIO, CODEC_NONE, 8000, 1),
     (4, ''G723'', AVMEDIA_TYPE_AUDIO, CODEC_G723_1, 8000, 1),
     (5, ''DVI4'', AVMEDIA_TYPE_AUDIO, CODEC_NONE, 8000, 1),
     (6, ''DVI4'', AVMEDIA_TYPE_AUDIO, CODEC_NONE, 16000, 1),
     (7, ''LPC'', AVMEDIA_TYPE_AUDIO, CODEC_NONE, 8000, 1),
     (8, ''PCMA'', AVMEDIA_TYPE_AUDIO, CODEC_PCM_ALAW, 8000, 1),
     (9, ''G722'', AVMEDIA_TYPE_AUDIO, CODEC_ADPCM_G722, 8000, 1),
     (10, ''L16'', AVMEDIA_TYPE_AUDIO, CODEC_PCM_S16BE, 44100, 2),
     (11, ''L16'', AVMEDIA_TYPE_AUDIO, CODEC_PCM_S16BE, 44100, 1),
     (12, ''QCELP'', AVMEDIA_TYPE_AUDIO, CODEC_QCELP, 8000, 1),
     (13, ''CN'', AVMEDIA_TYPE_AUDIO, CODEC_NONE, 8000, 1),
     (14, ''MPA'', AVMEDIA_TYPE_AUDIO, CODEC_MP2, -1, -1),
     (14, ''MPA'', AVMEDIA_TYPE_AUDIO, CODEC_MP3, -1, -1),
     (15, ''G728'', AVMEDIA_TYPE_AUDIO, CODEC_NONE, 8000, 1),
     (16, ''DVI4'', AVMEDIA_TYPE_AUDIO, CODEC_NONE, 11025, 1),
     (17, ''DVI4'', AVMEDIA_TYPE_AUDIO, CODEC_NONE, 22050, 1),
     (18, ''G729'', AVMEDIA_TYPE_AUDIO, CODEC_NONE, 8000, 1),
     (25, ''CelB'', AVMEDIA_TYPE_VIDEO, CODEC_NONE, 90000, -1),
     (26, ''JPEG'', AVMEDIA_TYPE_VIDEO, CODEC_MJPEG, 90000, -1),
     (28, ''nv'', AVMEDIA_TYPE_VIDEO, CODEC_NONE, 90000, -1),
     (31, ''H261'', AVMEDIA_TYPE_VIDEO, CODEC_H261, 90000, -1),
     (32, ''MPV'', AVMEDIA_TYPE_VIDEO, CODEC_MPEG1VIDEO, 90000, -1),
     (32, ''MPV'', AVMEDIA_TYPE_VIDEO, CODEC_MPEG2VIDEO, 90000, -1),
     (33, ''MP2T'', AVMEDIA_TYPE_DATA, CODEC_MPEG2TS, 90000, -1),
     (34, ''H263'', AVMEDIA_TYPE_VIDEO, CODEC_H263, 90000, -1)]"

definition ff_rtp_get_codec_info :: "AVCodecParameters \<Rightarrow> int \<Rightarrow> AVCodecParameters option" where
  "ff_rtp_get_codec_info par pt =
     map_option (\<lambda>r.
        let par = par\<lparr>par_codec_type := row_type r, par_codec_id := row_codec r\<rparr>;
            par = (if audio_channels r > 0 then par\<lparr>par_nb_channels := audio_channels r\<rparr> else par)
        in if clock_rate r > 0 then par\<lparr>par_sample_rate := clock_rate r\<rparr> else par)
       (find (\<lambda>r. row_pt r = pt \<and> row_codec r \<noteq> CODEC_NONE) rtp_payload_types)"

text \<open>
  \<open>opt\<close> is the option \<open>payload_type\<close> of the muxer and \<open>rfc2190\<close> its flag, read through the
  option system. The test of one row: \<open>None\<close> goes on to the next.
\<close>

definition row_matches :: "bool \<Rightarrow> AVCodecParameters \<Rightarrow> payload_row \<Rightarrow> bool" where
  "row_matches rfc2190 par r =
     (row_codec r = par_codec_id par
      \<and> \<not> (par_codec_id par = CODEC_H263 \<and> \<not> rfc2190)
      \<and> (par_codec_id par = CODEC_ADPCM_G722 \<and> par_sample_rate par = 16000 \<and> par_nb_channels par = 1
         \<or> \<not> (par_codec_type par = AVMEDIA_TYPE_AUDIO
               \<and> (clock_rate r > 0 \<and> par_sample_rate par \<noteq> clock_rate r
                  \<or> audio_channels r > 0 \<and> par_nb_channels par \<noteq> audio_channels r))))"

definition ff_rtp_get_payload_type :: "int option \<Rightarrow> bool \<Rightarrow> AVCodecParameters \<Rightarrow> int \<Rightarrow> int" where
  "ff_rtp_get_payload_type opt rfc2190 par idx =
     (if opt \<noteq> None \<and> the opt \<ge> 0 then the opt
      else case find (row_matches rfc2190 par) rtp_payload_types of
             Some r \<Rightarrow> row_pt r
           | None \<Rightarrow>
               RTP_PT_PRIVATE + (if idx < 0 then of_bool (par_codec_type par = AVMEDIA_TYPE_AUDIO) else idx))"

definition ff_rtp_enc_name :: "int \<Rightarrow> string" where
  "ff_rtp_enc_name pt = (case find (\<lambda>r. row_pt r = pt) rtp_payload_types of Some r \<Rightarrow> row_name r | None \<Rightarrow> [])"

definition ff_rtp_codec_id :: "string \<Rightarrow> AVMediaType \<Rightarrow> AVCodecID" where
  "ff_rtp_codec_id buf ct =
     (case find (\<lambda>r. map av_tolower buf = map av_tolower (row_name r) \<and> ct = row_type r) rtp_payload_types of
        Some r \<Rightarrow> row_codec r | None \<Rightarrow> CODEC_NONE)"

section \<open>NTP time\<close>

definition NTP_OFFSET_US :: int where "NTP_OFFSET_US = 2208988800 * 1000000"

text \<open>\<open>now\<close> is the answer of \<open>av_gettime\<close>.\<close>

definition ff_ntp_time :: "int \<Rightarrow> int" where
  "ff_ntp_time now = c_div now 1000 * 1000 + NTP_OFFSET_US"

definition ff_get_formatted_ntp_time :: "u64 \<Rightarrow> u64" where
  "ff_get_formatted_ntp_time t =
     (let sec = t div 1000000; usec = t mod 1000000;
          frac_part = usec * 0xFFFFFFFF div 1000000
      in push_bit 32 sec OR frac_part)"

definition ff_parse_ntp_time :: "u64 \<Rightarrow> u64" where
  "ff_parse_ntp_time ts =
     (let sec = drop_bit 32 ts; frac_part = ts AND 0xFFFFFFFF; usec = frac_part * 1000000 div 0xFFFFFFFF
      in sec * 1000000 + usec)"

end
