(* ===== verification/Srtp.thy ===== *)
theory Srtp
  imports Rtp
begin

text \<open>
  \<^verbatim>\<open>libavformat/srtp.c\<close>: protection of RTP and RTCP packets. The block cipher and the HMAC
  are the primitives of \<^verbatim>\<open>libavutil\<close>; they are parameters here: byte \<open>j\<close> of their output,
  as a function of the key they were initialised with and their input. The theorems hold for
  every choice of them.
\<close>

record crypto =
  aes_byte :: "bytes \<Rightarrow> bytes \<Rightarrow> nat \<Rightarrow> u8"
  hmac_byte :: "bytes \<Rightarrow> bytes \<Rightarrow> nat \<Rightarrow> u8"

definition aes_block :: "crypto \<Rightarrow> bytes \<Rightarrow> bytes \<Rightarrow> bytes" where
  "aes_block C k b = map (aes_byte C k b) [0..<16]"

definition hmac_sha1 :: "crypto \<Rightarrow> bytes \<Rightarrow> bytes \<Rightarrow> bytes" where
  "hmac_sha1 C k msg = map (hmac_byte C k msg) [0..<20]"

record SRTPContext =
  rtp_hmac_size :: nat
  rtcp_hmac_size :: nat
  master_key :: bytes
  master_salt :: bytes
  rtp_key :: bytes
  rtcp_key :: bytes
  rtp_salt :: bytes
  rtcp_salt :: bytes
  rtp_auth :: bytes
  rtcp_auth :: bytes
  seq_largest :: int
  seq_initialized :: bool
  roc :: u32
  rtcp_index :: u32

section \<open>Key stream\<close>

definition xor_list :: "bytes \<Rightarrow> bytes \<Rightarrow> bytes" where
  "xor_list xs ys = map2 (XOR) xs ys"

text \<open>Block \<open>i\<close> of the key stream: the counter is stored in the last two bytes of the vector.\<close>

definition counter_block :: "crypto \<Rightarrow> bytes \<Rightarrow> bytes \<Rightarrow> nat \<Rightarrow> bytes" where
  "counter_block C k iv i = aes_block C k (take 14 iv @ AV_WB16 (of_nat i))"

text \<open>\<open>encrypt_counter\<close> changes the buffer in place, 16 bytes at a time.\<close>

fun encrypt_blocks :: "crypto \<Rightarrow> bytes \<Rightarrow> bytes \<Rightarrow> nat \<Rightarrow> bytes list \<Rightarrow> bytes" where
  "encrypt_blocks C k iv i [] = []"
| "encrypt_blocks C k iv i (b # bs) =
     xor_list b (counter_block C k iv i) @ encrypt_blocks C k iv (Suc i) bs"

definition encrypt_counter :: "crypto \<Rightarrow> bytes \<Rightarrow> bytes \<Rightarrow> bytes \<Rightarrow> bytes" where
  "encrypt_counter C k iv buf = encrypt_blocks C k iv 0 (chunks 16 buf)"

definition derive_key :: "crypto \<Rightarrow> bytes \<Rightarrow> bytes \<Rightarrow> u8 \<Rightarrow> nat \<Rightarrow> bytes" where
  "derive_key C k salt label outlen =
     (let input = take 14 salt @ [0, 0]
      in encrypt_counter C k (input[7 := input ! 7 XOR label]) (replicate outlen 0))"

definition create_iv :: "bytes \<Rightarrow> u64 \<Rightarrow> u32 \<Rightarrow> bytes" where
  "create_iv salt index ssrc =
     (let iv = [0, 0, 0, 0] @ AV_WB32 ssrc @ replicate 8 0;
          iv = take 6 iv @ xor_list (take 8 (drop 6 iv)) (AV_WB64 index) @ drop 14 iv
      in xor_list (take 14 iv) (take 14 salt) @ drop 14 iv)"

section \<open>Set-up\<close>

text \<open>\<open>decoded\<close> is the result of \<open>av_base64_decode\<close>, \<open>alloc\<close> tells whether the two contexts could
  be allocated. A failure leaves what was set before it.\<close>

definition hmac_sizes :: "string \<Rightarrow> (nat \<times> nat) option" where
  "hmac_sizes suite =
     (if suite = ''AES_CM_128_HMAC_SHA1_80'' \<or> suite = ''SRTP_AES128_CM_HMAC_SHA1_80'' then Some (10, 10)
      else if suite = ''AES_CM_128_HMAC_SHA1_32'' then Some (4, 4)
      else if suite = ''SRTP_AES128_CM_HMAC_SHA1_32'' then Some (4, 10)
      else None)"

definition ff_srtp_set_crypto :: "crypto \<Rightarrow> bool \<Rightarrow> string \<Rightarrow> bytes res \<Rightarrow> SRTPContext \<Rightarrow> unit res \<times> SRTPContext" where
  "ff_srtp_set_crypto C alloc suite decoded s =
     (case hmac_sizes suite of None \<Rightarrow> (Err EINVAL, s)
      | Some (n, m) \<Rightarrow>
          let s = s\<lparr>rtp_hmac_size := n, rtcp_hmac_size := m\<rparr>
          in case decoded of Inl e \<Rightarrow> (Err EINVAL, s)
             | Inr buf \<Rightarrow>
                 if length buf \<noteq> 30 then (Err EINVAL, s)
                 else if \<not> alloc then (Err ENOMEM, s)
                 else let k = take 16 buf; salt = take 14 (drop 16 buf)
                      in (Ok (), s\<lparr>master_key := k, master_salt := salt,
                            rtp_key := derive_key C k salt 0 16,
                            rtp_salt := derive_key C k salt 2 14,
                            rtp_auth := derive_key C k salt 1 20,
                            rtcp_key := derive_key C k salt 3 16,
                            rtcp_salt := derive_key C k salt 5 14,
                            rtcp_auth := derive_key C k salt 4 20\<rparr>))"

section \<open>Packets\<close>

text \<open>The length of the RTP header, extension included; \<open>len\<close> counts what follows the fixed part.\<close>

definition rtp_header_length :: "bytes \<Rightarrow> nat option" where
  "rtp_header_length buf =
     (let h = 12 + 4 * unat (buf ! 0 AND 0x0f)
      in if length buf < h then None
         else if buf ! 0 AND 0x10 \<noteq> 0 then
           if length buf - h < 4 then None
           else let e = (unat (AV_RB16 buf (h + 2)) + 1) * 4
                in if length buf - h < e then None else Some (h + e)
         else Some h)"

definition crypt_tail :: "crypto \<Rightarrow> bytes \<Rightarrow> bytes \<Rightarrow> u64 \<Rightarrow> u32 \<Rightarrow> nat \<Rightarrow> bytes \<Rightarrow> bytes" where
  "crypt_tail C k salt index ssrc h buf =
     take h buf @ encrypt_counter C k (create_iv salt index ssrc) (drop h buf)"

text \<open>The index of a packet from its sequence number, RFC 3711 appendix A: the roll-over count the
  index uses, and the largest sequence number and roll-over count to be kept.\<close>

definition estimate_index :: "SRTPContext \<Rightarrow> int \<Rightarrow> u32 \<times> int \<times> u32" where
  "estimate_index s seq =
     (let largest = (if seq_initialized s then seq_largest s else seq);
          v = (if largest < 32768 then (if seq - largest > 32768 then roc s - 1 else roc s)
               else (if largest - 32768 > seq then roc s + 1 else roc s))
      in if v = roc s then (v, max largest seq, roc s)
         else if v = roc s + 1 then (v, seq, v)
         else (v, largest, roc s))"

definition packet_index :: "u32 \<Rightarrow> int \<Rightarrow> u64" where
  "packet_index v seq = word_of_int seq + push_bit 16 (ucast v)"

text \<open>The result is the packet without its tag, decrypted in place.\<close>

definition decrypt_rtcp :: "crypto \<Rightarrow> SRTPContext \<Rightarrow> bytes \<Rightarrow> bytes res" where
  "decrypt_rtcp C s buf =
     (let srtcp_index = AV_RB32 buf (length buf - 4);
          body = take (length buf - 4) buf;
          ssrc = AV_RB32 buf 4;
          index = srtcp_index AND 0x7fffffff
      in if srtcp_index AND 0x80000000 = 0 then Ok body
         else Ok (crypt_tail C (rtcp_key s) (rtcp_salt s) (ucast index) ssrc 8 body))"

definition decrypt_rtp :: "crypto \<Rightarrow> SRTPContext \<Rightarrow> u64 \<Rightarrow> bytes \<Rightarrow> bytes res" where
  "decrypt_rtp C s index buf =
     (case rtp_header_length buf of
        None \<Rightarrow> Err AVERROR_INVALIDDATA
      | Some h \<Rightarrow> Ok (crypt_tail C (rtp_key s) (rtp_salt s) index (AV_RB32 buf 8) h buf))"

definition ff_srtp_decrypt :: "crypto \<Rightarrow> SRTPContext \<Rightarrow> bytes \<Rightarrow> bytes res \<times> SRTPContext" where
  "ff_srtp_decrypt C s buf =
     (if length buf < 2 then (Err AVERROR_INVALIDDATA, s)
      else
        let rtcp = RTP_PT_IS_RTCP (buf ! 1);
            hmac_size = (if rtcp then rtcp_hmac_size s else rtp_hmac_size s)
        in if length buf < hmac_size then (Err AVERROR_INVALIDDATA, s)
           else
             let n = length buf - hmac_size;
                 seq = uint (AV_RB16 buf 2);
                 (v, largest, r) = estimate_index s seq;
                 msg = take n buf @ (if rtcp then [] else AV_WB32 r);
                 hmac = hmac_sha1 C (if rtcp then rtcp_auth s else rtp_auth s) msg
             in if take hmac_size hmac \<noteq> drop n buf then (Err AVERROR_INVALIDDATA, s)
                else if n < 12 then (Err AVERROR_INVALIDDATA, s)
                else if rtcp then (decrypt_rtcp C s (take n buf), s)
                else let s = s\<lparr>seq_initialized := True, seq_largest := largest, roc := r\<rparr>
                     in (decrypt_rtp C s (packet_index v seq) (take n buf), s))"

text \<open>\<open>outlen\<close> is the size of the output buffer; when it is too small the code returns 0 and writes
  nothing, which is the empty result.\<close>

definition encrypt_rtcp :: "crypto \<Rightarrow> SRTPContext \<Rightarrow> bytes \<Rightarrow> bytes \<times> SRTPContext" where
  "encrypt_rtcp C s buf =
     (let index = rtcp_index s;
          s = s\<lparr>rtcp_index := index + 1\<rparr>;
          out = crypt_tail C (rtcp_key s) (rtcp_salt s) (ucast index) (AV_RB32 buf 4) 8 buf
                  @ AV_WB32 (0x80000000 OR index)
      in (out @ take (rtcp_hmac_size s) (hmac_sha1 C (rtcp_auth s) out), s))"

definition encrypt_rtp :: "crypto \<Rightarrow> SRTPContext \<Rightarrow> bytes \<Rightarrow> bytes res \<times> SRTPContext" where
  "encrypt_rtp C s buf =
     (if length buf < 12 then (Err AVERROR_INVALIDDATA, s)
      else
        let seq = uint (AV_RB16 buf 2);
            s = (if seq < seq_largest s then s\<lparr>roc := roc s + 1\<rparr> else s);
            s = s\<lparr>seq_largest := seq\<rparr>
        in case rtp_header_length buf of
             None \<Rightarrow> (Err AVERROR_INVALIDDATA, s)
           | Some h \<Rightarrow>
               let out = crypt_tail C (rtp_key s) (rtp_salt s) (packet_index (roc s) seq) (AV_RB32 buf 8) h buf
               in (Ok (out @ take (rtp_hmac_size s) (hmac_sha1 C (rtp_auth s) (out @ AV_WB32 (roc s)))), s))"

definition ff_srtp_encrypt :: "crypto \<Rightarrow> SRTPContext \<Rightarrow> bytes \<Rightarrow> nat \<Rightarrow> bytes res \<times> SRTPContext" where
  "ff_srtp_encrypt C s buf outlen =
     (if length buf < 8 then (Err AVERROR_INVALIDDATA, s)
      else
        let rtcp = RTP_PT_IS_RTCP (buf ! 1);
            padding = (if rtcp then rtcp_hmac_size s + 4 else rtp_hmac_size s)
        in if length buf + padding > outlen then (Ok [], s)
           else if rtcp then let (out, s) = encrypt_rtcp C s buf in (Ok out, s)
           else encrypt_rtp C s buf)"


section \<open>Decryption undoes encryption\<close>

lemma length_hmac [simp]: "length (hmac_sha1 C k m) = 20"
  by (simp add: hmac_sha1_def)

lemma length_counter_block [simp]: "length (counter_block C k iv i) = 16"
  by (simp add: counter_block_def aes_block_def)

lemma encrypt_blocks_nth:
  "length (encrypt_blocks C k iv i (chunks 16 buf)) = length buf
   \<and> (\<forall>p < length buf. encrypt_blocks C k iv i (chunks 16 buf) ! p
        = buf ! p XOR counter_block C k iv (i + p div 16) ! (p mod 16))"
proof (induction "16 :: nat" buf arbitrary: i rule: chunks.induct)
  case (1 buf)
  show ?case
  proof (cases "buf = []")
    case True
    then show ?thesis by (subst (1 2) chunks.simps) simp
  next
    case False
    let ?r = "encrypt_blocks C k iv (Suc i) (chunks 16 (drop 16 buf))"
    have e: "encrypt_blocks C k iv i (chunks 16 buf) = xor_list (take 16 buf) (counter_block C k iv i) @ ?r"
      using False by (subst chunks.simps) simp
    have l: "length (xor_list (take 16 buf) (counter_block C k iv i)) = min (length buf) 16"
      by (simp add: xor_list_def)
    have ih: "length ?r = length buf - 16"
      "\<And>p. p < length buf - 16 \<Longrightarrow> ?r ! p
          = drop 16 buf ! p XOR counter_block C k iv (Suc i + p div 16) ! (p mod 16)"
      using 1 [of "Suc i"] False by simp_all
    have "encrypt_blocks C k iv i (chunks 16 buf) ! p
        = buf ! p XOR counter_block C k iv (i + p div 16) ! (p mod 16)" if p: "p < length buf" for p
    proof (cases "p < 16")
      case True
      then show ?thesis using p by (simp add: e nth_append l xor_list_def)
    next
      case False
      then obtain q where "p = q + 16" by (metis le_add_diff_inverse2 not_less)
      then show ?thesis using p ih(2) [of q] by (simp add: e nth_append l add.commute)
    qed
    then show ?thesis using ih(1) l e by simp
  qed
qed

lemma length_encrypt_counter [simp]: "length (encrypt_counter C k iv buf) = length buf"
  using encrypt_blocks_nth by (simp add: encrypt_counter_def)

lemma encrypt_counter_nth:
  "p < length buf \<Longrightarrow> encrypt_counter C k iv buf ! p
     = buf ! p XOR counter_block C k iv (p div 16) ! (p mod 16)"
  using encrypt_blocks_nth [of C k iv 0 buf] by (simp add: encrypt_counter_def)

lemma encrypt_counter_involution [simp]:
  "encrypt_counter C k iv (encrypt_counter C k iv buf) = buf"
  by (rule nth_equalityI) (simp_all add: encrypt_counter_nth xor.assoc)

lemma length_crypt_tail [simp]: "length (crypt_tail C k salt i ss h buf) = length buf"
  by (simp add: crypt_tail_def)

lemma crypt_tail_involution [simp]:
  "h \<le> length buf \<Longrightarrow> crypt_tail C k salt i ss h (crypt_tail C k salt i ss h buf) = buf"
  by (simp add: crypt_tail_def)

lemma crypt_tail_header [simp]:
  "p < h \<Longrightarrow> p < length buf \<Longrightarrow> crypt_tail C k salt i ss h buf ! p = buf ! p"
  by (simp add: crypt_tail_def nth_append)

lemma header_length_le: "rtp_header_length buf = Some h \<Longrightarrow> 12 \<le> h \<and> h \<le> length buf"
  by (auto simp: rtp_header_length_def Let_def split: if_splits)

lemma header_length_crypt:
  assumes "rtp_header_length buf = Some h"
  shows "rtp_header_length (crypt_tail C k salt i ss h buf) = Some h"
    and "AV_RB32 (crypt_tail C k salt i ss h buf) 8 = AV_RB32 buf 8"
    and "AV_RB16 (crypt_tail C k salt i ss h buf) 2 = AV_RB16 buf 2"
    and "crypt_tail C k salt i ss h buf ! 1 = buf ! 1"
proof -
  note h = header_length_le [OF assms]
  have b: "crypt_tail C k salt i ss h buf ! p = buf ! p" if "p < h" for p
    using that h by simp
  show "AV_RB32 (crypt_tail C k salt i ss h buf) 8 = AV_RB32 buf 8"
    "AV_RB16 (crypt_tail C k salt i ss h buf) 2 = AV_RB16 buf 2"
    "crypt_tail C k salt i ss h buf ! 1 = buf ! 1"
    using h by (simp_all add: AV_RB32_def AV_RB16_def b)
  have "buf ! 0 AND 0x10 \<noteq> 0 \<Longrightarrow> 12 + 4 * unat (buf ! 0 AND 0x0f) + 4 \<le> h"
    using assms by (auto simp: rtp_header_length_def Let_def split: if_splits)
  then show "rtp_header_length (crypt_tail C k salt i ss h buf) = Some h"
    using assms h by (auto simp: rtp_header_length_def Let_def AV_RB16_def b split: if_splits)
qed


section \<open>A session\<close>

text \<open>
  Both ends hold the same keys. The receiver's roll-over count and largest sequence number follow
  the sender's; before its first packet the receiver knows no sequence number and the sender's is 0.
\<close>

definition same_keys :: "SRTPContext \<Rightarrow> SRTPContext \<Rightarrow> bool" where
  "same_keys s r \<longleftrightarrow> rtp_key r = rtp_key s \<and> rtp_salt r = rtp_salt s \<and> rtp_auth r = rtp_auth s
     \<and> rtcp_key r = rtcp_key s \<and> rtcp_salt r = rtcp_salt s \<and> rtcp_auth r = rtcp_auth s
     \<and> rtp_hmac_size r = rtp_hmac_size s \<and> rtcp_hmac_size r = rtcp_hmac_size s
     \<and> 4 \<le> rtp_hmac_size s \<and> rtp_hmac_size s \<le> 20 \<and> 4 \<le> rtcp_hmac_size s \<and> rtcp_hmac_size s \<le> 20"

definition in_step :: "SRTPContext \<Rightarrow> SRTPContext \<Rightarrow> bool" where
  "in_step s r \<longleftrightarrow> same_keys s r \<and> roc r = roc s
     \<and> (if seq_initialized r then seq_largest r = seq_largest s else seq_largest s = 0)
     \<and> 0 \<le> seq_largest s \<and> seq_largest s < 65536"

text \<open>A packet the sender may send next: an RTCP packet while the 31 bit index lasts, or a complete
  RTP packet whose sequence number is ahead of the last one, modulo \<open>2 ^ 16\<close>, by less than half
  the range.\<close>

definition sendable :: "bool \<Rightarrow> SRTPContext \<Rightarrow> bytes \<Rightarrow> bool" where
  "sendable first s p \<longleftrightarrow>
     (if RTP_PT_IS_RTCP (p ! 1) then 8 \<le> length p \<and> rtcp_index s < 0x80000000
      else rtp_header_length p \<noteq> None
           \<and> (first \<or> (uint (AV_RB16 p 2) - seq_largest s) mod 65536 < 32768))"

lemma estimate_forward:
  assumes r: "roc r = roc s" "0 \<le> seq_largest s" "seq_largest s < 65536" "0 \<le> q" "q < 65536"
    and i: "if seq_initialized r then seq_largest r = seq_largest s \<and> (q - seq_largest s) mod 65536 < 32768
            else seq_largest s = 0"
  shows "estimate_index r q = (let c = (if q < seq_largest s then roc s + 1 else roc s) in (c, q, c))"
proof (cases "seq_initialized r")
  case True
  then have l: "seq_largest r = seq_largest s" and m: "(q - seq_largest s) mod 65536 < 32768"
    using i by auto
  have "q < seq_largest s \<Longrightarrow> (q - seq_largest s) mod 65536 = q - seq_largest s + 65536"
    using r by (subst mod_add_self2 [symmetric]) (rule mod_pos_pos_trivial, auto)
  moreover have "seq_largest s \<le> q \<Longrightarrow> (q - seq_largest s) mod 65536 = q - seq_largest s"
    using r by (intro mod_pos_pos_trivial) auto
  ultimately show ?thesis
    using True l m r by (auto simp: estimate_index_def Let_def)
next
  case False
  then show ?thesis using i r by (auto simp: estimate_index_def Let_def)
qed

definition next_sender :: "SRTPContext \<Rightarrow> bytes \<Rightarrow> SRTPContext" where
  "next_sender s p =
     (if RTP_PT_IS_RTCP (p ! 1) then s\<lparr>rtcp_index := rtcp_index s + 1\<rparr>
      else s\<lparr>roc := (if uint (AV_RB16 p 2) < seq_largest s then roc s + 1 else roc s),
             seq_largest := uint (AV_RB16 p 2)\<rparr>)"

definition next_receiver :: "SRTPContext \<Rightarrow> SRTPContext \<Rightarrow> bytes \<Rightarrow> SRTPContext" where
  "next_receiver s r p =
     (if RTP_PT_IS_RTCP (p ! 1) then r
      else r\<lparr>seq_initialized := True, seq_largest := seq_largest (next_sender s p),
             roc := roc (next_sender s p)\<rparr>)"

lemma uint_seq: "0 \<le> uint (x :: u16)" "uint (x :: u16) < 65536"
  using uint_bounded [of x] by simp_all

lemma in_step_next:
  assumes "in_step s r"
  shows "in_step (next_sender s p) (next_receiver s r p)"
  using assms uint_seq [of "AV_RB16 p 2"]
  by (simp add: in_step_def same_keys_def next_sender_def next_receiver_def)

lemma drop_tag: "n + length h = length xs \<Longrightarrow> drop n xs = h \<longleftrightarrow> xs = take n xs @ h"
  by (metis append_eq_conv_conj append_take_drop_id length_take min.absorb2 le_add1)

lemma AV_RB32_append_at: "length xs = n \<Longrightarrow> AV_RB32 (xs @ AV_WB32 x @ ys) n = x"
  by (simp only: AV_RB32_def AV_WB32_def) (simp only: nth_append append_Cons append_Nil, simp add: nth_Cons' del: drop_bit_eq_div drop_bit_of_nat)

lemma rtcp_index_bits:
  assumes "i < (0x80000000 :: u32)"
  shows "(0x80000000 OR i) AND 0x80000000 \<noteq> 0" "(0x80000000 OR i) AND 0x7fffffff = i"
proof -
  have "unat i < 2 ^ 31" using assms by (simp add: word_less_nat_alt)
  then have t: "i = take_bit 31 i" 
    by (simp add: word_unat_eq_iff unsigned_take_bit_eq take_bit_nat_eq_self)
  have "bit ((0x80000000 OR i) AND 0x80000000 :: u32) 31" by (simp add: bit_simps)
  then show "(0x80000000 OR i) AND 0x80000000 \<noteq> 0" by (metis bit_0_eq bot_apply bot_bool_def)
  have "(push_bit 31 x OR take_bit 31 i) AND mask 31 = take_bit 31 i" for x
    by (rule bit_word_eqI) (auto simp: bit_simps)
  from this [of 1] show "(0x80000000 OR i) AND 0x7fffffff = i"
    by (simp add: mask_eq_exp_minus_1 t [symmetric])
qed

lemma rtp_roundtrip:
  assumes st: "in_step s r" and ok: "sendable (\<not> seq_initialized r) s p" and nr: "\<not> RTP_PT_IS_RTCP (p ! 1)"
    and out: "encrypt_rtp C s p = (Ok out, s')"
  shows "ff_srtp_decrypt C r out = (Ok p, next_receiver s r p) \<and> s' = next_sender s p"
proof -
  let ?q = "uint (AV_RB16 p 2)" and ?c = "roc (next_sender s p)"
  obtain h where h: "rtp_header_length p = Some h" using ok nr by (auto simp: sendable_def)
  note hl = header_length_le [OF h]
  define body where "body = crypt_tail C (rtp_key s) (rtp_salt s) (packet_index ?c ?q) (AV_RB32 p 8) h p"
  define tag where "tag = take (rtp_hmac_size s) (hmac_sha1 C (rtp_auth s) (body @ AV_WB32 ?c))"
  have o: "out = body @ tag" and s': "s' = next_sender s p"
    using out hl h nr by (auto simp: encrypt_rtp_def next_sender_def body_def tag_def Let_def split: if_splits)
  have lt: "length tag = rtp_hmac_size s" and lb: "length body = length p"
    using st by (auto simp: tag_def body_def in_step_def same_keys_def)
  have hb: "rtp_header_length body = Some h" "AV_RB32 body 8 = AV_RB32 p 8" "AV_RB16 body 2 = AV_RB16 p 2"
    "body ! 1 = p ! 1" unfolding body_def using header_length_crypt [OF h] by auto
  have ho: "out ! Suc 0 = p ! Suc 0" "AV_RB16 out 2 = AV_RB16 p 2"
    using hb hl lb by (simp_all add: o nth_append AV_RB16_def)
  have est: "estimate_index r ?q = (?c, ?q, ?c)"
    using st ok nr uint_seq [of "AV_RB16 p 2"]
    by (subst estimate_forward [of r s]) (auto simp: in_step_def sendable_def next_sender_def Let_def)
  have keys: "rtp_key r = rtp_key s" "rtp_salt r = rtp_salt s" "rtp_auth r = rtp_auth s"
    "rtp_hmac_size r = rtp_hmac_size s"
    using st by (auto simp: in_step_def same_keys_def)
  have "decrypt_rtp C t (packet_index ?c ?q) body = Ok p"
    if "rtp_key t = rtp_key s" "rtp_salt t = rtp_salt s" for t
    using that hb hl by (simp add: decrypt_rtp_def body_def)
  note dec = this
  have n: "length out - rtp_hmac_size s = length body" "\<not> length out < 2" "\<not> length out < rtp_hmac_size s"
    "\<not> length body < 12" "take (length body) out = body" "drop (length body) out = tag"
    using hl lb lt keys by (auto simp: o)
  have m: "take (rtp_hmac_size s) (hmac_sha1 C (rtp_auth s) (body @ AV_WB32 ?c)) = tag"
    by (simp add: tag_def)
  have "next_receiver s r p = r\<lparr>seq_initialized := True, seq_largest := ?q, roc := ?c\<rparr>"
    using nr by (simp add: next_receiver_def next_sender_def)
  then show ?thesis
    using dec nr keys by (simp add: ff_srtp_decrypt_def ho est n m s' Let_def)
qed

lemma rtcp_roundtrip:
  assumes st: "in_step s r" and ok: "sendable f s p" and nr: "RTP_PT_IS_RTCP (p ! 1)"
    and out: "encrypt_rtcp C s p = (out, s')"
  shows "ff_srtp_decrypt C r out = (Ok p, next_receiver s r p) \<and> s' = next_sender s p"
proof -
  let ?i = "rtcp_index s"
  have hl: "8 \<le> length p" and il: "?i < 0x80000000" using ok nr by (auto simp: sendable_def)
  define ct where "ct = crypt_tail C (rtcp_key s) (rtcp_salt s) (ucast ?i) (AV_RB32 p 4) 8 p"
  define body where "body = ct @ AV_WB32 (0x80000000 OR ?i)"
  define tag where "tag = take (rtcp_hmac_size s) (hmac_sha1 C (rtcp_auth s) body)"
  have o: "out = body @ tag" and s': "s' = next_sender s p"
    using out nr by (auto simp: encrypt_rtcp_def next_sender_def body_def ct_def tag_def Let_def)
  have lt: "length tag = rtcp_hmac_size s" and lc: "length ct = length p" and lb: "length body = length p + 4"
    using st by (auto simp: tag_def body_def ct_def in_step_def same_keys_def)
  have c: "ct ! i = p ! i" if "i < 8" for i using that hl by (simp add: ct_def)
  have keys: "rtcp_key r = rtcp_key s" "rtcp_salt r = rtcp_salt s" "rtcp_auth r = rtcp_auth s"
    "rtcp_hmac_size r = rtcp_hmac_size s"
    using st by (auto simp: in_step_def same_keys_def)
  have b4: "AV_RB32 body 4 = AV_RB32 p 4"
    using hl lc by (simp add: body_def AV_RB32_def nth_append c)
  have "AV_RB32 (ct @ AV_WB32 (0x80000000 OR ?i) @ []) (length ct) = 0x80000000 OR ?i"
    by (rule AV_RB32_append_at) (rule refl)
  then have bi: "AV_RB32 body (length body - 4) = 0x80000000 OR ?i"
    using lb lc by (simp add: body_def del: length_append)
  have top: "(0x80000000 OR ?i) AND 0x80000000 \<noteq> 0" "(0x80000000 OR ?i) AND 0x7fffffff = ?i"
    using rtcp_index_bits [OF il] by auto
  have dec: "decrypt_rtcp C r body = Ok p"
    unfolding decrypt_rtcp_def Let_def bi b4 keys if_not_P [OF top(1)] top(2)
    using hl lb lc by (simp add: body_def ct_def)
  have n: "length out - rtcp_hmac_size s = length body" "\<not> length out < 2" "\<not> length out < rtcp_hmac_size s"
    "\<not> length body < 12" "take (length body) out = body" "drop (length body) out = tag"
    using hl lb lt keys by (auto simp: o)
  have m: "take (rtcp_hmac_size s) (hmac_sha1 C (rtcp_auth s) body) = tag"
    by (simp add: tag_def)
  have "out ! 1 = p ! 1" using hl lb lc c [of 1] by (simp add: o body_def nth_append)
  then show ?thesis
    using dec nr keys by (simp add: ff_srtp_decrypt_def n m s' next_receiver_def Let_def)
qed


lemma srtp_step:
  assumes "in_step s r" "sendable (\<not> seq_initialized r) s p"
    and "ff_srtp_encrypt C s p outlen = (Ok out, s')" "out \<noteq> []"
  shows "ff_srtp_decrypt C r out = (Ok p, next_receiver s r p) \<and> s' = next_sender s p"
  using assms rtp_roundtrip [OF assms(1,2)] rtcp_roundtrip [OF assms(1,2)]
  by (auto simp: ff_srtp_encrypt_def Let_def split: if_splits prod.splits)

lemma encrypt_ok:
  assumes "in_step s r" "sendable f s p" "length p + 24 \<le> outlen"
  obtains out s' where "ff_srtp_encrypt C s p outlen = (Ok out, s')" "out \<noteq> []"
proof -
  have k: "rtp_hmac_size s \<le> 20" "rtcp_hmac_size s \<le> 20" "0 < rtp_hmac_size s" "0 < rtcp_hmac_size s"
    using assms(1) by (auto simp: in_step_def same_keys_def)
  show thesis
  proof (cases "RTP_PT_IS_RTCP (p ! 1)")
    case True
    obtain out s' where o: "encrypt_rtcp C s p = (out, s')" by (cases "encrypt_rtcp C s p")
    then have "4 \<le> length out" by (auto simp: encrypt_rtcp_def Let_def)
    then have "out \<noteq> []" by auto
    with o True assms k that show thesis by (simp add: ff_srtp_encrypt_def sendable_def Let_def)
  next
    case False
    then obtain h where h: "rtp_header_length p = Some h" using assms(2) by (auto simp: sendable_def)
    note hl = header_length_le [OF h]
    have "\<exists>out s'. encrypt_rtp C s p = (Ok out, s') \<and> 12 \<le> length out"
      using h hl by (auto simp: encrypt_rtp_def Let_def)
    then obtain out s' where o: "encrypt_rtp C s p = (Ok out, s')" "out \<noteq> []" by fastforce
    with False assms k hl that show thesis by (simp add: ff_srtp_encrypt_def Let_def)
  qed
qed

text \<open>The packets of a session, sent and received in order.\<close>

fun srtp_session :: "crypto \<Rightarrow> nat \<Rightarrow> SRTPContext \<Rightarrow> SRTPContext \<Rightarrow> bytes list \<Rightarrow> bytes res list" where
  "srtp_session C outlen s r [] = []"
| "srtp_session C outlen s r (p # ps) =
     (case ff_srtp_encrypt C s p outlen of
        (Inl e, s) \<Rightarrow> [Err e]
      | (Inr out, s) \<Rightarrow>
          (case ff_srtp_decrypt C r out of (q, r) \<Rightarrow> q # srtp_session C outlen s r ps))"

fun sendable_all :: "bool \<Rightarrow> SRTPContext \<Rightarrow> bytes list \<Rightarrow> bool" where
  "sendable_all first s [] \<longleftrightarrow> True"
| "sendable_all first s (p # ps) \<longleftrightarrow>
     sendable first s p \<and> sendable_all (first \<and> RTP_PT_IS_RTCP (p ! 1)) (next_sender s p) ps"

lemma session_delivers:
  assumes "in_step s r" "sendable_all (\<not> seq_initialized r) s ps" "list_all (\<lambda>p. length p + 24 \<le> outlen) ps"
  shows "srtp_session C outlen s r ps = map Ok ps"
  using assms
proof (induction ps arbitrary: s r)
  case (Cons p ps)
  have sp: "sendable (\<not> seq_initialized r) s p" and l: "length p + 24 \<le> outlen" using Cons.prems by auto
  obtain out s' where e: "ff_srtp_encrypt C s p outlen = (Ok out, s')" "out \<noteq> []"
    by (rule encrypt_ok [OF Cons.prems(1) sp l])
  note st = srtp_step [OF Cons.prems(1) sp e]
  have i: "(\<not> seq_initialized (next_receiver s r p)) = (\<not> seq_initialized r \<and> RTP_PT_IS_RTCP (p ! 1))"
    by (simp add: next_receiver_def)
  have "srtp_session C outlen (next_sender s p) (next_receiver s r p) ps = map Ok ps"
    by (rule Cons.IH [OF in_step_next [OF Cons.prems(1)]]) (use Cons.prems i in auto)
  then show ?case using st e by simp
qed simp

text \<open>
  C7. Any sequence of RTP and RTCP packets a sender may send, protected by \<open>ff_srtp_encrypt\<close> and
  opened in that order by \<open>ff_srtp_decrypt\<close> under the same keys, is delivered unchanged: through
  wrap-arounds of the sequence number, where both sides step the roll-over count at the same
  packet, and through the 31 bit index of the RTCP packets. It holds for every cipher and every HMAC.
\<close>

theorem srtp_session_delivers:
  assumes "in_step s r" "sendable_all (\<not> seq_initialized r) s ps" "list_all (\<lambda>p. length p + 24 \<le> outlen) ps"
  shows "srtp_session C outlen s r ps = map Ok ps"
  using assms by (rule session_delivers)

definition toy_crypto :: crypto where
  "toy_crypto = \<lparr>aes_byte = (\<lambda>k b j. b ! j + k ! j), hmac_byte = (\<lambda>k m j. sum_list m + k ! 0 + of_nat j)\<rparr>"

definition example_srtp :: SRTPContext where
  "example_srtp = \<lparr>rtp_hmac_size = 10, rtcp_hmac_size = 10, master_key = [], master_salt = [],
     rtp_key = replicate 16 7, rtcp_key = replicate 16 9, rtp_salt = replicate 14 1,
     rtcp_salt = replicate 14 2, rtp_auth = [3], rtcp_auth = [4], seq_largest = 65535,
     seq_initialized = True, roc = 5, rtcp_index = 0\<rparr>"

text \<open>A packet across the wrap-around of the sequence number, and a receiver report.\<close>

theorem srtp_session_delivers_witness:
  "srtp_session toy_crypto 1500 example_srtp example_srtp
     [[0x80, 96, 0, 0, 0, 0, 0, 1, 0, 0, 0, 2, 42, 43], [0x80, 201, 0, 1, 0, 0, 0, 2]]
   = map Ok [[0x80, 96, 0, 0, 0, 0, 0, 1, 0, 0, 0, 2, 42, 43], [0x80, 201, 0, 1, 0, 0, 0, 2]]"
  by (rule srtp_session_delivers)
    (simp_all add: in_step_def same_keys_def example_srtp_def sendable_def rtp_header_length_def
      next_sender_def RTP_PT_IS_RTCP_def RTCP_FIR_def RTCP_IJ_def RTCP_SR_def RTCP_TOKEN_def
      AV_RB16_def rb16_def Let_def)


section \<open>Packets from before a wrap-around\<close>

text \<open>
  A packet sent just before the sequence number wrapped and arriving just after it is refused
  although it is genuine: the roll-over count of its index is estimated right, one below the
  receiver's, but the tag is computed with the receiver's own count. The hypothesis on the HMAC
  says that the two tags of this packet differ.
\<close>

theorem late_packet_refused:
  assumes keys: "same_keys s r"
    and out: "encrypt_rtp C s p = (Ok out, s')" and nr: "\<not> RTP_PT_IS_RTCP (p ! 1)"
    and late: "seq_initialized r" "seq_largest r < 32768" "uint (AV_RB16 p 2) - seq_largest r > 32768"
    and count: "roc s' = roc r - 1"
    and mac: "\<And>m. take (rtp_hmac_size s) (hmac_sha1 C (rtp_auth s) (m @ AV_WB32 (roc r)))
               \<noteq> take (rtp_hmac_size s) (hmac_sha1 C (rtp_auth s) (m @ AV_WB32 (roc r - 1)))"
  shows "fst (estimate_index r (uint (AV_RB16 out 2))) = roc s'
    \<and> ff_srtp_decrypt C r out = (Err AVERROR_INVALIDDATA, r)"
proof -
  obtain h where h: "rtp_header_length p = Some h"
    using out by (auto simp: encrypt_rtp_def Let_def split: if_splits option.splits)
  note hl = header_length_le [OF h]
  obtain body where b: "out = body @ take (rtp_hmac_size s) (hmac_sha1 C (rtp_auth s) (body @ AV_WB32 (roc s')))"
    and lb: "length body = length p" and hb: "AV_RB16 body 2 = AV_RB16 p 2" "body ! 1 = p ! 1"
    using out h hl header_length_crypt(3,4) [OF h]
    by (auto simp: encrypt_rtp_def Let_def split: if_splits)
  have ho: "out ! Suc 0 = p ! Suc 0" "AV_RB16 out 2 = AV_RB16 p 2"
    using hb hl lb by (simp_all add: b nth_append AV_RB16_def)
  have est: "estimate_index r (uint (AV_RB16 p 2)) = (roc r - 1, seq_largest r, roc r)"
    using late by (simp add: estimate_index_def Let_def)
  have n: "length out - rtp_hmac_size s = length body" "\<not> length out < 2" "\<not> length out < rtp_hmac_size s"
    using hl lb keys by (auto simp: b same_keys_def)
  have t: "take (length body) out = body"
    "drop (length body) out = take (rtp_hmac_size s) (hmac_sha1 C (rtp_auth s) (body @ AV_WB32 (roc s')))"
    by (subst b, simp)+
  show ?thesis
    using mac [of body] nr keys
    by (simp add: ff_srtp_decrypt_def ho est n t count same_keys_def Let_def)
qed

text \<open>The same HMAC of the example, whose tags depend on every byte of the message.\<close>

theorem late_packet_refused_witness:
  "ff_srtp_decrypt toy_crypto (example_srtp\<lparr>roc := 6, seq_largest := 1\<rparr>)
     (case fst (encrypt_rtp toy_crypto (example_srtp\<lparr>seq_largest := 65534\<rparr>)
        [0x80, 96, 255, 255, 0, 0, 0, 1, 0, 0, 0, 2, 42]) of Inr out \<Rightarrow> out | Inl _ \<Rightarrow> [])
   = (Err AVERROR_INVALIDDATA, example_srtp\<lparr>roc := 6, seq_largest := 1\<rparr>)"
proof -
  let ?s = "example_srtp\<lparr>seq_largest := 65534\<rparr>" and ?r = "example_srtp\<lparr>roc := 6, seq_largest := 1\<rparr>"
  let ?p = "[0x80, 96, 255, 255, 0, 0, 0, 1, 0, 0, 0, 2, 42] :: bytes"
  have seq: "uint (AV_RB16 ?p 2) = 65535" by (simp add: AV_RB16_def rb16_def)
  have h: "rtp_header_length ?p = Some 12" by (simp add: rtp_header_length_def Let_def)
  obtain out s' where o: "encrypt_rtp toy_crypto ?s ?p = (Ok out, s')" and c: "roc s' = 5"
    using h seq by (simp add: encrypt_rtp_def Let_def example_srtp_def)
  have "ff_srtp_decrypt toy_crypto ?r out = (Err AVERROR_INVALIDDATA, ?r)"
  proof (rule late_packet_refused [THEN conjunct2])
    show "encrypt_rtp toy_crypto ?s ?p = (Ok out, s')" by (rule o)
    show "take (rtp_hmac_size ?s) (hmac_sha1 toy_crypto (rtp_auth ?s) (m @ AV_WB32 (roc ?r)))
        \<noteq> take (rtp_hmac_size ?s) (hmac_sha1 toy_crypto (rtp_auth ?s) (m @ AV_WB32 (roc ?r - 1)))" for m
      by (simp add: example_srtp_def toy_crypto_def hmac_sha1_def AV_WB32_def upt_rec)
  qed (simp_all only: seq, simp_all add: example_srtp_def same_keys_def RTP_PT_IS_RTCP_def RTCP_FIR_def RTCP_SR_def c)
  then show ?thesis by (simp only: o fst_conv sum.case)
qed

end
