(* ===== verification/NalScan.thy ===== *)
theory NalScan
  imports P2P_Types Uuid
begin

text \<open>
  The helpers at the end of \<^verbatim>\<open>libavformat/p2p_rtp_demux.c\<close>: the scan of a packet for
  H.264 parameter sets and IDR slices, and the query parameters of the CDN URL. The scan
  guards its reads by the packet size; where the code reads outside the packet all the same, the
  model's result is \<open>Out_of_bounds\<close>.
\<close>

section \<open>Annex B\<close>

record nal_flags =
  has_sps :: bool
  has_pps :: bool
  has_idr :: bool

definition no_nals :: nal_flags where
  "no_nals = \<lparr>has_sps = False, has_pps = False, has_idr = False\<rparr>"

definition nal_type :: "u8 \<Rightarrow> nat" where
  "nal_type h = unat (h AND 0x1F)"

definition note_nal :: "u8 \<Rightarrow> nal_flags \<Rightarrow> nal_flags" where
  "note_nal h f =
     (if nal_type h = 7 then f\<lparr>has_sps := True\<rparr>
      else if nal_type h = 8 then f\<lparr>has_pps := True\<rparr>
      else if nal_type h = 5 then f\<lparr>has_idr := True\<rparr>
      else f)"

text \<open>The start codes, tested only where the four bytes lie in the packet.\<close>

definition sc3 :: "bytes \<Rightarrow> nat \<Rightarrow> bool" where
  "sc3 d i \<longleftrightarrow> d ! i = 0 \<and> d ! (i + 1) = 0 \<and> d ! (i + 2) = 1"

definition sc4 :: "bytes \<Rightarrow> nat \<Rightarrow> bool" where
  "sc4 d i \<longleftrightarrow> d ! i = 0 \<and> d ! (i + 1) = 0 \<and> d ! (i + 2) = 0 \<and> d ! (i + 3) = 1"

function next_code :: "bytes \<Rightarrow> nat \<Rightarrow> nat" where
  "next_code d j = (if j + 4 \<le> length d \<and> \<not> (sc3 d j \<or> sc4 d j) then next_code d (j + 1) else j)"
  by pat_completeness auto
termination
  by (relation "measure (\<lambda>(d, j). length d - j)") auto

declare next_code.simps [simp del]

lemma next_code_ge: "j \<le> next_code d j"
  by (induction d j rule: next_code.induct) (subst next_code.simps, auto)

text \<open>The loop carries whether a start code was found and the flags.\<close>

function scan_annexb :: "bytes \<Rightarrow> nat \<Rightarrow> bool \<Rightarrow> nal_flags \<Rightarrow> bool \<times> nal_flags" where
  "scan_annexb d i found f =
     (if i + 4 \<le> length d
      then if \<not> sc3 d i \<and> \<not> sc4 d i then scan_annexb d (i + 1) found f
           else let nal_start = i + (if sc4 d i then 4 else 3)
                in scan_annexb d (next_code d nal_start) True
                     (if nal_start < length d then note_nal (d ! nal_start) f else f)
      else (found, f))"
  by pat_completeness auto
termination
proof (relation "measure (\<lambda>(d, i, found, f). length d - i)", goal_cases)
  case (3 d i found f x)
  have "x \<le> next_code d x" by (rule next_code_ge)
  with 3 show ?case by (auto split: if_splits)
qed auto

declare scan_annexb.simps [simp del]

section \<open>Length prefixes\<close>

datatype scan_result = Scanned nal_flags | Out_of_bounds

text \<open>
  The length is read as \<open>uint32_t\<close> and added as \<open>int\<close>, so it can be negative. The fuel bounds
  the number of turns of the loop.
\<close>

fun scan_lengths :: "nat \<Rightarrow> bytes \<Rightarrow> int \<Rightarrow> nal_flags \<Rightarrow> scan_result option" where
  "scan_lengths 0 d pos f = None"
| "scan_lengths (Suc fuel) d pos f =
     (if pos + 4 \<le> int (length d)
      then if pos < 0 then Some Out_of_bounds
           else let len = AV_RB32 d (nat pos); pos = pos + 4
                in if len = 0 \<or> pos + sint len > int (length d) then Some (Scanned f)
                   else if pos \<ge> int (length d) then Some Out_of_bounds
                   else scan_lengths fuel d (pos + sint len) (note_nal (d ! nat pos) f)
      else Some (Scanned f))"

definition scan_h264_nals :: "nat \<Rightarrow> bytes \<Rightarrow> scan_result option" where
  "scan_h264_nals fuel d =
     (let (found, f) = scan_annexb d 0 False no_nals
      in if found then Some (Scanned f) else scan_lengths fuel d 0 f)"

section \<open>What the scan finds\<close>

text \<open>A NAL unit of type \<open>t\<close> follows a start code at or after \<open>i\<close>.\<close>

definition nal_after :: "bytes \<Rightarrow> nat \<Rightarrow> nat \<Rightarrow> bool" where
  "nal_after d i t \<longleftrightarrow> (\<exists>k < length d. i \<le> k \<and> k + 3 < length d \<and> sc3 d k \<and> nal_type (d ! (k + 3)) = t)"

definition add_nals :: "bytes \<Rightarrow> nat \<Rightarrow> nal_flags \<Rightarrow> nal_flags" where
  "add_nals d i f = \<lparr>has_sps = (has_sps f \<or> nal_after d i 7), has_pps = (has_pps f \<or> nal_after d i 8),
     has_idr = (has_idr f \<or> nal_after d i 5)\<rparr>"

lemma nal_after_end: "length d < i + 4 \<Longrightarrow> \<not> nal_after d i t"
  by (auto simp: nal_after_def)

lemma nal_after_step:
  assumes "i + 4 \<le> length d"
  shows "nal_after d i t \<longleftrightarrow> (sc3 d i \<and> nal_type (d ! (i + 3)) = t) \<or> nal_after d (i + 1) t"
proof
  assume "nal_after d i t"
  then obtain k where k: "k < length d" "i \<le> k" "k + 3 < length d" "sc3 d k" "nal_type (d ! (k + 3)) = t"
    by (auto simp: nal_after_def)
  show "(sc3 d i \<and> nal_type (d ! (i + 3)) = t) \<or> nal_after d (i + 1) t"
  proof (cases "k = i")
    case True
    with k show ?thesis by simp
  next
    case False
    with k have "nal_after d (i + 1) t" unfolding nal_after_def by (intro exI [of _ k]) simp
    then show ?thesis ..
  qed
next
  assume "(sc3 d i \<and> nal_type (d ! (i + 3)) = t) \<or> nal_after d (i + 1) t"
  then show "nal_after d i t"
  proof
    assume "sc3 d i \<and> nal_type (d ! (i + 3)) = t"
    with assms show ?thesis by (auto simp: nal_after_def intro!: exI [of _ i])
  next
    assume "nal_after d (i + 1) t"
    then show ?thesis by (auto simp: nal_after_def intro: Suc_leD)
  qed
qed

lemma nal_after_no: "\<not> sc3 d i \<Longrightarrow> nal_after d i t \<longleftrightarrow> nal_after d (i + 1) t"
  by (cases "i + 4 \<le> length d") (simp_all add: nal_after_step nal_after_end)

lemma nal_after_next: "nal_after d (next_code d j) t \<longleftrightarrow> nal_after d j t"
  by (induction d j rule: next_code.induct) (subst next_code.simps, auto simp: nal_after_no)

lemma nal_after_sc3:
  assumes "i + 4 \<le> length d" "sc3 d i"
  shows "nal_after d i t \<longleftrightarrow> nal_type (d ! (i + 3)) = t \<or> nal_after d (i + 3) t"
proof -
  from assms have "\<not> sc3 d (i + 1)" "\<not> sc3 d (i + 2)"
    by (auto simp: sc3_def numeral_3_eq_3)
  then have "nal_after d (i + 1) t \<longleftrightarrow> nal_after d (i + 3) t"
    using nal_after_no [of d "i + 1" t] nal_after_no [of d "i + 2" t] by (simp add: numeral_eq_Suc)
  with assms show ?thesis by (simp add: nal_after_step)
qed

lemma nal_after_sc4:
  assumes "i + 4 \<le> length d" "sc4 d i"
  shows "nal_after d i t \<longleftrightarrow> (i + 4 < length d \<and> nal_type (d ! (i + 4)) = t) \<or> nal_after d (i + 4) t"
proof -
  from assms have n: "\<not> sc3 d i" and s: "sc3 d (i + 1)"
    by (auto simp: sc3_def sc4_def numeral_eq_Suc)
  show ?thesis
  proof (cases "i + 4 < length d")
    case True
    then show ?thesis
      using nal_after_no [OF n, of t] nal_after_sc3 [of "i + 1" d t] s by (simp add: numeral_eq_Suc)
  next
    case False
    then show ?thesis using nal_after_no [OF n, of t] by (simp add: nal_after_end)
  qed
qed

lemma add_nals_cong: "(\<And>t. nal_after d i t \<longleftrightarrow> nal_after d j t) \<Longrightarrow> add_nals d i f = add_nals d j f"
  by (simp add: add_nals_def)

lemma add_nals_note:
  "(\<And>t. nal_after d i t \<longleftrightarrow> nal_type h = t \<or> nal_after d j t)
   \<Longrightarrow> add_nals d j (note_nal h f) = add_nals d i f"
  by (auto simp: add_nals_def note_nal_def)

text \<open>The three cases of a turn of the loop.\<close>

definition nal_start :: "bytes \<Rightarrow> nat \<Rightarrow> nat" where
  "nal_start d i = i + (if sc4 d i then 4 else 3)"

definition note_at :: "bytes \<Rightarrow> nat \<Rightarrow> nal_flags \<Rightarrow> nal_flags" where
  "note_at d s f = (if s < length d then note_nal (d ! s) f else f)"

lemma scan_annexb_end: "\<not> i + 4 \<le> length d \<Longrightarrow> scan_annexb d i found f = (found, f)"
  by (subst scan_annexb.simps) simp

lemma scan_annexb_skip:
  "i + 4 \<le> length d \<Longrightarrow> \<not> (sc3 d i \<or> sc4 d i) \<Longrightarrow> scan_annexb d i found f = scan_annexb d (i + 1) found f"
  by (subst scan_annexb.simps) simp

lemma scan_annexb_code:
  "i + 4 \<le> length d \<Longrightarrow> sc3 d i \<or> sc4 d i
   \<Longrightarrow> scan_annexb d i found f = scan_annexb d (next_code d (nal_start d i)) True (note_at d (nal_start d i) f)"
  by (subst scan_annexb.simps) (cases "sc4 d i"; simp add: Let_def nal_start_def note_at_def)

lemma nal_start_ge: "i + 3 \<le> nal_start d i"
  by (simp add: nal_start_def)

lemma add_nals_code:
  assumes "i + 4 \<le> length d" "sc3 d i \<or> sc4 d i"
  shows "add_nals d (next_code d (nal_start d i)) (note_at d (nal_start d i) f) = add_nals d i f"
proof -
  have "add_nals d (next_code d (nal_start d i)) (note_at d (nal_start d i) f)
      = add_nals d (nal_start d i) (note_at d (nal_start d i) f)"
    by (rule add_nals_cong) (rule nal_after_next)
  also have "\<dots> = add_nals d i f"
  proof (cases "sc4 d i")
    case True
    have eq: "nal_after d i t \<longleftrightarrow> (i + 4 < length d \<and> nal_type (d ! (i + 4)) = t) \<or> nal_after d (i + 4) t" for t
      by (rule nal_after_sc4) (use assms True in simp_all)
    show ?thesis
    proof (cases "i + 4 < length d")
      case l: True
      then show ?thesis using eq True
        by (simp add: nal_start_def note_at_def) (rule add_nals_note, simp)
    next
      case False
      then show ?thesis using eq True
        by (simp add: nal_start_def note_at_def) (rule add_nals_cong, simp)
    qed
  next
    case False
    have "nal_after d i t \<longleftrightarrow> nal_type (d ! (i + 3)) = t \<or> nal_after d (i + 3) t" for t
      by (rule nal_after_sc3) (use assms False in simp_all)
    then show ?thesis using False assms
      by (simp add: nal_start_def note_at_def) (rule add_nals_note, simp)
  qed
  finally show ?thesis .
qed

text \<open>An induction rule over the turns of the loop.\<close>

lemma scan_annexb_turns [case_names End Skip Code]:
  assumes "\<And>i found f. \<not> i + 4 \<le> length d \<Longrightarrow> P i found f"
    and "\<And>i found f. i + 4 \<le> length d \<Longrightarrow> \<not> (sc3 d i \<or> sc4 d i) \<Longrightarrow> P (i + 1) found f \<Longrightarrow> P i found f"
    and "\<And>i found f. i + 4 \<le> length d \<Longrightarrow> sc3 d i \<or> sc4 d i
      \<Longrightarrow> P (next_code d (nal_start d i)) True (note_at d (nal_start d i) f) \<Longrightarrow> P i found f"
  shows "P i found f"
proof (induction "length d - i" arbitrary: i found f rule: less_induct)
  case less
  show ?case
  proof (cases "i + 4 \<le> length d")
    case True
    show ?thesis
    proof (cases "sc3 d i \<or> sc4 d i")
      case c: True
      have "i + 3 \<le> next_code d (nal_start d i)"
        using nal_start_ge [of i d] next_code_ge [of "nal_start d i" d] by linarith
      with True have h: "length d - next_code d (nal_start d i) < length d - i" by linarith
      show ?thesis by (rule assms(3) [OF True c less [OF h]])
    next
      case False
      have h: "length d - (i + 1) < length d - i" using True by linarith
      show ?thesis by (rule assms(2) [OF True False less [OF h]])
    qed
  qed (rule assms(1))
qed

lemma scan_annexb_flags: "snd (scan_annexb d i found f) = add_nals d i f"
proof (induction i found f rule: scan_annexb_turns [of d])
  case (End i found f)
  then show ?case by (simp add: scan_annexb_end add_nals_def nal_after_end)
next
  case (Skip i found f)
  then have "add_nals d (i + 1) f = add_nals d i f"
    by (intro add_nals_cong) (simp add: nal_after_no)
  with Skip show ?case by (simp add: scan_annexb_skip)
next
  case (Code i found f)
  then show ?case by (simp add: scan_annexb_code add_nals_code)
qed

lemma scan_annexb_keeps: "fst (scan_annexb d i True f)"
proof -
  have "found \<Longrightarrow> fst (scan_annexb d i found f)" for found
    by (induction i found f rule: scan_annexb_turns [of d])
      (simp_all add: scan_annexb_end scan_annexb_skip scan_annexb_code)
  then show ?thesis by simp
qed

text \<open>A start code anywhere in the packet decides for Annex B.\<close>

definition has_code :: "bytes \<Rightarrow> nat \<Rightarrow> bool" where
  "has_code d i \<longleftrightarrow> (\<exists>k < length d. i \<le> k \<and> k + 4 \<le> length d \<and> (sc3 d k \<or> sc4 d k))"

lemma has_code_step: "\<not> (sc3 d i \<or> sc4 d i) \<Longrightarrow> has_code d i \<longleftrightarrow> has_code d (i + 1)"
proof -
  assume n: "\<not> (sc3 d i \<or> sc4 d i)"
  have "(i \<le> k \<and> (sc3 d k \<or> sc4 d k)) = (i + 1 \<le> k \<and> (sc3 d k \<or> sc4 d k))" for k
    using n by (cases "k = i") auto
  then show ?thesis unfolding has_code_def by meson
qed

lemma scan_annexb_found: "fst (scan_annexb d i found f) \<longleftrightarrow> found \<or> has_code d i"
proof (induction i found f rule: scan_annexb_turns [of d])
  case (End i found f)
  then show ?case by (auto simp: scan_annexb_end has_code_def)
next
  case (Skip i found f)
  from Skip.IH scan_annexb_skip [OF Skip.hyps] has_code_step [OF Skip.hyps(2)] show ?case by simp
next
  case (Code i found f)
  then have "has_code d i" by (auto simp: has_code_def intro!: exI [of _ i])
  with Code show ?case by (simp add: scan_annexb_code scan_annexb_keeps)
qed

section \<open>Length prefixes\<close>

definition join_nals :: "bytes list \<Rightarrow> bytes" where
  "join_nals nals = concat (map (\<lambda>n. AV_WB32 (of_nat (length n)) @ n) nals)"

lemma AV_RB32_at: "AV_RB32 (pre @ AV_WB32 x @ ys) (length pre) = x"
proof -
  have "AV_RB32 (pre @ AV_WB32 x @ ys) (length pre) = AV_RB32 (AV_WB32 x @ ys) 0"
    by (simp add: AV_RB32_def nth_append numeral_2_eq_2)
  then show ?thesis by simp
qed

lemma sint_of_length: "k < 2 ^ 31 \<Longrightarrow> sint (of_nat k :: u32) = int k"
  by (simp add: sint_uint uint_nat unat_of_nat signed_take_bit_int_eq_self)

lemma scan_lengths_joined:
  assumes "\<forall>n \<in> set nals. n \<noteq> [] \<and> length n < 2 ^ 31" and "length nals < fuel"
  shows "scan_lengths fuel (pre @ join_nals nals) (int (length pre)) f
    = Some (Scanned (fold (\<lambda>n. note_nal (hd n)) nals f))"
  using assms
proof (induction nals arbitrary: pre f fuel)
  case Nil
  then show ?case by (cases fuel) (simp_all add: join_nals_def)
next
  case (Cons n nals)
  let ?d = "pre @ join_nals (n # nals)" and ?w = "of_nat (length n) :: u32"
  from Cons.prems obtain fuel' where fuel: "fuel = Suc fuel'" "length nals < fuel'"
    by (cases fuel) auto
  from Cons.prems have n: "n \<noteq> []" "length n < 2 ^ 31" by auto
  have d: "?d = pre @ AV_WB32 ?w @ (n @ join_nals nals)" by (simp add: join_nals_def)
  have r: "AV_RB32 ?d (length pre) = ?w" unfolding d by (rule AV_RB32_at)
  have s: "sint ?w = int (length n)" by (rule sint_of_length) (rule n)
  then have z: "?w \<noteq> 0" using n by (metis length_0_conv of_nat_eq_0_iff sint_0)
  have h: "?d ! nat (int (length pre) + 4) = hd n"
    using n by (simp add: d nat_add_distrib nth_append hd_conv_nth)
  have "scan_lengths fuel' ((pre @ AV_WB32 ?w @ n) @ join_nals nals) (int (length (pre @ AV_WB32 ?w @ n)))
      (note_nal (hd n) f) = Some (Scanned (fold (\<lambda>n. note_nal (hd n)) nals (note_nal (hd n) f)))"
    using Cons.prems fuel by (intro Cons.IH) simp_all
  moreover have "\<not> int (length n) + int (length (join_nals nals)) \<le> 0"
    using n by (simp add: not_le add_pos_nonneg)
  ultimately show ?case using n r s z h by (simp add: fuel d Let_def add.assoc)
qed

section \<open>Key frames\<close>

text \<open>A packet: its data (empty for NULL), the index of its stream, the key flag, its times and duration.\<close>

record AVPacket =
  pkt_data :: bytes
  pkt_stream :: int
  pkt_key :: bool
  pkt_pts :: int
  pkt_dts :: int
  pkt_duration :: int

text \<open>\<open>None\<close>: the scan does not return, or reads outside the packet.\<close>

definition has_keyframe_info :: "nat \<Rightarrow> AVStream option \<Rightarrow> AVPacket \<Rightarrow> bool option" where
  "has_keyframe_info fuel st pkt =
     (case st of None \<Rightarrow> Some False
      | Some st \<Rightarrow>
          if pkt_data pkt = [] then Some False
          else if codec_id st = CODEC_H264
          then (case scan_h264_nals fuel (pkt_data pkt) of
                  Some (Scanned f) \<Rightarrow>
                    if \<not> has_idr f then Some False
                    else if extradata st \<noteq> [] then Some True
                    else Some (has_sps f \<and> has_pps f)
                | _ \<Rightarrow> None)
          else Some (pkt_key pkt))"

section \<open>Query parameters of the CDN URL\<close>

text \<open>
  \<open>eq\<close> and \<open>amp\<close> are the rests of the string from the first \<open>=\<close> and the first \<open>&\<close>. The length of
  the value is computed in \<open>size_t\<close>; it cannot be negative for a key without \<open>&\<close>, and the only
  key used is \<open>stream\<close>.
\<close>

lemma strchr_length: "strchr q c = Some r \<Longrightarrow> length r \<le> length q"
  by (cases "dropWhile (\<lambda>x. x \<noteq> c) q"; use length_dropWhile_le [of "\<lambda>x. x \<noteq> c" q] in \<open>simp add: strchr_def\<close>)

function parse_cdn_query :: "string \<Rightarrow> string \<Rightarrow> string option" where
  "parse_cdn_query k q =
     (if q = [] then None
      else case strchr q (CHR ''='') of None \<Rightarrow> None
      | Some eq \<Rightarrow>
          let amp = (case strchr q (CHR ''&'') of None \<Rightarrow> [] | Some a \<Rightarrow> a)
          in if length q - length eq = length k
                \<and> map av_tolower (take (length k) q) = map av_tolower k
             then Some (take (length eq - 1 - length amp) (tl eq))
             else if amp = [] then None
             else parse_cdn_query k (tl amp))"
  by pat_completeness auto
termination
proof (relation "measure (\<lambda>(k, q). length q)", goal_cases)
  case (2 k q eq amp)
  then have "amp \<noteq> []" "strchr q (CHR ''&'') = Some amp"
    by (auto split: option.splits)
  then show ?case using strchr_length [of q "CHR ''&''" amp] by (cases amp) auto
qed simp

declare parse_cdn_query.simps [simp del]

definition parse_cdn_params :: "string option \<Rightarrow> string option \<Rightarrow> string option" where
  "parse_cdn_params url k =
     (case (url, k) of (Some url, Some k) \<Rightarrow>
        (case strchr url (CHR ''?'') of None \<Rightarrow> None | Some q \<Rightarrow> parse_cdn_query k (tl q))
      | _ \<Rightarrow> None)"

lemma strchr_split:
  assumes "c \<notin> set p"
  shows "strchr (p @ c # r) c = Some (c # r)"
proof -
  have "dropWhile (\<lambda>x. x \<noteq> c) (p @ c # r) = c # r"
    using assms by (induction p) auto
  then show ?thesis by (simp add: strchr_def)
qed

lemma strchr_none:
  assumes "c \<notin> set p"
  shows "strchr p c = None"
proof -
  have "dropWhile (\<lambda>x. x \<noteq> c) p = []"
    using assms by (induction p) auto
  then show ?thesis unfolding strchr_def by (simp only: list.case)
qed

text \<open>One turn of the loop, with \<open>amp\<close> the rest from the next \<open>&\<close> on.\<close>

lemma parse_param:
  assumes "set a \<inter> {CHR ''='', CHR ''&''} = {}" "CHR ''&'' \<notin> set b" "amp = [] \<or> hd amp = CHR ''&''"
  shows "parse_cdn_query k (a @ CHR ''='' # b @ amp)
    = (if map av_tolower a = map av_tolower k then Some b
       else if amp = [] then None else parse_cdn_query k (tl amp))"
proof -
  let ?q = "a @ CHR ''='' # b @ amp"
  have e: "strchr ?q (CHR ''='') = Some (CHR ''='' # b @ amp)"
    by (rule strchr_split) (use assms(1) in auto)
  have m: "(case strchr ?q (CHR ''&'') of None \<Rightarrow> [] | Some a \<Rightarrow> a) = amp"
  proof (cases amp)
    case Nil
    then have "strchr ?q (CHR ''&'') = None" by (intro strchr_none) (use assms(1,2) in auto)
    with Nil show ?thesis by simp
  next
    case (Cons c r)
    have "strchr ((a @ CHR ''='' # b) @ CHR ''&'' # r) (CHR ''&'') = Some (CHR ''&'' # r)"
      by (rule strchr_split) (use assms(1,2) in auto)
    with Cons assms(3) show ?thesis by simp
  qed
  have c: "(length ?q - length (CHR ''='' # b @ amp) = length k
        \<and> map av_tolower (take (length k) ?q) = map av_tolower k)
      \<longleftrightarrow> map av_tolower a = map av_tolower k"
    by (cases "length a = length k") (auto dest: map_eq_imp_length_eq)
  show ?thesis
    by (subst parse_cdn_query.simps) (simp only: e m option.case Let_def c, simp)
qed

fun join_query :: "(string \<times> string) list \<Rightarrow> string" where
  "join_query [] = []"
| "join_query [(a, b)] = a @ CHR ''='' # b"
| "join_query ((a, b) # ps) = a @ CHR ''='' # b @ CHR ''&'' # join_query ps"

lemma parse_join_query:
  assumes "\<forall>(a, b) \<in> set ps. set a \<inter> {CHR ''='', CHR ''&''} = {} \<and> CHR ''&'' \<notin> set b"
  shows "parse_cdn_query k (join_query ps)
    = map_option snd (find (\<lambda>(a, b). map av_tolower a = map av_tolower k) ps)"
  using assms
proof (induction ps rule: join_query.induct)
  case 1
  then show ?case by (simp add: parse_cdn_query.simps)
next
  case (2 a b)
  then show ?case using parse_param [of a b "[]" k] by simp
next
  case (3 a b p ps)
  then have "parse_cdn_query k (join_query (p # ps))
      = map_option snd (find (\<lambda>(a, b). map av_tolower a = map av_tolower k) (p # ps))"
    by simp
  with 3(2) parse_param [of a b "CHR ''&'' # join_query (p # ps)" k] show ?case by simp
qed

text \<open>The bytes of such a length.\<close>

lemma short_length:
  assumes "256 \<le> k" "k < 512" "k mod 32 = 5"
  shows "AV_WB32 (of_nat k) = [0, 0, 1, of_nat k]" "nal_type (of_nat k) = 5"
proof -
  have "list_all (\<lambda>k. AV_WB32 (of_nat k) = [0, 0, 1, of_nat k] \<and> nal_type (of_nat k) = 5)
      [261, 293, 325, 357, 389, 421, 453, 485]"
    by (simp add: AV_WB32_def nal_type_def)
  moreover have "k \<in> set [261, 293, 325, 357, 389, 421, 453, 485]"
  proof -
    obtain q where q: "k = 32 * q + 5" using assms(3) by (metis mult_div_mod_eq)
    with assms have "q \<in> {8..15}" by auto
    then have "q \<in> {8, 9, 10, 11, 12, 13, 14, 15}" by auto
    with q show ?thesis by auto
  qed
  ultimately show "AV_WB32 (of_nat k) = [0, 0, 1, of_nat k]" "nal_type (of_nat k) = 5"
    unfolding list_all_iff by blast+
qed

text \<open>The tests as recursions over the position, to evaluate them on a packet.\<close>

lemma has_code_rec: "has_code d i \<longleftrightarrow> (if i + 4 \<le> length d then sc3 d i \<or> sc4 d i \<or> has_code d (i + 1) else False)"
proof (cases "i + 4 \<le> length d")
  case True
  show ?thesis
  proof (cases "sc3 d i \<or> sc4 d i")
    case c: True
    with True have "has_code d i" unfolding has_code_def by (intro exI [of _ i]) simp
    with True c show ?thesis by auto
  next
    case False
    from False True show ?thesis unfolding has_code_step [OF False] by simp
  qed
next
  case False
  then show ?thesis by (auto simp: has_code_def)
qed

lemma nal_after_rec: "nal_after d i t \<longleftrightarrow>
    (if i + 4 \<le> length d then (sc3 d i \<and> nal_type (d ! (i + 3)) = t) \<or> nal_after d (i + 1) t else False)"
  by (simp add: nal_after_step nal_after_end)

lemmas scan_evals = has_code_rec nal_after_rec sc3_def sc4_def nal_type_def join_nals_def AV_WB32_def

section \<open>Properties\<close>

text \<open>C27. In a packet with a start code the scan reads nothing outside the packet and reports
  exactly the parameter sets and IDR slices that follow a start code somewhere in it.\<close>

theorem annexb_scan_complete:
  assumes "has_code d 0"
  shows "scan_h264_nals fuel d = Some (Scanned \<lparr>has_sps = nal_after d 0 7, has_pps = nal_after d 0 8,
     has_idr = nal_after d 0 5\<rparr>)"
proof -
  have "scan_annexb d 0 False no_nals = (True, add_nals d 0 no_nals)"
    by (rule prod_eqI) (simp_all add: scan_annexb_found assms scan_annexb_flags)
  then show ?thesis by (simp add: scan_h264_nals_def add_nals_def no_nals_def)
qed

theorem annexb_scan_complete_witness:
  "\<exists>f. scan_h264_nals 1 [0, 0, 0, 1, 0x67, 0, 0, 1, 0x65] = Some (Scanned f) \<and> has_sps f \<and> has_idr f \<and> \<not> has_pps f"
proof -
  let ?d = "[0, 0, 0, 1, 0x67, 0, 0, 1, 0x65] :: bytes"
  have "has_code ?d 0" "nal_after ?d 0 7" "nal_after ?d 0 5" "\<not> nal_after ?d 0 8"
    by (simp_all add: scan_evals)
  with annexb_scan_complete [of ?d 1] show ?thesis by simp
qed



text \<open>The length is added as a signed number: a packet that starts with the length
  \<open>0xfffffffc\<close> and has no start code makes the scan go back to its start for ever.\<close>

theorem negative_length_never_ends:
  assumes "d = 0xFF # 0xFF # 0xFF # 0xFC # b # rest" and "\<not> has_code d 0"
  shows "scan_h264_nals fuel d = None"
proof -
  have l: "AV_RB32 d 0 = 0xFFFFFFFC" by (simp add: assms(1) AV_RB32_def rb32_def)
  have n: "sint (0xFFFFFFFC :: u32) = - 4" by simp
  have c: "5 \<le> length d" by (simp add: assms(1))
  have "scan_lengths fuel d 0 f = None" for f
  proof (induction fuel arbitrary: f)
    case (Suc fuel)
    with c show ?case by (simp add: Let_def l n)
  qed simp
  moreover have "\<not> fst (scan_annexb d 0 False no_nals)" by (simp add: scan_annexb_found assms(2))
  ultimately show ?thesis by (simp add: scan_h264_nals_def case_prod_beta)
qed

theorem negative_length_never_ends_witness: "scan_h264_nals 1000 [0xFF, 0xFF, 0xFF, 0xFC, 0] = None"
proof -
  have "\<not> has_code [0xFF, 0xFF, 0xFF, 0xFC, 0] 0" by (simp add: scan_evals)
  then show ?thesis by (rule negative_length_never_ends [OF refl])
qed

text \<open>A length prefix can be taken for a start code: a packet whose first unit is between 256
  and 511 bytes long, with a length of 5 modulo 32, is reported to hold an IDR slice whatever
  its bytes are.\<close>

theorem length_taken_for_idr:
  assumes "256 \<le> length n" "length n < 512" "length n mod 32 = 5"
  shows "\<exists>f. scan_h264_nals fuel (join_nals (n # nals)) = Some (Scanned f) \<and> has_idr f"
proof -
  let ?d = "join_nals (n # nals)"
  let ?b = "of_nat (length n) :: u8"
  from short_length [OF assms]
  have w: "AV_WB32 (of_nat (length n)) = [0, 0, 1, ?b]" and b: "nal_type ?b = 5" by simp_all
  have "sc3 ?d 0" "?d ! 3 = ?b" "4 \<le> length ?d"
    by (simp_all add: join_nals_def w sc3_def numeral_3_eq_3)
  then have "has_code ?d 0" "nal_after ?d 0 5"
    using b by (auto simp: has_code_def nal_after_def intro!: exI [of _ 0])
  with annexb_scan_complete show ?thesis by simp
qed

theorem length_taken_for_idr_witness:
  "\<exists>f. scan_h264_nals 1 (join_nals [replicate 261 0x41]) = Some (Scanned f) \<and> has_idr f"
  by (rule length_taken_for_idr) simp_all

text \<open>A query parameter of the URL is found by its name, whatever the case of the letters, and
  the first parameter with that name counts.\<close>

theorem cdn_param_found:
  assumes "CHR ''?'' \<notin> set base"
    and "\<forall>(a, b) \<in> set ps. set a \<inter> {CHR ''='', CHR ''&''} = {} \<and> CHR ''&'' \<notin> set b"
  shows "parse_cdn_params (Some (base @ CHR ''?'' # join_query ps)) (Some k)
    = map_option snd (find (\<lambda>(a, b). map av_tolower a = map av_tolower k) ps)"
  by (simp add: parse_cdn_params_def strchr_split [OF assms(1)] parse_join_query [OF assms(2)])

theorem cdn_param_found_witness:
  "parse_cdn_params (Some (''webrtc://h/live'' @ CHR ''?'' # join_query [(''app'', ''live''), (''Stream'', ''s=1'')]))
     (Some ''stream'') = Some ''s=1''"
  by (subst cdn_param_found) (simp, simp, code_simp)

end
