(* ===== verification/Rescale.thy ===== *)
theory Rescale
  imports Prelude
begin

text \<open>
  Rescaling of timestamps, \<^verbatim>\<open>libavutil/mathematics.c\<close>: multiplication and division of
  64 bit integers with a chosen rounding, on which every change of time base rests. The C values
  are integers; the 128 bit path works on 64 bit words as the code does.
\<close>

definition INT_MAX :: int where "INT_MAX = 2 ^ 31 - 1"
definition INT64_MAX :: int where "INT64_MAX = 2 ^ 63 - 1"
definition INT64_MIN :: int where "INT64_MIN = - (2 ^ 63)"

text \<open>The undefined timestamp.\<close>

definition AV_NOPTS_VALUE :: int where "AV_NOPTS_VALUE = INT64_MIN"

datatype AVRounding =
    AV_ROUND_ZERO | AV_ROUND_INF | AV_ROUND_DOWN | AV_ROUND_UP | AV_ROUND_NEAR_INF

text \<open>\<open>rnd ^ ((rnd >> 1) & 1)\<close> exchanges rounding down and up.\<close>

fun flip_rounding :: "AVRounding \<Rightarrow> AVRounding" where
  "flip_rounding AV_ROUND_DOWN = AV_ROUND_UP"
| "flip_rounding AV_ROUND_UP = AV_ROUND_DOWN"
| "flip_rounding r = r"

definition rounding_term :: "AVRounding \<Rightarrow> int \<Rightarrow> int" where
  "rounding_term rnd c =
     (if rnd = AV_ROUND_NEAR_INF then c div 2
      else if rnd \<in> {AV_ROUND_INF, AV_ROUND_UP} then c - 1 else 0)"

section \<open>The 128 bit path\<close>

text \<open>The product as a pair of its low and high word, and the middle products.\<close>

definition mul_128 :: "u64 \<Rightarrow> u64 \<Rightarrow> u64 \<times> u64 \<times> u64" where
  "mul_128 a b =
     (let a0 = a AND 0xFFFFFFFF; a1 = drop_bit 32 a; b0 = b AND 0xFFFFFFFF; b1 = drop_bit 32 b;
          t1 = a0 * b1 + a1 * b0; t1a = push_bit 32 t1;
          a0 = a0 * b0 + t1a
      in (a0, a1 * b1 + drop_bit 32 t1 + (if a0 < t1a then 1 else 0), t1))"

definition div_step :: "u64 \<Rightarrow> u64 \<Rightarrow> nat \<Rightarrow> u64 \<times> u64 \<Rightarrow> u64 \<times> u64" where
  "div_step c a0 i = (\<lambda>(a1, t1).
     (let a1 = a1 + (a1 + (drop_bit i a0 AND 1)); t1 = t1 + t1
      in if c \<le> a1 then (a1 - c, t1 + 1) else (a1, t1)))"

definition rescale_128 :: "u64 \<Rightarrow> u64 \<Rightarrow> u64 \<Rightarrow> u64 \<Rightarrow> u64" where
  "rescale_128 a b c r =
     (let (a0, a1, t1) = mul_128 a b;
          a0 = a0 + r;
          a1 = a1 + (if a0 < r then 1 else 0)
      in snd (fold (div_step c a0) (rev [0..<64]) (a1, t1)))"

section \<open>Rescaling\<close>

definition rescale_nonneg :: "int \<Rightarrow> int \<Rightarrow> int \<Rightarrow> int \<Rightarrow> int" where
  "rescale_nonneg a b c r =
     (if b \<le> INT_MAX \<and> c \<le> INT_MAX then
        if a \<le> INT_MAX then (a * b + r) div c
        else let ad = a div c; a2 = (a mod c * b + r) div c
             in if ad \<ge> 2 ^ 31 - 1 \<and> b \<noteq> 0 \<and> ad > (INT64_MAX - a2) div b then INT64_MIN
                else ad * b + a2
      else let t1 = rescale_128 (word_of_int a) (word_of_int b) (word_of_int c) (word_of_int r)
           in if uint t1 > INT64_MAX then INT64_MIN else uint t1)"

text \<open>\<open>pass\<close> is the flag \<open>AV_ROUND_PASS_MINMAX\<close>. The result for a negative \<open>a\<close> is negated as an
  unsigned number, so the overflow mark stays what it is.\<close>

definition av_rescale_rnd :: "int \<Rightarrow> int \<Rightarrow> int \<Rightarrow> AVRounding \<Rightarrow> bool \<Rightarrow> int" where
  "av_rescale_rnd a b c rnd pass =
     (if c \<le> 0 \<or> b < 0 then INT64_MIN
      else if pass \<and> (a = INT64_MIN \<or> a = INT64_MAX) then a
      else if a < 0 then
        sint (- (word_of_int (rescale_nonneg (- (max a (- INT64_MAX))) b c
               (rounding_term (flip_rounding rnd) c)) :: u64))
      else rescale_nonneg a b c (rounding_term rnd c))"

definition av_rescale :: "int \<Rightarrow> int \<Rightarrow> int \<Rightarrow> int" where
  "av_rescale a b c = av_rescale_rnd a b c AV_ROUND_NEAR_INF False"

definition av_rescale_q_rnd :: "int \<Rightarrow> int \<times> int \<Rightarrow> int \<times> int \<Rightarrow> AVRounding \<Rightarrow> int" where
  "av_rescale_q_rnd a bq cq rnd = av_rescale_rnd a (fst bq * snd cq) (fst cq * snd bq) rnd False"

definition av_rescale_q :: "int \<Rightarrow> int \<times> int \<Rightarrow> int \<times> int \<Rightarrow> int" where
  "av_rescale_q a bq cq = av_rescale_q_rnd a bq cq AV_ROUND_NEAR_INF"

definition av_compare_ts :: "int \<Rightarrow> int \<times> int \<Rightarrow> int \<Rightarrow> int \<times> int \<Rightarrow> int" where
  "av_compare_ts ts_a tb_a ts_b tb_b =
     (let a = fst tb_a * snd tb_b; b = fst tb_b * snd tb_a
      in if (\<bar>ts_a\<bar> OR a OR \<bar>ts_b\<bar> OR b) \<le> INT_MAX
         then of_bool (ts_a * a > ts_b * b) - of_bool (ts_a * a < ts_b * b)
         else if av_rescale_rnd ts_a a b AV_ROUND_DOWN False < ts_b then - 1
         else if av_rescale_rnd ts_b b a AV_ROUND_DOWN False < ts_a then 1
         else 0)"

section \<open>The 128 bit path divides\<close>

lemma carry_add: "unat (x + y) + (if x + y < y then 2 ^ 64 else 0) = unat x + unat (y :: u64)"
proof -
  have x: "unat x < 2 ^ 64" and y: "unat y < 2 ^ 64" using unsigned_less [of x] unsigned_less [of y] by simp_all
  have s: "unat (x + y) = (unat x + unat y) mod 2 ^ 64" by (simp add: unat_word_ariths)
  show ?thesis
  proof (cases "unat x + unat y < 2 ^ 64")
    case True
    then show ?thesis using s by (simp add: word_less_nat_alt)
  next
    case False
    then have "unat (x + y) = unat x + unat y - 2 ^ 64"
      using s x y by (simp add: mod_if)
    with False x show ?thesis by (simp add: word_less_nat_alt)
  qed
qed

lemma mul_128_nat:
  assumes "unat a < 2 ^ 63" "unat b < 2 ^ 63" "mul_128 a b = (lo, hi, t)"
  shows "unat hi * 2 ^ 64 + unat lo = unat a * unat b"
proof -
  define A0 where "A0 = unat a mod 2 ^ 32"
  define A1 where "A1 = unat a div 2 ^ 32"
  define B0 where "B0 = unat b mod 2 ^ 32"
  define B1 where "B1 = unat b div 2 ^ 32"
  define T where "T = A0 * B1 + A1 * B0"
  have A: "unat a = A1 * 2 ^ 32 + A0" and B: "unat b = B1 * 2 ^ 32 + B0"
    by (simp_all add: A0_def A1_def B0_def B1_def)
  have bd: "A0 < 2 ^ 32" "B0 < 2 ^ 32" "A1 < 2 ^ 31" "B1 < 2 ^ 31"
    using assms(1,2) by (simp_all add: A0_def A1_def B0_def B1_def less_mult_imp_div_less)
  have pr: "x * y \<le> (m - 1) * (n - 1)" if "x < m" "y < n" for x y m n :: nat
    using that by (intro mult_le_mono) auto
  have T: "T < 2 ^ 64"
    using pr [OF bd(1,4)] pr [OF bd(3,2)] by (simp add: T_def)
  have m: "(0xFFFFFFFF :: u64) = mask 32" by (simp add: mask_eq_exp_minus_1)
  have w: "unat (a AND 0xFFFFFFFF) = A0" "unat (drop_bit 32 a) = A1"
    "unat (b AND 0xFFFFFFFF) = B0" "unat (drop_bit 32 b) = B1"
    by (simp_all add: m A0_def A1_def B0_def B1_def drop_bit_eq_div
        take_bit_eq_mask [symmetric] take_bit_eq_mod unat_div_distrib unat_mod_distrib)
  let ?t = "(a AND 0xFFFFFFFF) * drop_bit 32 b + drop_bit 32 a * (b AND 0xFFFFFFFF)"
  have t: "unat ?t = T"
    using T by (simp add: unat_word_ariths w T_def mod_add_eq)
  have ta: "unat (push_bit 32 ?t) = (T mod 2 ^ 32) * 2 ^ 32"
  proof -
    have "unat (push_bit 32 x) = (unat x * 2 ^ 32) mod 2 ^ 64" for x :: u64
      by (simp add: push_bit_eq_mult unat_word_ariths)
    then have "unat (push_bit 32 ?t) = (T * 2 ^ 32) mod 2 ^ 64" by (simp only: t)
    also have "\<dots> = (T mod 2 ^ 32) * 2 ^ 32" by (simp add: mod_mult_mult2 [of T "2 ^ 32" "2 ^ 32", simplified])
    finally show ?thesis .
  qed
  let ?p = "(a AND 0xFFFFFFFF) * (b AND 0xFFFFFFFF)"
  have p: "unat ?p = A0 * B0"
    using pr [OF bd(1,2)] by (simp add: unat_word_ariths w)
  have lo: "lo = ?p + push_bit 32 ?t"
    and hi: "hi = drop_bit 32 a * drop_bit 32 b + drop_bit 32 ?t + (if lo < push_bit 32 ?t then 1 else 0)"
    using assms(3) by (auto simp: mul_128_def Let_def)
  have c: "unat lo + (if lo < push_bit 32 ?t then 2 ^ 64 else 0) = A0 * B0 + (T mod 2 ^ 32) * 2 ^ 32"
    using carry_add [of ?p "push_bit 32 ?t"] by (simp only: lo p ta)
  have dt: "unat (drop_bit 32 ?t) = T div 2 ^ 32"
    using t by (simp add: drop_bit_eq_div unat_div_distrib)
  have ub: "A1 * B1 + T div 2 ^ 32 + 1 < 2 ^ 64"
    using pr [OF bd(3,4)] T by (simp add: less_mult_imp_div_less)
  have h: "unat hi = A1 * B1 + T div 2 ^ 32 + (if lo < push_bit 32 ?t then 1 else 0)"
    using ub pr [OF bd(3,4)] by (simp add: hi unat_word_ariths w dt mod_add_eq del: drop_bit_word_beyond)
  have T': "T * 2 ^ 32 = T div 2 ^ 32 * 2 ^ 64 + T mod 2 ^ 32 * 2 ^ 32"
  proof -
    define q m where "q = T div 2 ^ 32" and "m = T mod 2 ^ 32"
    have "T = q * 2 ^ 32 + m" by (simp add: q_def m_def)
    then have "T * 2 ^ 32 = q * 2 ^ 64 + m * 2 ^ 32" by (simp add: algebra_simps)
    then show ?thesis by (simp only: q_def m_def)
  qed
  have "unat hi * 2 ^ 64 + unat lo = (A1 * B1 + T div 2 ^ 32) * 2 ^ 64
      + (unat lo + (if lo < push_bit 32 ?t then 2 ^ 64 else 0))"
    by (simp add: h algebra_simps)
  also have "\<dots> = A1 * B1 * 2 ^ 64 + T * 2 ^ 32 + A0 * B0"
    unfolding c T' by (simp add: algebra_simps)
  also have "\<dots> = unat a * unat b" by (simp add: A B T_def algebra_simps)
  finally show ?thesis .
qed

text \<open>One step of the long division: the next bit of the dividend is brought down.\<close>

lemma div_step_nat:
  assumes "0 < unat c" "unat c \<le> 2 ^ 63" "unat x < unat c" "i < 64"
    and "div_step c a0 i (x, t) = (x', t')"
  defines "m \<equiv> 2 * unat x + unat a0 div 2 ^ i mod 2"
  shows "unat x' = m mod unat c" "unat t' = (2 * unat t + m div unat c) mod 2 ^ 64"
proof -
  let ?y = "x + (x + (drop_bit i a0 AND 1))"
  have bit: "unat (drop_bit i a0 AND 1) = unat a0 div 2 ^ i mod 2"
  proof -
    have "unat a0 < 2 ^ 64" using unsigned_less [of a0] by simp
    then have "unat (drop_bit i a0) = unat a0 div 2 ^ i"
      by (subst unsigned_drop_bit_eq) (simp add: drop_bit_eq_div take_bit_nat_eq_self)
    then show ?thesis by (simp add: and_one_eq unat_mod_distrib)
  qed
  have mb: "m < 2 * unat c" "m < 2 ^ 64"
    using assms(2,3) by (simp_all add: m_def)
  have y: "unat ?y = m"
    using mb(2) by (simp add: unat_word_ariths bit m_def mod_add_eq mod_add_right_eq)
  have le: "c \<le> ?y \<longleftrightarrow> unat c \<le> m" unfolding word_le_nat_alt y ..
  have dm: "m mod unat c = (if unat c \<le> m then m - unat c else m)"
    "m div unat c = (if unat c \<le> m then 1 else 0)"
    using mb(1) assms(1) by (auto simp: mod_if div_if)
  have x': "x' = (if c \<le> ?y then ?y - c else ?y)" and t': "t' = (if c \<le> ?y then t + t + 1 else t + t)"
    using assms(5) by (auto simp: div_step_def Let_def split: if_splits)
  show "unat x' = m mod unat c"
    using le y by (simp add: x' dm unat_sub)
  show "unat t' = (2 * unat t + m div unat c) mod 2 ^ 64"
  proof -
    have "t' = of_nat (2 * unat t + m div unat c)" using le by (simp add: t' dm)
    then show ?thesis by (simp only: unat_of_nat) simp
  qed
qed

lemma bring_down:
  fixes N L H i :: nat
  assumes "N = H * 2 ^ 64 + L" "i < 64"
  shows "N div 2 ^ i = 2 * (N div 2 ^ Suc i) + L div 2 ^ i mod 2"
proof -
  have "(N div 2 ^ i) mod 2 = L div 2 ^ i mod 2"
  proof -
    have "(2 :: nat) ^ 64 = 2 ^ (64 - i) * 2 ^ i" using assms(2) by (simp flip: power_add)
    then have "N = L + (H * 2 ^ (64 - i)) * 2 ^ i" by (simp only: assms(1) mult.assoc add.commute)
    then have "N div 2 ^ i = H * 2 ^ (64 - i) + L div 2 ^ i" by simp
    moreover have "(2 :: nat) ^ (64 - i) = 2 * 2 ^ (63 - i)"
      using assms(2) by (simp flip: power_Suc add: Suc_diff_le)
    ultimately have "N div 2 ^ i = L div 2 ^ i + 2 * (H * 2 ^ (63 - i))" by simp
    then show ?thesis by (simp only: mod_mult_self2)
  qed
  then show ?thesis
    by (metis div_mult2_eq mult.commute mult_div_mod_eq power_Suc2)
qed

lemma double_mod: "(2 * (k mod M) + d) mod M = (2 * k + d) mod (M :: nat)"
  by (metis mod_add_left_eq mod_mult_right_eq)

lemma long_division:
  fixes c hi lo t :: u64
  assumes "0 < unat c" "unat c \<le> 2 ^ 63" "unat hi < unat c" "i \<le> 64"
  defines "N \<equiv> unat hi * 2 ^ 64 + unat lo"
  shows "\<exists>x t'. fold (div_step c lo) (rev [i..<64]) (hi, t) = (x, t')
     \<and> unat x = N div 2 ^ i mod unat c
     \<and> unat t' = (unat t * 2 ^ (64 - i) + N div 2 ^ i div unat c) mod 2 ^ 64"
  using assms(4)
proof (induction rule: inc_induct)
  case base
  have "unat lo < 2 ^ 64" "unat t < 2 ^ 64" using unsigned_less [of lo] unsigned_less [of t] by simp_all
  moreover from this have "N div 2 ^ 64 = unat hi" by (simp add: N_def)
  ultimately show ?case using assms(3) by simp
next
  case (step i)
  define n where "n = N div 2 ^ Suc i"
  from step.IH obtain x t1 where f: "fold (div_step c lo) (rev [Suc i..<64]) (hi, t) = (x, t1)"
    and x: "unat x = n mod unat c"
    and t1: "unat t1 = (unat t * 2 ^ (64 - Suc i) + n div unat c) mod 2 ^ 64"
    unfolding n_def by blast
  obtain x' t' where s: "div_step c lo i (x, t1) = (x', t')" by (cases "div_step c lo i (x, t1)")
  have "rev [i..<64] = rev [Suc i..<64] @ [i]" using step.hyps by (subst upt_conv_Cons) auto
  then have f': "fold (div_step c lo) (rev [i..<64]) (hi, t) = (x', t')" by (simp only: fold_append f s) (simp add: f s)
  let ?b = "unat lo div 2 ^ i mod 2"
  have xc: "unat x < unat c" using assms(1) by (simp add: x)
  note d = div_step_nat [OF assms(1,2) xc _ s]
  have b: "N div 2 ^ i = 2 * n + ?b" unfolding n_def by (rule bring_down) (use step.hyps in \<open>simp_all add: N_def\<close>)
  have e: "2 * n + ?b = 2 * (unat c * (n div unat c)) + (2 * unat x + ?b)"
    using mult_div_mod_eq [of "unat c" n] x by linarith
  have q: "N div 2 ^ i = (2 * (n div unat c)) * unat c + (2 * unat x + ?b)"
    unfolding b e by (simp add: mult.assoc mult.commute)
  have "unat x' = N div 2 ^ i mod unat c" using d(1) step.hyps by (simp only: q) simp
  moreover have "N div 2 ^ i div unat c = 2 * (n div unat c) + (2 * unat x + ?b) div unat c"
    using assms(1) by (simp only: q) simp
  moreover have "unat t' = (2 * unat t1 + (2 * unat x + ?b) div unat c) mod 2 ^ 64"
    using d(2) step.hyps by simp
  moreover have "2 * (unat t * 2 ^ (64 - Suc i) + n div unat c) = unat t * 2 ^ (64 - i) + 2 * (n div unat c)"
    using step.hyps by (simp add: Suc_diff_Suc [symmetric])
  ultimately have "unat t' = (unat t * 2 ^ (64 - i) + N div 2 ^ i div unat c) mod 2 ^ 64"
    by (simp only: t1 double_mod) (simp only: add.assoc)
  with f' \<open>unat x' = N div 2 ^ i mod unat c\<close> show ?case by blast
qed

text \<open>A dividend that is too large sets the highest bit of the quotient.\<close>

lemma div_steps_quotient:
  "\<exists>x' t' e. fold (div_step c lo) is (x, t) = (x', t') \<and> e < 2 ^ length is
     \<and> unat t' = (unat t * 2 ^ length is + e) mod 2 ^ 64"
proof (induction "is" arbitrary: x t)
  case Nil
  have "unat t < 2 ^ 64" using unsigned_less [of t] by simp
  then show ?case by simp
next
  case (Cons i "is")
  obtain x1 t1 where s: "div_step c lo i (x, t) = (x1, t1)" by (cases "div_step c lo i (x, t)")
  then have "t1 = of_nat (2 * unat t + 1) \<or> t1 = of_nat (2 * unat t + 0)"
    by (auto simp: div_step_def Let_def split: if_splits)
  then obtain d :: nat where d: "d < 2" "t1 = of_nat (2 * unat t + d)"
    by (metis one_less_numeral_iff semiring_norm(76) zero_less_numeral)
  from d(2) have u: "unat t1 = (2 * unat t + d) mod 2 ^ 64" by (simp only: unat_of_nat) simp
  from Cons.IH [of x1 t1] obtain x' t' e where
    f: "fold (div_step c lo) is (x1, t1) = (x', t')" and e: "e < 2 ^ length is"
    and t': "unat t' = (unat t1 * 2 ^ length is + e) mod 2 ^ 64" by blast
  let ?k = "2 ^ length is :: nat"
  have "unat t' = ((2 * unat t + d) * ?k + e) mod 2 ^ 64"
    unfolding t' u by (metis mod_add_left_eq mod_mult_left_eq)
  then have "unat t' = (unat t * 2 ^ length (i # is) + (d * ?k + e)) mod 2 ^ 64"
    by (simp add: algebra_simps)
  moreover have "d * ?k + e < 2 ^ length (i # is)"
  proof -
    have "d = 0 \<or> d = 1" using d(1) by linarith
    then have "d * ?k \<le> ?k" by auto
    then show ?thesis using e unfolding length_Cons power_Suc by linarith
  qed
  ultimately show ?case using s f by (intro exI [of _ x'] exI [of _ t'] exI [of _ "d * ?k + e"]) simp
qed

lemma division_overflow:
  assumes "unat c \<le> unat hi" "unat hi < 2 ^ 63"
  shows "\<exists>x t'. fold (div_step c lo) (rev [0..<64]) (hi, t) = (x, t') \<and> 2 ^ 63 \<le> unat t'"
proof -
  have r: "rev [0..<64] = 63 # rev [0..<63]"
    by (simp add: upt_rec [of 0 64] numeral_eq_Suc)
  let ?y = "hi + (hi + (drop_bit 63 lo AND 1))"
  have "unat (drop_bit 63 lo AND 1) < 2" by (simp add: and_one_eq unat_mod_distrib)
  then have "unat ?y = 2 * unat hi + unat (drop_bit 63 lo AND 1)"
    using assms(2) by (simp add: unat_word_ariths mod_add_right_eq)
  then have "c \<le> ?y" using assms(1) by (simp only: word_le_nat_alt)
  then have s: "div_step c lo 63 (hi, t) = (?y - c, t + t + 1)" by (simp add: div_step_def Let_def)
  have o: "unat (t + t + 1) = (2 * unat t + 1) mod 2 ^ 64"
  proof -
    have "t + t + 1 = of_nat (2 * unat t + 1)" by simp
    then show ?thesis by (simp only: unat_of_nat) simp
  qed
  from div_steps_quotient [of c lo "rev [0..<63]" "?y - c" "t + t + 1"]
  obtain x t' e where f: "fold (div_step c lo) (rev [0..<63]) (?y - c, t + t + 1) = (x, t')"
    and e: "e < 2 ^ 63" and t': "unat t' = (unat (t + t + 1) * 2 ^ 63 + e) mod 2 ^ 64"
    by auto
  have "unat t' = ((2 * unat t + 1) * 2 ^ 63 + e) mod 2 ^ 64"
    unfolding t' o by (metis mod_add_left_eq mod_mult_left_eq)
  also have "(2 * unat t + 1) * 2 ^ 63 + e = (2 ^ 63 + e) + unat t * 2 ^ 64" by simp
  also have "\<dots> mod 2 ^ 64 = 2 ^ 63 + e" using e by simp
  finally have "2 ^ 63 \<le> unat t'" by simp
  moreover have "fold (div_step c lo) (rev [0..<64]) (hi, t) = (x, t')"
    unfolding r by (simp only: fold_simps s f)
  ultimately show ?thesis by blast
qed

lemma rescale_128_div:
  assumes "unat a < 2 ^ 63" "unat b < 2 ^ 63" "0 < unat c" "unat c < 2 ^ 63" "unat r < unat c"
  defines "N \<equiv> unat a * unat b + unat r"
  shows "if N div unat c < 2 ^ 63 then unat (rescale_128 a b c r) = N div unat c
     else 2 ^ 63 \<le> unat (rescale_128 a b c r)"
proof -
  obtain a0 a1 t1 where m: "mul_128 a b = (a0, a1, t1)" by (cases "mul_128 a b")
  let ?lo = "a0 + r" and ?hi = "a1 + (if a0 + r < r then 1 else 0)"
  have p: "unat a1 * 2 ^ 64 + unat a0 = unat a * unat b" by (rule mul_128_nat [OF assms(1,2) m])
  have "unat a * unat b \<le> (2 ^ 63 - 1) * (2 ^ 63 - 1)" using assms(1,2) by (intro mult_le_mono) auto
  then have "unat a1 * 2 ^ 64 \<le> (2 ^ 63 - 1) * (2 ^ 63 - 1)" using p by linarith
  then have a1: "unat a1 < 2 ^ 62" by simp
  have hi: "unat ?hi = unat a1 + (if a0 + r < r then 1 else 0)"
    using a1 by (auto simp: unat_word_ariths)
  have N: "N = unat ?hi * 2 ^ 64 + unat ?lo"
    using carry_add [of a0 r] p unfolding hi N_def by (auto split: if_splits)
  have R: "rescale_128 a b c r = snd (fold (div_step c ?lo) (rev [0..<64]) (?hi, t1))"
    by (simp add: rescale_128_def m Let_def)
  have lo: "unat ?lo < 2 ^ 64" using unsigned_less [of ?lo] by simp
  show ?thesis
  proof (cases "unat ?hi < unat c")
    case True
    obtain x t' where f: "fold (div_step c ?lo) (rev [0..<64]) (?hi, t1) = (x, t')"
      and t': "unat t' = (unat t1 * 2 ^ 64 + N div unat c) mod 2 ^ 64"
      using long_division [OF assms(3) _ True, of 0 ?lo t1] assms(4) by (auto simp: N)
    have "N < unat c * 2 ^ 64"
    proof -
      have "N < (unat ?hi + 1) * 2 ^ 64" using N lo by simp
      also have "\<dots> \<le> unat c * 2 ^ 64" using True by (intro mult_le_mono1) simp
      finally show ?thesis .
    qed
    then have "N div unat c < 2 ^ 64" using assms(3) by (simp add: div_less_iff_less_mult mult.commute)
    then have "unat t' = N div unat c" using t' by simp
    then show ?thesis unfolding R f by simp
  next
    case False
    then have "unat c * 2 ^ 64 \<le> N" using N by (simp add: trans_le_add1)
    then have "2 ^ 64 \<le> N div unat c" using assms(3) by (simp add: less_eq_div_iff_mult_less_eq mult.commute)
    moreover obtain x t' where "fold (div_step c ?lo) (rev [0..<64]) (?hi, t1) = (x, t')" "2 ^ 63 \<le> unat t'"
      using division_overflow [of c ?hi ?lo t1] False a1 hi by (auto split: if_splits)
    ultimately show ?thesis unfolding R by simp
  qed
qed

section \<open>Rescaling is division\<close>

lemma unat_of_int64: "0 \<le> x \<Longrightarrow> x \<le> INT64_MAX \<Longrightarrow> unat (word_of_int x :: u64) = nat x"
  by (simp add: INT64_MAX_def unsigned_of_int take_bit_int_eq_self nat_take_bit_eq)

lemma int_div_less_iff:
  assumes "0 < c"
  shows "x div c < n \<longleftrightarrow> x < n * (c :: int)"
proof -
  have x: "x = x div c * c + x mod c" "0 \<le> x mod c" "x mod c < c" using assms by simp_all
  show ?thesis
  proof
    assume "x div c < n"
    then have "(x div c + 1) * c \<le> n * c" using assms by (intro mult_right_mono) auto
    then show "x < n * c" using x unfolding distrib_right by linarith
  next
    assume l: "x < n * c"
    show "x div c < n"
    proof (rule ccontr)
      assume "\<not> x div c < n"
      then have "n * c \<le> x div c * c" using assms by (intro mult_right_mono) auto
      with l x show False by linarith
    qed
  qed
qed

lemma rescale_small:
  assumes "0 \<le> a" "0 \<le> b" "0 < c"
  shows "(a mod c * b + r) div c + a div c * b = (a * b + r) div (c :: int)"
proof -
  have eq: "a * b + r = (a mod c * b + r) + (a div c * b) * c"
    using mult_div_mod_eq [of c a] by (metis add.commute add.left_commute distrib_right mult.assoc mult.commute)
  show ?thesis unfolding eq using assms(3) by simp
qed

text \<open>For non-negative \<open>a\<close> every path computes the division, and marks an overflow.\<close>

lemma rescale_nonneg_div:
  assumes "0 \<le> a" "a \<le> INT64_MAX" "0 \<le> b" "b \<le> INT64_MAX" "0 < c" "c \<le> INT64_MAX" "0 \<le> r" "r < c"
  shows "rescale_nonneg a b c r = (if (a * b + r) div c \<le> INT64_MAX then (a * b + r) div c else INT64_MIN)"
proof (cases "b \<le> INT_MAX \<and> c \<le> INT_MAX")
  case small: True
  show ?thesis
  proof (cases "a \<le> INT_MAX")
    case True
    have "(a * b + r) div c \<le> a * b + r"
      using assms zdiv_mono2 [of "a * b + r" 1 c] by simp
    also have "\<dots> \<le> INT_MAX * INT_MAX + INT_MAX"
      using True small assms by (intro add_mono mult_mono) auto
    also have "\<dots> \<le> INT64_MAX" by (simp add: INT_MAX_def INT64_MAX_def)
    finally show ?thesis using True small by (simp add: rescale_nonneg_def)
  next
    case False
    define ad where "ad = a div c"
    define a2 where "a2 = (a mod c * b + r) div c"
    have q: "(a * b + r) div c = ad * b + a2"
      using rescale_small [OF assms(1,3,5), of r] by (simp add: ad_def a2_def)
    have nn: "0 \<le> ad" "0 \<le> a2" using assms by (simp_all add: ad_def a2_def pos_imp_zdiv_nonneg_iff)
    have "a mod c * b + r < (b + 1) * c"
    proof -
      have "a mod c * b \<le> c * b" using assms(3,5) by (intro mult_right_mono) (simp_all add: less_imp_le)
      then show ?thesis using assms(8) by (simp add: algebra_simps)
    qed
    then have "a2 < b + 1" unfolding a2_def using assms(5) by (simp only: int_div_less_iff)
    then have a2: "a2 \<le> b" by simp
    have guard: "ad > (INT64_MAX - a2) div b \<longleftrightarrow> ad * b + a2 > INT64_MAX" if "b \<noteq> 0"
    proof -
      have "0 < b" using that assms(3) by simp
      then have "(INT64_MAX - a2) div b < ad \<longleftrightarrow> INT64_MAX - a2 < ad * b" by (rule int_div_less_iff)
      then show ?thesis by linarith
    qed
    have low: "ad * b + a2 \<le> INT64_MAX" if "ad < 2 ^ 31 - 1 \<or> b = 0"
    proof (cases "b = 0")
      case True
      then show ?thesis using a2 by (simp add: INT64_MAX_def)
    next
      case False
      have "ad * b \<le> (2 ^ 31 - 1) * INT_MAX" using that False nn small assms(3) by (intro mult_mono) auto
      then show ?thesis using a2 small by (simp add: INT_MAX_def INT64_MAX_def)
    qed
    have R: "rescale_nonneg a b c r
        = (if ad \<ge> 2 ^ 31 - 1 \<and> b \<noteq> 0 \<and> ad > (INT64_MAX - a2) div b then INT64_MIN else ad * b + a2)"
      using small False by (simp add: rescale_nonneg_def ad_def a2_def Let_def)
    show ?thesis
    proof (cases "ad * b + a2 \<le> INT64_MAX")
      case True
      then have "\<not> (b \<noteq> 0 \<and> ad > (INT64_MAX - a2) div b)" using guard by force
      with True show ?thesis unfolding R q by auto
    next
      case big: False
      then have "b \<noteq> 0" "\<not> ad < 2 ^ 31 - 1" using low by blast+
      moreover from this big have "ad > (INT64_MAX - a2) div b" using guard by force
      ultimately show ?thesis unfolding R q using big by auto
    qed
  qed
next
  case False
  let ?w = "\<lambda>x. word_of_int x :: u64"
  have u: "unat (?w a) = nat a" "unat (?w b) = nat b" "unat (?w c) = nat c" "unat (?w r) = nat r"
    using assms by (auto intro!: unat_of_int64)
  have b: "nat x < 2 ^ 63" if "x \<le> INT64_MAX" for x using that by (simp add: INT64_MAX_def nat_less_iff)
  have R: "if nat (a * b + r) div nat c < 2 ^ 63
      then unat (rescale_128 (?w a) (?w b) (?w c) (?w r)) = nat (a * b + r) div nat c
      else 2 ^ 63 \<le> unat (rescale_128 (?w a) (?w b) (?w c) (?w r))"
  proof -
    have n: "nat (a * b + r) = nat a * nat b + nat r"
      using assms by (simp add: nat_add_distrib nat_mult_distrib)
    show ?thesis unfolding n
      by (rule rescale_128_div [of "?w a" "?w b" "?w c" "?w r", unfolded u]) (use assms b in auto)
  qed
  have q: "nat (a * b + r) div nat c = nat ((a * b + r) div c)"
    using assms by (simp add: nat_div_distrib)
  have nn: "0 \<le> (a * b + r) div c" using assms by (simp add: pos_imp_zdiv_nonneg_iff)
  have "rescale_nonneg a b c r = (let t1 = rescale_128 (?w a) (?w b) (?w c) (?w r)
      in if uint t1 > INT64_MAX then INT64_MIN else uint t1)"
    unfolding rescale_nonneg_def if_not_P [OF False] by (rule refl)
  then have E: "rescale_nonneg a b c r
      = (if uint (rescale_128 (?w a) (?w b) (?w c) (?w r)) > INT64_MAX then INT64_MIN
         else uint (rescale_128 (?w a) (?w b) (?w c) (?w r)))" unfolding Let_def .
  show ?thesis
  proof (cases "(a * b + r) div c < 2 ^ 63")
    case True
    then have "nat (a * b + r) div nat c < 2 ^ 63" unfolding q using nn by (simp add: nat_less_iff)
    with R have "unat (rescale_128 (?w a) (?w b) (?w c) (?w r)) = nat ((a * b + r) div c)"
      unfolding q by (simp only: if_True)
    then have "uint (rescale_128 (?w a) (?w b) (?w c) (?w r)) = (a * b + r) div c"
      using nn by (metis int_nat_eq uint_nat)
    with True E show ?thesis by (simp add: INT64_MAX_def)
  next
    case big: False
    then have "\<not> nat (a * b + r) div nat c < 2 ^ 63" unfolding q using nn by (simp add: nat_less_iff)
    with R have "2 ^ 63 \<le> unat (rescale_128 (?w a) (?w b) (?w c) (?w r))" by (simp only: if_False)
    then have "2 ^ 63 \<le> uint (rescale_128 (?w a) (?w b) (?w c) (?w r))"
      by (metis of_nat_le_iff of_nat_numeral of_nat_power uint_nat)
    with big E show ?thesis by (simp add: INT64_MAX_def)
  qed
qed

section \<open>Properties\<close>

text \<open>What each rounding means for the quotient of \<open>n\<close> by \<open>c\<close>.\<close>

definition rounds_to :: "AVRounding \<Rightarrow> int \<Rightarrow> int \<Rightarrow> int \<Rightarrow> bool" where
  "rounds_to rnd n c q =
     (case rnd of
        AV_ROUND_DOWN \<Rightarrow> q * c \<le> n \<and> n < (q + 1) * c
      | AV_ROUND_UP \<Rightarrow> (q - 1) * c < n \<and> n \<le> q * c
      | AV_ROUND_ZERO \<Rightarrow> \<bar>q\<bar> * c \<le> \<bar>n\<bar> \<and> \<bar>n\<bar> < (\<bar>q\<bar> + 1) * c
      | AV_ROUND_INF \<Rightarrow> (\<bar>q\<bar> - 1) * c < \<bar>n\<bar> \<and> \<bar>n\<bar> \<le> \<bar>q\<bar> * c
      | AV_ROUND_NEAR_INF \<Rightarrow> 2 * \<bar>n - q * c\<bar> \<le> c \<and> (2 * \<bar>n - q * c\<bar> = c \<longrightarrow> \<bar>n\<bar> < \<bar>q\<bar> * c))"

lemma rounds_nonneg:
  assumes "0 \<le> n" "0 < c"
  shows "rounds_to rnd n c ((n + rounding_term rnd c) div c)" "0 \<le> (n + rounding_term rnd c) div c"
proof -
  define q where "q = (n + rounding_term rnd c) div c"
  have r: "0 \<le> rounding_term rnd c" using assms by (simp add: rounding_term_def)
  then show "0 \<le> (n + rounding_term rnd c) div c" using assms by (simp add: pos_imp_zdiv_nonneg_iff)
  then have q0: "0 \<le> q" by (simp add: q_def)
  have "n + rounding_term rnd c = q * c + (n + rounding_term rnd c) mod c" by (simp add: q_def)
  moreover have "0 \<le> (n + rounding_term rnd c) mod c" "(n + rounding_term rnd c) mod c < c" using assms by simp_all
  ultimately have b: "q * c \<le> n + rounding_term rnd c" "n + rounding_term rnd c < q * c + c" by linarith+
  have h: "2 * (c div 2) \<le> c" "c \<le> 2 * (c div 2) + 1" by linarith+
  define m where "m = q * c"
  have d: "(q + 1) * c = m + c" "(q - 1) * c = m - c" "\<bar>q\<bar> * c = m" "(\<bar>q\<bar> + 1) * c = m + c" "(\<bar>q\<bar> - 1) * c = m - c"
    using q0 by (simp_all add: m_def distrib_right left_diff_distrib)
  have "rounds_to rnd n c q"
  proof (cases rnd)
    case AV_ROUND_NEAR_INF
    then have "m \<le> n + c div 2" "n + c div 2 < m + c" using b by (simp_all add: rounding_term_def m_def)
    then have "2 * (n - m) < c" "2 * (m - n) \<le> c" by presburger+
    then have "2 * \<bar>n - m\<bar> \<le> c \<and> (2 * \<bar>n - m\<bar> = c \<longrightarrow> \<bar>n\<bar> < m)"
      using assms by (auto simp: abs_if)
    with AV_ROUND_NEAR_INF q0 show ?thesis by (simp add: rounds_to_def m_def)
  qed (use b assms(1) in \<open>simp_all add: rounds_to_def rounding_term_def d m_def [symmetric]\<close>)
  then show "rounds_to rnd n c ((n + rounding_term rnd c) div c)" by (simp add: q_def)
qed

lemma rounds_flip: "rounds_to (flip_rounding rnd) n c q \<Longrightarrow> rounds_to rnd (- n) c (- q)"
  by (cases rnd) (auto simp: rounds_to_def algebra_simps abs_minus_commute)

lemma sint_neg:
  assumes "0 \<le> x" "x \<le> INT64_MAX"
  shows "sint (- (word_of_int x :: u64)) = - x"
proof -
  have "sint (word_of_int (- x) :: u64) = - x"
    using assms unfolding int_word_sint by (simp add: INT64_MAX_def)
  then show ?thesis by simp
qed

lemma sint_neg_min: "sint (- (word_of_int INT64_MIN :: u64)) = INT64_MIN"
  by (simp add: INT64_MIN_def)

lemma rescale_nonneg_rounds:
  assumes "0 \<le> a" "a \<le> INT64_MAX" "0 \<le> b" "b \<le> INT64_MAX" "0 < c" "c \<le> INT64_MAX"
    and q: "q = rescale_nonneg a b c (rounding_term rnd c)"
  shows "q = INT64_MIN \<or> 0 \<le> q \<and> q \<le> INT64_MAX \<and> rounds_to rnd (a * b) c q"
    and "a * b \<le> (INT64_MAX - 1) * c \<Longrightarrow> q \<noteq> INT64_MIN"
proof -
  have r: "0 \<le> rounding_term rnd c" "rounding_term rnd c < c" using assms by (auto simp: rounding_term_def)
  have E: "q = (if (a * b + rounding_term rnd c) div c \<le> INT64_MAX
      then (a * b + rounding_term rnd c) div c else INT64_MIN)"
    unfolding q by (rule rescale_nonneg_div) (use assms r in auto)
  have n: "0 \<le> a * b" using assms by simp
  show "q = INT64_MIN \<or> 0 \<le> q \<and> q \<le> INT64_MAX \<and> rounds_to rnd (a * b) c q"
    using E rounds_nonneg [OF n assms(5), of rnd] by auto
  assume "a * b \<le> (INT64_MAX - 1) * c"
  then have "a * b + rounding_term rnd c < INT64_MAX * c" using r(2) by (simp add: left_diff_distrib)
  then have "(a * b + rounding_term rnd c) div c < INT64_MAX"
    using assms(5) by (simp only: int_div_less_iff)
  moreover have "INT64_MIN < 0" by (simp add: INT64_MIN_def)
  ultimately show "q \<noteq> INT64_MIN" using E rounds_nonneg(2) [OF n assms(5), of rnd] by auto
qed



end
