(* ===== verification/Dict.thy ===== *)
theory Dict
  imports Prelude "HOL-Library.Multiset"
begin

text \<open>
  Dictionaries of options and metadata: \<^verbatim>\<open>libavutil/dict.c\<close>, the tokenizer
  \<open>av_get_token\<close> of \<^verbatim>\<open>libavutil/avstring.c\<close> and the escaping of
  \<^verbatim>\<open>libavutil/bprint.c\<close>. A dictionary is the array of its entries (an empty one and
  NULL are the same); strings have no NUL character. Ownership of the strings is not modelled.
\<close>

section \<open>Lookup\<close>

datatype dict_flag =
    AV_DICT_MATCH_CASE | AV_DICT_IGNORE_SUFFIX | AV_DICT_DONT_OVERWRITE | AV_DICT_APPEND
  | AV_DICT_MULTIKEY

type_synonym dict = "(string \<times> string) list"

definition av_toupper :: "char \<Rightarrow> char" where
  "av_toupper c = (let n = (of_char c :: nat) in if 97 \<le> n \<and> n \<le> 122 then char_of (n - 32) else c)"

definition av_dict_count :: "dict \<Rightarrow> nat" where
  "av_dict_count m = length m"

text \<open>Entries are referred to by their index.\<close>

definition av_dict_iterate :: "dict \<Rightarrow> nat option \<Rightarrow> nat option" where
  "av_dict_iterate m prev =
     (let i = (case prev of None \<Rightarrow> 0 | Some p \<Rightarrow> p + 1)
      in if i \<ge> av_dict_count m then None else Some i)"

text \<open>The comparison of an entry's key with the key that is searched for, first.\<close>

fun key_matches :: "dict_flag set \<Rightarrow> string \<Rightarrow> string \<Rightarrow> bool" where
  "key_matches fl [] s = (s = [] \<or> AV_DICT_IGNORE_SUFFIX \<in> fl)"
| "key_matches fl (k # ks) [] = False"
| "key_matches fl (k # ks) (c # s) =
     ((if AV_DICT_MATCH_CASE \<in> fl then c = k else av_toupper c = av_toupper k) \<and> key_matches fl ks s)"

function av_dict_get :: "dict \<Rightarrow> string \<Rightarrow> nat option \<Rightarrow> dict_flag set \<Rightarrow> nat option" where
  "av_dict_get m key prev fl =
     (case av_dict_iterate m prev of
        None \<Rightarrow> None
      | Some i \<Rightarrow> if key_matches fl key (fst (m ! i)) then Some i else av_dict_get m key (Some i) fl)"
  by pat_completeness auto
termination
  by (relation "measure (\<lambda>(m, key, prev, fl). length m - (case prev of None \<Rightarrow> 0 | Some p \<Rightarrow> p + 1))")
    (auto simp: av_dict_iterate_def av_dict_count_def Let_def split: if_splits option.splits)

declare av_dict_get.simps [simp del]

section \<open>Update\<close>

text \<open>\<open>*tag = m->elems[--m->count]\<close>: the last entry takes the place of the removed one.\<close>

definition swap_remove :: "nat \<Rightarrow> 'a list \<Rightarrow> 'a list" where
  "swap_remove i xs = butlast (xs[i := last xs])"

text \<open>\<open>mem\<close> says whether the allocations succeed; a value of None deletes the entry.\<close>

definition av_dict_set :: "bool \<Rightarrow> dict \<Rightarrow> string option \<Rightarrow> string option \<Rightarrow> dict_flag set \<Rightarrow> int res \<times> dict" where
  "av_dict_set mem m key val fl =
     (case key of None \<Rightarrow> (Err EINVAL, m)
      | Some k \<Rightarrow>
          let tag = (if AV_DICT_MULTIKEY \<in> fl then None else av_dict_get m k None fl)
          in if \<not> mem then (Err ENOMEM, m)
             else (case tag of
                Some i \<Rightarrow>
                  if AV_DICT_DONT_OVERWRITE \<in> fl then (Ok 0, m)
                  else let m' = swap_remove i m
                       in (case val of None \<Rightarrow> (Ok 0, m')
                           | Some v \<Rightarrow> (Ok 0, m' @ [(k, if AV_DICT_APPEND \<in> fl then snd (m ! i) @ v else v)]))
              | None \<Rightarrow> (case val of None \<Rightarrow> (Ok 0, m) | Some v \<Rightarrow> (Ok 0, m @ [(k, v)]))))"

text \<open>\<open>av_dict_copy\<close> stops at the first error.\<close>

fun av_dict_copy :: "bool \<Rightarrow> dict \<Rightarrow> dict \<Rightarrow> dict_flag set \<Rightarrow> int res \<times> dict" where
  "av_dict_copy mem dst [] fl = (Ok 0, dst)"
| "av_dict_copy mem dst ((k, v) # src) fl =
     (case av_dict_set mem dst (Some k) (Some v) fl of
        (Inl e, dst) \<Rightarrow> (Err e, dst)
      | (Inr _, dst) \<Rightarrow> av_dict_copy mem dst src fl)"

section \<open>Text form\<close>

definition WHITESPACES :: string where
  "WHITESPACES = [CHR '' '', CHR 0x0A, CHR 0x09, CHR 0x0D]"

definition backslash :: char where "backslash = CHR 0x5C"
definition quote :: char where "quote = CHR 0x27"

text \<open>
  The loop of \<open>av_get_token\<close>: the characters written, the length up to which white space is
  kept, and the rest of the input.
\<close>

function token_loop :: "string \<Rightarrow> string \<Rightarrow> nat \<Rightarrow> string \<Rightarrow> string \<times> nat \<times> string" where
  "token_loop trm out e p =
     (case p of [] \<Rightarrow> (out, e, [])
      | c # r \<Rightarrow>
          if c \<in> set trm then (out, e, p)
          else if c = backslash \<and> r \<noteq> [] then token_loop trm (out @ [hd r]) (length out + 1) (tl r)
          else if c = quote then
            (let q = takeWhile (\<lambda>x. x \<noteq> quote) r; s = dropWhile (\<lambda>x. x \<noteq> quote) r
             in if s = [] then token_loop trm (out @ q) e []
                else token_loop trm (out @ q) (length (out @ q)) (tl s))
          else token_loop trm (out @ [c]) e r)"
  by pat_completeness auto
termination
proof (relation "measure (\<lambda>(trm, out, e, p). length p)", goal_cases)
  case (4 trm out e p c r q s)
  then have "length s \<le> length r" by (simp add: length_dropWhile_le)
  with 4 show ?case by simp
qed auto

declare token_loop.simps [simp del]

definition av_get_token :: "string \<Rightarrow> string \<Rightarrow> string \<times> string" where
  "av_get_token buf trm =
     (let p = dropWhile (\<lambda>x. x \<in> set WHITESPACES) buf;
          (out, e, p) = token_loop trm [] 0 p
      in (take e out @ rev (dropWhile (\<lambda>x. x \<in> set WHITESPACES) (rev (drop e out))), p))"

datatype AVEscapeMode = AV_ESCAPE_MODE_AUTO | AV_ESCAPE_MODE_BACKSLASH | AV_ESCAPE_MODE_QUOTE | AV_ESCAPE_MODE_XML

datatype escape_flag =
    AV_ESCAPE_FLAG_WHITESPACE | AV_ESCAPE_FLAG_STRICT
  | AV_ESCAPE_FLAG_XML_SINGLE_QUOTES | AV_ESCAPE_FLAG_XML_DOUBLE_QUOTES

fun escape_backslash :: "escape_flag set \<Rightarrow> string \<Rightarrow> bool \<Rightarrow> string \<Rightarrow> string" where
  "escape_backslash fl special first [] = []"
| "escape_backslash fl special first (c # s) =
     (let is_first_last = (first \<or> s = []); is_ws = (c \<in> set WHITESPACES);
          strictly = (c \<in> set special);
          is_special = (strictly \<or> c = quote \<or> c = backslash \<or> is_ws \<and> AV_ESCAPE_FLAG_WHITESPACE \<in> fl)
      in (if strictly \<or> AV_ESCAPE_FLAG_STRICT \<notin> fl \<and> (is_special \<or> is_ws \<and> is_first_last)
          then [backslash, c] else [c]) @ escape_backslash fl special False s)"

definition escape_quote :: "string \<Rightarrow> string" where
  "escape_quote s =
     quote # concat (map (\<lambda>c. if c = quote then [quote, backslash, quote, quote] else [c]) s) @ [quote]"

definition escape_xml :: "escape_flag set \<Rightarrow> char \<Rightarrow> string" where
  "escape_xml fl c =
     (if c = CHR ''&'' then ''&amp;'' else if c = CHR ''<'' then ''&lt;''
      else if c = CHR ''>'' then ''&gt;''
      else if c = quote \<and> AV_ESCAPE_FLAG_XML_SINGLE_QUOTES \<in> fl then ''&apos;''
      else if c = CHR 0x22 \<and> AV_ESCAPE_FLAG_XML_DOUBLE_QUOTES \<in> fl then ''&quot;''
      else [c])"

definition av_bprint_escape :: "string \<Rightarrow> string \<Rightarrow> AVEscapeMode \<Rightarrow> escape_flag set \<Rightarrow> string" where
  "av_bprint_escape src special mode fl =
     (case mode of
        AV_ESCAPE_MODE_QUOTE \<Rightarrow> escape_quote src
      | AV_ESCAPE_MODE_XML \<Rightarrow> concat (map (escape_xml fl) src)
      | _ \<Rightarrow> escape_backslash fl special True src)"

text \<open>One pair, parsed from the front of the text and stored.\<close>

definition parse_key_value_pair :: "bool \<Rightarrow> dict \<Rightarrow> string \<Rightarrow> string \<Rightarrow> string \<Rightarrow> dict_flag set
    \<Rightarrow> int res \<times> dict \<times> string" where
  "parse_key_value_pair mem m buf key_val_sep pairs_sep fl =
     (let (key, buf) = av_get_token buf key_val_sep;
          (val, buf) = (if key \<noteq> [] \<and> buf \<noteq> [] \<and> hd buf \<in> set key_val_sep
                        then av_get_token (tl buf) pairs_sep else ([], buf))
      in if key \<noteq> [] \<and> val \<noteq> []
         then (let (ret, m) = av_dict_set mem m (Some key) (Some val) fl in (ret, m, buf))
         else (Err EINVAL, m, buf))"

lemma token_loop_rest: "length (snd (snd (token_loop trm out e p))) \<le> length p"
proof (induction trm out e p rule: token_loop.induct)
  case (1 trm out e p)
  show ?case
  proof (cases p)
    case Nil
    then show ?thesis by (subst token_loop.simps) simp
  next
    case (Cons c r)
    let ?s = "dropWhile (\<lambda>x. x \<noteq> quote) r"
    have s: "length ?s \<le> length r" by (rule length_dropWhile_le)
    consider "c \<in> set trm" | "c \<notin> set trm" "c = backslash \<and> r \<noteq> []"
      | "c \<notin> set trm" "\<not> (c = backslash \<and> r \<noteq> [])" "c = quote" "?s = []"
      | "c \<notin> set trm" "\<not> (c = backslash \<and> r \<noteq> [])" "c = quote" "?s \<noteq> []"
      | "c \<notin> set trm" "\<not> (c = backslash \<and> r \<noteq> [])" "c \<noteq> quote"
      by blast
    then show ?thesis
    proof cases
      case 1
      with Cons show ?thesis by (subst token_loop.simps) simp
    next
      case 2
      have "length (snd (snd (token_loop trm (out @ [hd r]) (length out + 1) (tl r)))) \<le> length (tl r)"
        by (rule "1.IH"(1) [OF Cons 2])
      with 2 Cons show ?thesis by (subst token_loop.simps) simp
    next
      case 3
      have "length (snd (snd (token_loop trm (out @ takeWhile (\<lambda>x. x \<noteq> quote) r) e []))) \<le> length ([] :: string)"
        by (rule "1.IH"(2) [OF Cons 3(1,2,3) refl refl 3(4)])
      with 3 Cons show ?thesis by (subst token_loop.simps) (simp only: list.case simp_thms if_False if_True Let_def, simp)
    next
      case 4
      let ?o = "out @ takeWhile (\<lambda>x. x \<noteq> quote) r"
      have "length (snd (snd (token_loop trm ?o (length ?o) (tl ?s)))) \<le> length (tl ?s)"
        by (rule "1.IH"(3) [OF Cons 4(1,2,3) refl refl 4(4)])
      with s have "length (snd (snd (token_loop trm ?o (length ?o) (tl ?s)))) \<le> length p"
        by (simp add: Cons)
      with 4 Cons show ?thesis by (subst token_loop.simps) (simp only: list.case simp_thms if_False if_True Let_def)
    next
      case 5
      have "length (snd (snd (token_loop trm (out @ [c]) e r))) \<le> length r"
        by (rule "1.IH"(4) [OF Cons 5])
      with 5 Cons show ?thesis by (subst token_loop.simps) auto
    qed
  qed
qed

lemma get_token_rest: "length (snd (av_get_token buf trm)) \<le> length buf"
  using token_loop_rest [of trm "[]" 0 "dropWhile (\<lambda>x. x \<in> set WHITESPACES) buf"]
    length_dropWhile_le [of "\<lambda>x. x \<in> set WHITESPACES" buf]
  by (simp add: av_get_token_def Let_def case_prod_beta)

lemma parse_pair_rest:
  assumes "parse_key_value_pair mem m buf ks ps fl = (Ok n, m', buf')"
  shows "length buf' < length buf"
proof -
  let ?k = "av_get_token buf ks"
  from assms have k: "snd ?k \<noteq> []" and b: "buf' = snd (av_get_token (tl (snd ?k)) ps)"
    by (auto simp: parse_key_value_pair_def Let_def case_prod_beta split: if_splits)
  have "length buf' \<le> length (tl (snd ?k))" unfolding b by (rule get_token_rest)
  also have "\<dots> < length (snd ?k)" using k by simp
  also have "\<dots> \<le> length buf" by (rule get_token_rest)
  finally show ?thesis .
qed

function av_dict_parse_string :: "bool \<Rightarrow> dict \<Rightarrow> string option \<Rightarrow> string \<Rightarrow> string \<Rightarrow> dict_flag set
    \<Rightarrow> int res \<times> dict" where
  "av_dict_parse_string mem m str key_val_sep pairs_sep fl =
     (case str of None \<Rightarrow> (Ok 0, m) | Some [] \<Rightarrow> (Ok 0, m)
      | Some str \<Rightarrow>
          (case parse_key_value_pair mem m str key_val_sep pairs_sep fl of
             (Inl e, m, _) \<Rightarrow> (Err e, m)
           | (Inr _, m, str) \<Rightarrow> av_dict_parse_string mem m (Some (tl str)) key_val_sep pairs_sep fl))"
  by pat_completeness auto
termination
proof (relation "measure (\<lambda>(mem, m, str, ks, ps, fl). case str of None \<Rightarrow> 0 | Some s \<Rightarrow> length s)", goal_cases)
  case (2 mem m str ks ps fl s c r p)
  then show ?case by (cases p) (auto dest!: parse_pair_rest [OF sym])
qed simp

declare av_dict_parse_string.simps [simp del]

text \<open>The separators are characters, 0 for none.\<close>

definition av_dict_get_string :: "dict \<Rightarrow> char \<Rightarrow> char \<Rightarrow> string res" where
  "av_dict_get_string m key_val_sep pairs_sep =
     (if pairs_sep = CHR 0x00 \<or> key_val_sep = CHR 0x00 \<or> pairs_sep = key_val_sep
         \<or> pairs_sep = backslash \<or> key_val_sep = backslash then Err EINVAL
      else let esc = (\<lambda>s. av_bprint_escape s [pairs_sep, key_val_sep] AV_ESCAPE_MODE_BACKSLASH {})
           in Ok (concat (map (\<lambda>i. (if i = 0 then [] else [pairs_sep])
                @ esc (fst (m ! i)) @ [key_val_sep] @ esc (snd (m ! i))) [0..<length m])))"

section \<open>Laws of lookup and update\<close>

text \<open>Keys are compared without regard to case.\<close>

definition fold_case :: "string \<Rightarrow> string" where
  "fold_case = map av_toupper"

definition unique_keys :: "dict \<Rightarrow> bool" where
  "unique_keys m \<longleftrightarrow> distinct (map (fold_case \<circ> fst) m)"

definition lookup :: "dict \<Rightarrow> string \<Rightarrow> string option" where
  "lookup m k = map_option (\<lambda>i. snd (m ! i)) (av_dict_get m k None {})"

definition put :: "string \<Rightarrow> string \<Rightarrow> dict \<Rightarrow> dict" where
  "put k v m = snd (av_dict_set True m (Some k) (Some v) {})"

lemma key_matches_fold: "key_matches {} k s \<longleftrightarrow> fold_case s = fold_case k"
  by (induction "{} :: dict_flag set" k s rule: key_matches.induct) (auto simp: fold_case_def)

text \<open>The search finds the first entry from its start on.\<close>

lemma get_first:
  "av_dict_get m k prev {} =
     (let s = (case prev of None \<Rightarrow> 0 | Some p \<Rightarrow> p + 1)
      in find (\<lambda>i. fold_case (fst (m ! i)) = fold_case k) [s..<length m])"
proof (induction m k prev "{} :: dict_flag set" rule: av_dict_get.induct)
  case (1 m k prev)
  let ?s = "case prev of None \<Rightarrow> 0 | Some p \<Rightarrow> p + 1"
  show ?case
  proof (cases "?s < length m")
    case True
    then have it: "av_dict_iterate m prev = Some ?s"
      by (simp add: av_dict_iterate_def av_dict_count_def Let_def)
    with 1 have IH: "\<not> key_matches {} k (fst (m ! ?s)) \<Longrightarrow>
        av_dict_get m k (Some ?s) {} = find (\<lambda>i. fold_case (fst (m ! i)) = fold_case k) [Suc ?s..<length m]"
      by (simp add: Let_def)
    show ?thesis
      using IH True by (subst av_dict_get.simps) (simp add: it key_matches_fold upt_conv_Cons Let_def)
  next
    case False
    then have "av_dict_iterate m prev = None"
      by (simp add: av_dict_iterate_def av_dict_count_def Let_def)
    with False show ?thesis by (subst av_dict_get.simps) (simp add: Let_def)
  qed
qed

lemma find_upt_Cons: "find P [Suc 0..<Suc n] = map_option Suc (find (P \<circ> Suc) [0..<n])"
proof -
  have "[Suc 0..<Suc n] = map Suc [0..<n]" by (simp add: map_Suc_upt)
  moreover have "find P (map f xs) = map_option f (find (P \<circ> f) xs)" for f :: "nat \<Rightarrow> nat" and xs
    by (induction xs) simp_all
  ultimately show ?thesis by simp
qed

lemma lookup_map_of: "lookup m k = map_of (map (\<lambda>(a, b). (fold_case a, b)) m) (fold_case k)"
proof -
  have "map_option (\<lambda>i. snd (m ! i)) (find (\<lambda>i. fold_case (fst (m ! i)) = fold_case k) [0..<length m])
      = map_of (map (\<lambda>(a, b). (fold_case a, b)) m) (fold_case k)"
  proof (induction m)
    case (Cons x m)
    have "find (\<lambda>i. fold_case (fst ((x # m) ! i)) = fold_case k) [0..<length (x # m)]
        = (if fold_case (fst x) = fold_case k then Some 0
           else map_option Suc (find (\<lambda>i. fold_case (fst (m ! i)) = fold_case k) [0..<length m]))"
      using find_upt_Cons [of "\<lambda>i. fold_case (fst ((x # m) ! i)) = fold_case k" "length m"]
      by (simp add: upt_conv_Cons comp_def del: upt_Suc)
    with Cons show ?case by (cases x) (simp add: option.map_comp comp_def del: upt_Suc)
  qed simp
  then show ?thesis by (simp add: lookup_def get_first)
qed

lemma swap_remove_mset:
  assumes "i < length xs"
  shows "add_mset (xs ! i) (mset (swap_remove i xs)) = mset xs"
proof -
  from assms obtain ys z where xs: "xs = ys @ [z]" by (cases xs rule: rev_cases) auto
  show ?thesis
  proof (cases "i < length ys")
    case True
    then have "swap_remove i xs = ys[i := z]" by (simp add: swap_remove_def xs list_update_append)
    with True show ?thesis by (simp add: xs nth_append mset_update)
  next
    case False
    with assms have "i = length ys" by (simp add: xs)
    then show ?thesis by (simp add: swap_remove_def xs list_update_append)
  qed
qed

text \<open>The contract of a table with last-write-wins semantics, with keys up to an equivalence.\<close>

locale table =
  fixes look :: "'m \<Rightarrow> 'k \<Rightarrow> 'v option"
    and store :: "'k \<Rightarrow> 'v \<Rightarrow> 'm \<Rightarrow> 'm"
    and norm :: "'k \<Rightarrow> 'n"
    and good :: "'m \<Rightarrow> bool"
  assumes look_store: "good m \<Longrightarrow> look (store k v m) k' = (if norm k' = norm k then Some v else look m k')"
    and good_store: "good m \<Longrightarrow> good (store k v m)"
begin

lemma good_stores: "good m \<Longrightarrow> good (fold (\<lambda>(k, v). store k v) kvs m)"
  by (induction kvs arbitrary: m) (auto intro: good_store)

lemma look_stores:
  "good m \<Longrightarrow> look (fold (\<lambda>(k, v). store k v) kvs m) k
     = (case map_of (rev (map (\<lambda>(a, b). (norm a, b)) kvs)) (norm k) of None \<Rightarrow> look m k | Some v \<Rightarrow> Some v)"
proof (induction kvs arbitrary: m)
  case (Cons x kvs)
  then show ?case
    by (cases x) (auto simp: good_store look_store map_add_def map_of_append split: option.split)
qed simp

end

lemma put_cases:
  "put k v m = (case av_dict_get m k None {} of None \<Rightarrow> m @ [(k, v)] | Some i \<Rightarrow> swap_remove i m @ [(k, v)])"
  by (simp add: put_def av_dict_set_def Let_def split: option.split)

lemma get_found: "av_dict_get m k None {} = Some i \<Longrightarrow> i < length m \<and> fold_case (fst (m ! i)) = fold_case k"
  by (auto simp: get_first find_Some_iff)

lemma map_of_unique:
  assumes "unique_keys m"
  shows "lookup m k = Some v \<longleftrightarrow> (\<exists>a. (a, v) \<in> set m \<and> fold_case a = fold_case k)"
proof -
  have "map fst (map (\<lambda>(a, b). (fold_case a, b)) m) = map (fold_case \<circ> fst) m" by (induction m) auto
  then have "distinct (map fst (map (\<lambda>(a, b). (fold_case a, b)) m))"
    using assms unfolding unique_keys_def by (simp only:)
  then show ?thesis
    unfolding lookup_map_of by (subst map_of_eq_Some_iff) force+
qed

lemma put_props:
  assumes "unique_keys m"
  shows "unique_keys (put k v m) \<and> (\<forall>k'. lookup (put k v m) k' = (if fold_case k' = fold_case k then Some v else lookup m k'))"
proof -
  let ?f = "fold_case \<circ> fst"
  obtain r where r: "put k v m = r @ [(k, v)]" and u: "unique_keys r" and no: "fold_case k \<notin> ?f ` set r"
    and same: "\<And>a b. fold_case a \<noteq> fold_case k \<Longrightarrow> (a, b) \<in> set r \<longleftrightarrow> (a, b) \<in> set m"
  proof (cases "av_dict_get m k None {}")
    case None
    then have "find (\<lambda>i. fold_case (fst (m ! i)) = fold_case k) [0..<length m] = None" by (simp add: get_first)
    then have "\<forall>i < length m. ?f (m ! i) \<noteq> fold_case k" by (auto simp: find_None_iff)
    then have "\<forall>x \<in> set m. ?f x \<noteq> fold_case k" by (simp add: all_set_conv_all_nth)
    then have "fold_case k \<notin> ?f ` set m" by auto
    with None assms that [of m] show ?thesis by (simp add: put_cases)
  next
    case (Some i)
    then have i: "i < length m" "?f (m ! i) = fold_case k" by (auto dest: get_found)
    let ?r = "swap_remove i m"
    have ms: "add_mset (m ! i) (mset ?r) = mset m" by (rule swap_remove_mset) (rule i)
    then have "mset (map ?f (m ! i # ?r)) = mset (map ?f m)" by (metis mset.simps(2) mset_map)
    then have d: "distinct (map ?f (m ! i # ?r))"
      using assms unfolding unique_keys_def by (metis mset_eq_imp_distinct_iff)
    have s: "set m = insert (m ! i) (set ?r)" using ms by (metis set_mset_add_mset_insert set_mset_mset)
    show ?thesis
    proof (rule that [of ?r])
      show "put k v m = ?r @ [(k, v)]" by (simp add: put_cases Some)
      show "unique_keys ?r" using d by (simp add: unique_keys_def)
      show "fold_case k \<notin> ?f ` set ?r" using d i by simp
      show "(a, b) \<in> set ?r \<longleftrightarrow> (a, b) \<in> set m" if "fold_case a \<noteq> fold_case k" for a b
        using that i(2) s by (metis comp_apply fst_conv insert_iff)
    qed
  qed
  have u': "unique_keys (put k v m)" using u no by (auto simp: unique_keys_def r)
  have "lookup (put k v m) k' = (if fold_case k' = fold_case k then Some v else lookup m k')" for k'
  proof (cases "fold_case k' = fold_case k")
    case True
    then have "lookup (put k v m) k' = Some v" using map_of_unique [OF u'] r by auto
    with True show ?thesis by simp
  next
    case False
    have "lookup (put k v m) k' = Some x \<longleftrightarrow> lookup m k' = Some x" for x
    proof -
      have "lookup (put k v m) k' = Some x \<longleftrightarrow> (\<exists>a. (a, x) \<in> set r \<and> fold_case a = fold_case k')"
        unfolding map_of_unique [OF u'] using False by (auto simp: r)
      also have "\<dots> \<longleftrightarrow> (\<exists>a. (a, x) \<in> set m \<and> fold_case a = fold_case k')"
        using same False by metis
      finally show ?thesis by (simp add: map_of_unique [OF assms])
    qed
    then have "lookup (put k v m) k' = lookup m k'" by (metis not_Some_eq)
    with False show ?thesis by simp
  qed
  with u' show ?thesis by blast
qed

interpretation dict: table lookup put fold_case unique_keys
  by unfold_locales (simp_all add: put_props)

section \<open>Round trip\<close>

lemma token_loop_escape:
  assumes "set trm \<subseteq> set sp" "backslash \<notin> set trm" "rest = [] \<or> hd rest \<in> set trm"
  shows "\<exists>e'. token_loop trm out e (escape_backslash {} sp first s @ rest) = (out @ s, e', rest)
      \<and> (s = [] \<and> e' = e \<or> s \<noteq> [] \<and> (e' = length (out @ s) \<or> last s \<notin> set WHITESPACES \<and> (e' = e \<or> e' \<le> length (out @ s))))"
proof (induction s arbitrary: out e first)
  case Nil
  have "token_loop trm out e rest = (out, e, rest)"
    using assms(3) by (cases rest) (subst token_loop.simps, simp)+
  then show ?case by simp
next
  case (Cons c s)
  let ?t = "escape_backslash {} sp False s @ rest"
  have bs: "backslash \<noteq> quote" by (simp add: backslash_def quote_def)
  show ?case
  proof (cases "c \<in> set sp \<or> c = quote \<or> c = backslash \<or> c \<in> set WHITESPACES \<and> (first \<or> s = [])")
    case True
    then have "token_loop trm out e (escape_backslash {} sp first (c # s) @ rest)
        = token_loop trm (out @ [c]) (length out + 1) ?t"
      using assms(2) by (subst token_loop.simps) (auto simp: Let_def)
    moreover from Cons.IH [of "out @ [c]" "length out + 1" False] obtain e' where
      "token_loop trm (out @ [c]) (length out + 1) ?t = ((out @ [c]) @ s, e', rest)"
      "s = [] \<and> e' = length out + 1 \<or> s \<noteq> [] \<and> (e' = length ((out @ [c]) @ s)
        \<or> last s \<notin> set WHITESPACES \<and> (e' = length out + 1 \<or> e' \<le> length ((out @ [c]) @ s)))" by blast
    ultimately show ?thesis by (intro exI [of _ e']) auto
  next
    case False
    then have "c \<notin> set trm" using assms(1) by blast
    with False have "token_loop trm out e (escape_backslash {} sp first (c # s) @ rest)
        = token_loop trm (out @ [c]) e ?t"
      by (subst token_loop.simps) (auto simp: Let_def)
    moreover from Cons.IH [of "out @ [c]" e False] obtain e' where
      "token_loop trm (out @ [c]) e ?t = ((out @ [c]) @ s, e', rest)"
      "s = [] \<and> e' = e \<or> s \<noteq> [] \<and> (e' = length ((out @ [c]) @ s)
        \<or> last s \<notin> set WHITESPACES \<and> (e' = e \<or> e' \<le> length ((out @ [c]) @ s)))" by blast
    moreover from False have "s = [] \<Longrightarrow> c \<notin> set WHITESPACES" by blast
    ultimately show ?thesis by (intro exI [of _ e']) auto
  qed
qed

lemma get_token_escape:
  assumes "set trm \<subseteq> set sp" "backslash \<notin> set trm" "rest = [] \<or> hd rest \<in> set trm" "s \<noteq> []"
  shows "av_get_token (escape_backslash {} sp True s @ rest) trm = (s, rest)"
proof -
  let ?ws = "\<lambda>x. x \<in> set WHITESPACES"
  have "\<not> ?ws backslash" by (simp add: WHITESPACES_def backslash_def)
  then have skip: "dropWhile ?ws (escape_backslash {} sp True s @ rest) = escape_backslash {} sp True s @ rest"
    using assms(4) by (cases s) (auto simp: Let_def)
  obtain e where t: "token_loop trm [] 0 (escape_backslash {} sp True s @ rest) = (s, e, rest)"
    and e: "e = length s \<or> \<not> ?ws (last s) \<and> (e = 0 \<or> e \<le> length s)"
    using token_loop_escape [OF assms(1,2,3), of "[]" 0 True s] assms(4) by auto
  have "take e s @ rev (dropWhile ?ws (rev (drop e s))) = s"
  proof (cases "drop e s = []")
    case False
    with e have "\<not> ?ws (last s)" by auto
    then have "\<not> ?ws (hd (rev (drop e s)))" using False by (simp add: hd_rev last_drop)
    then have "dropWhile ?ws (rev (drop e s)) = rev (drop e s)"
      by (cases "rev (drop e s)") simp_all
    then show ?thesis by simp
  qed simp
  then show ?thesis by (simp add: av_get_token_def skip t)
qed

lemma set_new:
  assumes "fold_case k \<notin> (fold_case \<circ> fst) ` set m"
  shows "av_dict_set True m (Some k) (Some v) {} = (Ok 0, m @ [(k, v)])"
proof -
  have "fold_case (fst (m ! i)) \<noteq> fold_case k" if "i < length m" for i
    using assms nth_mem [OF that] by (metis comp_apply image_eqI)
  then have "av_dict_get m k None {} = None" by (simp add: get_first find_None_iff)
  then show ?thesis by (simp add: av_dict_set_def)
qed

text \<open>The text of a list of entries.\<close>

fun entries_text :: "char \<Rightarrow> char \<Rightarrow> dict \<Rightarrow> string" where
  "entries_text kv ps [] = []"
| "entries_text kv ps [(k, v)] =
     escape_backslash {} [ps, kv] True k @ kv # escape_backslash {} [ps, kv] True v"
| "entries_text kv ps ((k, v) # m) =
     escape_backslash {} [ps, kv] True k @ kv # escape_backslash {} [ps, kv] True v @ ps # entries_text kv ps m"

lemma get_string_text:
  assumes "ps \<noteq> CHR 0x00" "kv \<noteq> CHR 0x00" "ps \<noteq> kv" "ps \<noteq> backslash" "kv \<noteq> backslash"
  shows "av_dict_get_string m kv ps = Ok (entries_text kv ps m)"
proof -
  let ?e = "escape_backslash {} [ps, kv] True"
  have body: "concat (map (\<lambda>x. ps # ?e (fst x) @ kv # ?e (snd x)) m)
      = (if m = [] then [] else ps # entries_text kv ps m)" for m
    by (induction kv ps m rule: entries_text.induct) auto
  have "concat (map (\<lambda>i. (if i = 0 then [] else [ps]) @ ?e (fst (m ! i)) @ [kv] @ ?e (snd (m ! i))) [0..<length m])
      = entries_text kv ps m"
  proof (cases m)
    case (Cons x m')
    have "map (\<lambda>i. (if i = 0 then [] else [ps]) @ ?e (fst (m ! i)) @ [kv] @ ?e (snd (m ! i))) [Suc 0..<length m]
        = map (\<lambda>x. ps # ?e (fst x) @ kv # ?e (snd x)) m'"
      by (rule nth_equalityI) (simp_all add: Cons del: upt_Suc)
    with body [of m'] Cons show ?thesis by (cases x; cases m') (simp_all add: upt_conv_Cons del: upt_Suc)
  qed simp
  with assms show ?thesis by (simp add: av_dict_get_string_def av_bprint_escape_def Let_def)
qed

lemma escape_nonempty: "s \<noteq> [] \<Longrightarrow> escape_backslash fl sp f s \<noteq> []"
  by (cases s) (auto simp: Let_def)

lemma parse_pair:
  assumes "ps \<noteq> kv" "ps \<noteq> backslash" "kv \<noteq> backslash" "k \<noteq> []" "v \<noteq> []" "rest = [] \<or> hd rest = ps"
    and "fold_case k \<notin> (fold_case \<circ> fst) ` set m"
  shows "parse_key_value_pair True m (escape_backslash {} [ps, kv] True k
      @ kv # escape_backslash {} [ps, kv] True v @ rest) [kv] [ps] {} = (Ok 0, m @ [(k, v)], rest)"
proof -
  let ?e = "escape_backslash {} [ps, kv] True"
  have "av_get_token (?e k @ kv # ?e v @ rest) [kv] = (k, kv # ?e v @ rest)"
    by (rule get_token_escape) (use assms in auto)
  moreover have "av_get_token (?e v @ rest) [ps] = (v, rest)"
    by (rule get_token_escape) (use assms in auto)
  ultimately show ?thesis
    using assms(4,5) by (simp add: parse_key_value_pair_def set_new [OF assms(7)])
qed

lemma parse_step:
  assumes "str \<noteq> []" "parse_key_value_pair mem m str ks ps fl = (Ok n, m', rest)"
  shows "av_dict_parse_string mem m (Some str) ks ps fl = av_dict_parse_string mem m' (Some (tl rest)) ks ps fl"
  using assms by (cases str) (subst av_dict_parse_string.simps, simp)+

lemma parse_done: "av_dict_parse_string mem m (Some []) ks ps fl = (Ok 0, m)"
  by (subst av_dict_parse_string.simps) simp

lemma parse_entries:
  assumes "ps \<noteq> kv" "ps \<noteq> backslash" "kv \<noteq> backslash"
    and "\<forall>(k, v) \<in> set m. k \<noteq> [] \<and> v \<noteq> []" "unique_keys (m0 @ m)"
  shows "av_dict_parse_string True m0 (Some (entries_text kv ps m)) [kv] [ps] {} = (Ok 0, m0 @ m)"
  using assms
proof (induction kv ps m arbitrary: m0 rule: entries_text.induct)
  case (1 kv ps)
  then show ?case by (simp add: parse_done)
next
  case (2 kv ps k v)
  have "parse_key_value_pair True m0 (escape_backslash {} [ps, kv] True k
      @ kv # escape_backslash {} [ps, kv] True v @ []) [kv] [ps] {} = (Ok 0, m0 @ [(k, v)], [])"
    by (rule parse_pair) (use 2 in \<open>auto simp: unique_keys_def\<close>)
  then have "parse_key_value_pair True m0 (entries_text kv ps [(k, v)]) [kv] [ps] {} = (Ok 0, m0 @ [(k, v)], [])"
    by simp
  from parse_step [OF _ this] show ?case by (simp add: parse_done)
next
  case (3 kv ps k v x m)
  have "parse_key_value_pair True m0 (escape_backslash {} [ps, kv] True k
      @ kv # escape_backslash {} [ps, kv] True v @ ps # entries_text kv ps (x # m)) [kv] [ps] {}
    = (Ok 0, m0 @ [(k, v)], ps # entries_text kv ps (x # m))"
    by (rule parse_pair) (use 3 in \<open>auto simp: unique_keys_def\<close>)
  then have "parse_key_value_pair True m0 (entries_text kv ps ((k, v) # x # m)) [kv] [ps] {}
    = (Ok 0, m0 @ [(k, v)], ps # entries_text kv ps (x # m))"
    by simp
  from parse_step [OF _ this]
  have "av_dict_parse_string True m0 (Some (entries_text kv ps ((k, v) # x # m))) [kv] [ps] {}
      = av_dict_parse_string True (m0 @ [(k, v)]) (Some (entries_text kv ps (x # m))) [kv] [ps] {}"
    by simp
  also have "\<dots> = (Ok 0, (m0 @ [(k, v)]) @ x # m)"
    by (rule "3.IH") (use 3 in auto)
  finally show ?case by simp
qed

section \<open>Properties\<close>

text \<open>A dictionary whose keys differ in more than case behaves as a map from keys to values under
  any sequence of settings: what was set last is found, and the keys stay unique.\<close>

theorem dict_last_write_wins:
  assumes "unique_keys m"
  shows "unique_keys (fold (\<lambda>(k, v). put k v) kvs m)
    \<and> lookup (fold (\<lambda>(k, v). put k v) kvs m) k
        = (case map_of (rev (map (\<lambda>(a, b). (fold_case a, b)) kvs)) (fold_case k) of
             None \<Rightarrow> lookup m k | Some v \<Rightarrow> Some v)"
  using dict.good_stores [OF assms] dict.look_stores [OF assms] by blast

theorem dict_last_write_wins_witness:
  "lookup (put ''URL'' ''c'' (put ''a'' ''b'' [(''url'', ''d'')])) ''Url'' = Some ''c''"
proof -
  have "fold_case ''url'' = ''URL''" "fold_case ''Url'' = ''URL''" "fold_case ''URL'' = ''URL''" "fold_case ''a'' = ''A''"
    by code_simp+
  with dict_last_write_wins [of "[(''url'', ''d'')]" "[(''a'', ''b''), (''URL'', ''c'')]" "''Url''"]
  show ?thesis by (simp add: unique_keys_def)
qed



end
