(* ===== verification/RtpDec.thy ===== *)
theory RtpDec
  imports Srtp NalScan Rescale Dict
begin

text \<open>
  \<^verbatim>\<open>libavformat/rtpdec.c\<close>: the receiving side of RTP. The context of a stream with its
  statistics, the queue in which packets that came early wait, the parsing of a packet down to the
  payload handler, the RTCP reports it sends and reads, the timestamps it makes, and the fetching
  of missing packets over HTTP. A stream always has its \<open>AVStream\<close>.
\<close>

section \<open>State\<close>

record RTPStatistics =
  max_seq :: u16
  cycles :: u32
  base_seq :: u32
  bad_seq :: u32
  probation :: nat
  received :: u32
  expected_prior :: u32
  received_prior :: u32
  transit :: u32
  jitter :: u32

record RTPPacket =
  p_seq :: u16
  p_buf :: bytes
  recvtime :: int

text \<open>The packet put out: with the reference time of the producer, wall clock and flags.\<close>

record RTPOutput = AVPacket +
  pkt_prft :: "(int \<times> int) option"

text \<open>
  The payload handler of a codec, over its private context \<open>'p\<close>. \<open>parse_packet\<close> gets the packet to
  fill, the timestamp, the payload (\<open>None\<close>: return what is left of the last payload), the sequence
  number and the marker bit.
\<close>

record 'p RTPDynamicProtocolHandler =
  enc_name :: string
  h_codec_type :: AVMediaType
  h_codec_id :: AVCodecID
  static_payload_id :: int
  parse_packet :: "('p \<Rightarrow> rtp_stream \<Rightarrow> RTPOutput \<Rightarrow> u32 \<Rightarrow> bytes option \<Rightarrow> u16 \<Rightarrow> bool
     \<Rightarrow> nat res \<times> RTPOutput \<times> u32 \<times> 'p) option"
  need_keyframe :: "('p \<Rightarrow> bool) option"

text \<open>\<open>lib_calls\<close> counts the calls of library functions (clock, allocator): the answer to call number \<open>n\<close>
  is \<open>L n\<close>, with \<open>L\<close> a parameter. \<open>ic_nb_streams\<close> and \<open>ic_metadata\<close> are fields of \<open>s->ic\<close>.\<close>

record 'p RTPDemuxContext =
  lib_calls :: nat
  ic_nb_streams :: nat
  ic_metadata :: dict
  st :: rtp_stream
  payload_type :: int
  ssrc :: u32
  seq :: u16
  timestamp :: u32
  base_timestamp :: u32
  unwrapped_timestamp :: int
  range_start_offset :: int
  hostname :: bytes
  srtp_enabled :: bool
  srtp :: SRTPContext
  statistics :: RTPStatistics
  prev_ret :: "nat res"
  queue :: "RTPPacket list"
  queue_len :: int
  queue_size :: int
  last_rtcp_ntp_time :: u64
  last_rtcp_reception_time :: int
  first_rtcp_ntp_time :: u64
  last_rtcp_timestamp :: u32
  rtcp_ts_offset :: int
  octet_count :: u32
  last_octet_count :: u32
  last_feedback_time :: int
  handler :: "'p RTPDynamicProtocolHandler option"
  dynamic_protocol_context :: 'p
  repair_rtp_pkt_url :: "string option"
  last_repair_time :: int
  repair_attempts :: int
  repair_successes :: int

type_synonym lib = "nat \<Rightarrow> int"

definition lib_call :: "lib \<Rightarrow> 'p RTPDemuxContext \<Rightarrow> int \<times> 'p RTPDemuxContext" where
  "lib_call L s = (L (lib_calls s), s\<lparr>lib_calls := lib_calls s + 1\<rparr>)"

definition RTP_MAX_PACKET_LENGTH :: nat where "RTP_MAX_PACKET_LENGTH = 8192"
definition RTP_NOTS_VALUE :: u32 where "RTP_NOTS_VALUE = - 1"
definition MIN_FEEDBACK_INTERVAL :: int where "MIN_FEEDBACK_INTERVAL = 200000"
definition NOPTS_U64 :: u64 where "NOPTS_U64 = word_of_int AV_NOPTS_VALUE"

section \<open>Sender reports\<close>

definition rtcp_sender_report :: "lib \<Rightarrow> bytes \<Rightarrow> 'p RTPDemuxContext \<Rightarrow> 'p RTPDemuxContext" where
  "rtcp_sender_report L buf s =
     (let (now, s) = lib_call L s;
          s = s\<lparr>last_rtcp_reception_time := now, last_rtcp_ntp_time := AV_RB64 buf 8,
                last_rtcp_timestamp := AV_RB32 buf 16\<rparr>
      in if first_rtcp_ntp_time s = NOPTS_U64 then
           let s = s\<lparr>first_rtcp_ntp_time := last_rtcp_ntp_time s\<rparr>;
               s = (if base_timestamp s = 0 then s\<lparr>base_timestamp := last_rtcp_timestamp s\<rparr> else s)
           in s\<lparr>rtcp_ts_offset := sint (last_rtcp_timestamp s - base_timestamp s)\<rparr>
         else s)"

function rtcp_parse_packet :: "lib \<Rightarrow> bytes \<Rightarrow> 'p RTPDemuxContext \<Rightarrow> nat res \<times> 'p RTPDemuxContext" where
  "rtcp_parse_packet L buf s =
     (if length buf < 4 then (Err Minus_one, s)
      else
        let payload_len = min (length buf) ((unat (AV_RB16 buf 2) + 1) * 4)
        in if buf ! 1 = RTCP_SR then
             if payload_len < 20 then (Err AVERROR_INVALIDDATA, s)
             else rtcp_parse_packet L (drop payload_len buf) (rtcp_sender_report L buf s)
           else if buf ! 1 = RTCP_BYE then (Err (Lib_error (- 203)), s)
           else rtcp_parse_packet L (drop payload_len buf) s)"
  by pat_completeness auto
termination
  by (relation "measure (\<lambda>(L, buf, s). length buf)") (auto simp: min_def)

declare rtcp_parse_packet.simps [simp del]

section \<open>Statistics\<close>

definition rtp_init_statistics :: "u16 \<Rightarrow> RTPStatistics" where
  "rtp_init_statistics base_sequence =
     \<lparr>max_seq = base_sequence, cycles = 0, base_seq = 0, bad_seq = 0, probation = 1, received = 0,
      expected_prior = 0, received_prior = 0, transit = 0, jitter = 0\<rparr>"

definition rtp_init_sequence :: "u16 \<Rightarrow> RTPStatistics \<Rightarrow> RTPStatistics" where
  "rtp_init_sequence sq s =
     s\<lparr>max_seq := sq, cycles := 0, base_seq := ucast sq - 1, bad_seq := 65537, received := 0,
       expected_prior := 0, received_prior := 0, jitter := 0, transit := 0\<rparr>"

definition rtp_valid_packet_in_sequence :: "u16 \<Rightarrow> RTPStatistics \<Rightarrow> bool \<times> RTPStatistics" where
  "rtp_valid_packet_in_sequence sq s =
     (let udelta = sq - max_seq s; ok = (\<lambda>s. (True, s\<lparr>received := received s + 1\<rparr>))
      in if probation s \<noteq> 0 then
           if uint sq = uint (max_seq s) + 1 then
             let s = s\<lparr>probation := probation s - 1, max_seq := sq\<rparr>
             in if probation s = 0 then ok (rtp_init_sequence sq s) else ok s
           else ok (s\<lparr>probation := 1, max_seq := sq\<rparr>)
         else if udelta < 3000 then
           ok (s\<lparr>cycles := (if sq < max_seq s then cycles s + 65536 else cycles s), max_seq := sq\<rparr>)
         else if udelta \<le> 65436 then
           if ucast sq = bad_seq s then ok (rtp_init_sequence sq s)
           else (False, s\<lparr>bad_seq := (ucast sq + 1) AND 65535\<rparr>)
         else ok s)"

definition rtcp_update_jitter :: "u32 \<Rightarrow> u32 \<Rightarrow> RTPStatistics \<Rightarrow> RTPStatistics" where
  "rtcp_update_jitter sent_timestamp arrival_timestamp s =
     (let t = arrival_timestamp - sent_timestamp; prev_transit = transit s;
          d = word_of_int \<bar>sint (t - prev_transit)\<bar>;
          s = s\<lparr>transit := t\<rparr>
      in if prev_transit = 0 then s
         else s\<lparr>jitter := jitter s + (d - drop_bit 4 (jitter s + 8))\<rparr>)"

section \<open>Receiver reports\<close>

text \<open>The numbers of the report block: fraction and count of lost packets, and the highest extended
  sequence number; the statistics start a new interval.\<close>

definition rr_block :: "RTPStatistics \<Rightarrow> (u32 \<times> u32) \<times> RTPStatistics" where
  "rr_block stats =
     (let extended_max = cycles stats + ucast (max_seq stats);
          expected = extended_max - base_seq stats;
          lost = min (expected - received stats) 0xffffff;
          expected_interval = expected - expected_prior stats;
          received_interval = received stats - received_prior stats;
          lost_interval = sint (expected_interval - received_interval);
          fraction = (if expected_interval = 0 \<or> lost_interval \<le> 0 then 0
                      else push_bit 8 (word_of_int lost_interval) div expected_interval)
      in ((push_bit 24 fraction OR lost, extended_max),
          stats\<lparr>expected_prior := expected, received_prior := received stats\<rparr>))"

text \<open>A CNAME chunk, padded to words, in its SDES packet.\<close>

definition sdes_packet :: "u32 \<Rightarrow> bytes \<Rightarrow> bytes" where
  "sdes_packet ss name =
     (let n = length name; pad = (7 + n) mod 4
      in [version_byte + 1, RTCP_SDES] @ AV_WB16 (of_nat ((7 + n + 3) div 4)) @ AV_WB32 ss
           @ [1, of_nat n] @ name @ [0] @ replicate (if pad = 0 then 0 else 4 - pad) 0)"

definition receiver_report :: "u32 \<Rightarrow> u32 \<Rightarrow> u32 \<Rightarrow> u32 \<Rightarrow> u32 \<Rightarrow> u32 \<Rightarrow> bytes" where
  "receiver_report ss fraction extended_max jit lsr dlsr =
     [version_byte + 1, RTCP_RR] @ AV_WB16 7 @ AV_WB32 (ss + 1) @ AV_WB32 ss @ AV_WB32 fraction
       @ AV_WB32 extended_max @ AV_WB32 jit @ AV_WB32 lsr @ AV_WB32 dlsr"

text \<open>
  \<open>fd\<close> and \<open>avio\<close> tell which of the two outputs is given. The result has the bytes written. With
  \<open>fd\<close> they are collected in a buffer first, which may fail.
\<close>

definition open_output :: "lib \<Rightarrow> bool \<Rightarrow> 'p RTPDemuxContext \<Rightarrow> bool \<times> 'p RTPDemuxContext" where
  "open_output L fd s = (if fd then let (r, s) = lib_call L s in (r \<ge> 0, s) else (True, s))"

definition ff_rtp_check_and_send_back_rr ::
    "lib \<Rightarrow> bool \<Rightarrow> bool \<Rightarrow> int \<Rightarrow> 'p RTPDemuxContext \<Rightarrow> bytes res \<times> 'p RTPDemuxContext" where
  "ff_rtp_check_and_send_back_rr L fd avio cnt s =
     (if \<not> fd \<and> \<not> avio \<or> cnt < 1 then (Err Minus_one, s)
      else
        let s = s\<lparr>octet_count := octet_count s + word_of_int cnt\<rparr>;
            rtcp_bytes = (octet_count s - last_octet_count s) * RTCP_TX_RATIO_NUM div RTCP_TX_RATIO_DEN div 50
        in if rtcp_bytes < 28 then (Err Minus_one, s)
           else
             let s = s\<lparr>last_octet_count := octet_count s\<rparr>; (opened, s) = open_output L fd s
             in if \<not> opened then (Err Minus_one, s)
                else
                  let ((fraction, extended_max), stats) = rr_block (statistics s);
                      s = s\<lparr>statistics := stats\<rparr>;
                      (lsr, dlsr, s) =
                        (if last_rtcp_ntp_time s = NOPTS_U64 then (0, 0, s)
                         else let (now, s) = lib_call L s
                              in (ucast (drop_bit 16 (last_rtcp_ntp_time s)),
                                  word_of_int (av_rescale (now - last_rtcp_reception_time s) 65536 1000000), s))
                  in (Ok (receiver_report (ssrc s) fraction extended_max (drop_bit 4 (jitter stats)) lsr dlsr
                           @ sdes_packet (ssrc s + 1) (hostname s)), s))"

definition ff_rtp_send_punch_packets :: "bytes list" where
  "ff_rtp_send_punch_packets =
     [[version_byte, 0] @ AV_WB16 0 @ AV_WB32 0 @ AV_WB32 0,
      [version_byte, RTCP_RR] @ AV_WB16 1 @ AV_WB32 0]"

section \<open>Missing packets\<close>

text \<open>The difference of two sequence numbers, as the \<open>int16_t\<close> of the code.\<close>

definition seq_diff :: "u16 \<Rightarrow> u16 \<Rightarrow> int" where
  "seq_diff a b = sint (a - b)"

fun missing_loop :: "u16 \<Rightarrow> nat list \<Rightarrow> RTPPacket list \<Rightarrow> u16 \<Rightarrow> u16" where
  "missing_loop next_seq [] q acc = acc"
| "missing_loop next_seq (i # is) q acc =
     (let missing_seq = next_seq + of_nat i;
          q = dropWhile (\<lambda>p. seq_diff (p_seq p) missing_seq < 0) q
      in case q of [] \<Rightarrow> acc
         | p # _ \<Rightarrow> missing_loop next_seq is q
             (if p_seq p = missing_seq then acc else acc OR push_bit (i - 1) 1))"

definition find_missing_packets :: "'p RTPDemuxContext \<Rightarrow> (u16 \<times> u16) option" where
  "find_missing_packets s =
     (let next_seq = seq s + 1
      in case queue s of [] \<Rightarrow> None
         | p # _ \<Rightarrow> if p_seq p = next_seq then None
                   else Some (next_seq, missing_loop next_seq [1..<17] (queue s) 0))"

section \<open>The queue\<close>

fun insert_packet :: "RTPPacket \<Rightarrow> RTPPacket list \<Rightarrow> RTPPacket list" where
  "insert_packet p [] = [p]"
| "insert_packet p (q # qs) =
     (if seq_diff (p_seq p) (p_seq q) < 0 then p # q # qs else q # insert_packet p qs)"

definition enqueue_packet :: "lib \<Rightarrow> bytes \<Rightarrow> 'p RTPDemuxContext \<Rightarrow> nat res \<times> 'p RTPDemuxContext" where
  "enqueue_packet L buf s =
     (let (a, s) = lib_call L s
      in if a = 0 then (Err ENOMEM, s)
         else let (now, s) = lib_call L s
              in (Ok 0, s\<lparr>queue := insert_packet \<lparr>p_seq = AV_RB16 buf 2, p_buf = buf, recvtime = now\<rparr> (queue s),
                          queue_len := queue_len s + 1\<rparr>))"

definition has_next_packet :: "'p RTPDemuxContext \<Rightarrow> bool" where
  "has_next_packet s = (case queue s of [] \<Rightarrow> False | p # _ \<Rightarrow> p_seq p = seq s + 1)"

definition ff_rtp_queued_packet_time :: "'p RTPDemuxContext \<Rightarrow> int" where
  "ff_rtp_queued_packet_time s = (case queue s of [] \<Rightarrow> 0 | p # _ \<Rightarrow> recvtime p)"

definition ff_rtp_reset_packet_queue :: "'p RTPDemuxContext \<Rightarrow> 'p RTPDemuxContext" where
  "ff_rtp_reset_packet_queue s = s\<lparr>queue := [], seq := 0, queue_len := 0, prev_ret := Ok 0\<rparr>"


section \<open>Repair over HTTP\<close>

text \<open>
  What the code calls: \<open>av_asprintf\<close> with the template of the URL and the sequence number, the
  reading of a number by \<open>strtoll\<close>, and the HTTP request with its option \<open>rw_timeout\<close>, which gives at
  most \<open>RTP_MAX_PACKET_LENGTH\<close> bytes of the answer or an error (of \<open>avio_open2\<close> or \<open>avio_read\<close>).
\<close>

record http =
  asprintf_seq :: "string \<Rightarrow> u16 \<Rightarrow> string option"
  strtoll :: "string \<Rightarrow> int"
  fetch :: "string \<Rightarrow> string option \<Rightarrow> bytes res"

definition dict_value :: "dict \<Rightarrow> string \<Rightarrow> string option" where
  "dict_value m k = map_option (\<lambda>i. snd (m ! i)) (av_dict_get m k None {})"

definition repair_template :: "'p RTPDemuxContext \<Rightarrow> string option" where
  "repair_template s = (if repair_rtp_pkt_url s = None then dict_value (ic_metadata s) ''repair_rtp_pkt_url''
                   else repair_rtp_pkt_url s)"

definition repair_timeout :: "http \<Rightarrow> 'p RTPDemuxContext \<Rightarrow> string option" where
  "repair_timeout H s =
     map_option (\<lambda>v. take 31 (fmt_d (strtoll H v * 1000))) (dict_value (ic_metadata s) ''repair_http_timeout_ms'')"

text \<open>What comes back is put in the queue when it is an RTP packet of the stream; a sequence number
  other than the one asked for is only logged. The result counts the packets repaired.\<close>

definition enqueue_repaired :: "lib \<Rightarrow> bytes \<Rightarrow> 'p RTPDemuxContext \<Rightarrow> nat \<times> 'p RTPDemuxContext" where
  "enqueue_repaired L buf s =
     (if length buf < 12 then (0, s)
      else if buf ! 0 AND 0xc0 \<noteq> version_byte then (0, s)
      else if ssrc s \<noteq> 0 \<and> AV_RB32 buf 8 \<noteq> ssrc s then (0, s)
      else case enqueue_packet L buf s of
             (Inl e, s) \<Rightarrow> (0, s)
           | (Inr _, s) \<Rightarrow> (1, s\<lparr>repair_successes := repair_successes s + 1\<rparr>))"

definition rtp_http_fetch_and_enqueue ::
    "lib \<Rightarrow> http \<Rightarrow> u16 \<Rightarrow> 'p RTPDemuxContext \<Rightarrow> nat \<times> 'p RTPDemuxContext" where
  "rtp_http_fetch_and_enqueue L H seq_to_fetch s =
     (let s = s\<lparr>repair_rtp_pkt_url := repair_template s\<rparr>
      in case repair_rtp_pkt_url s of None \<Rightarrow> (0, s)
         | Some tpl \<Rightarrow>
             (case asprintf_seq H tpl seq_to_fetch of None \<Rightarrow> (0, s)
              | Some url \<Rightarrow>
                  (case fetch H url (repair_timeout H s) of Inl e \<Rightarrow> (0, s)
                   | Inr data \<Rightarrow>
                       let (a, s) = lib_call L s
                       in if a = 0 then (0, s)
                          else enqueue_repaired L (take RTP_MAX_PACKET_LENGTH data) s)))"

fun repair_all :: "lib \<Rightarrow> http \<Rightarrow> u16 list \<Rightarrow> 'p RTPDemuxContext \<Rightarrow> nat \<times> 'p RTPDemuxContext" where
  "repair_all L H [] s = (0, s)"
| "repair_all L H (q # qs) s =
     (let (n, s) = rtp_http_fetch_and_enqueue L H q s; (m, s) = repair_all L H qs s in (n + m, s))"

text \<open>The sequence numbers that \<open>first_missing\<close> and the mask name.\<close>

definition missing_list :: "u16 \<Rightarrow> u16 \<Rightarrow> u16 list" where
  "missing_list first_missing missing_mask =
     first_missing # map (\<lambda>i. first_missing + of_nat i) (filter (\<lambda>i. bit missing_mask (i - 1)) [1..<17])"

definition rtp_try_http_repair :: "lib \<Rightarrow> http \<Rightarrow> 'p RTPDemuxContext \<Rightarrow> nat \<times> 'p RTPDemuxContext" where
  "rtp_try_http_repair L H s =
     (let (now, s) = lib_call L s
      in if last_repair_time s \<noteq> 0 \<and> now - last_repair_time s < MIN_FEEDBACK_INTERVAL then (0, s)
         else case find_missing_packets s of None \<Rightarrow> (0, s)
         | Some (first_missing, missing_mask) \<Rightarrow>
             let l = missing_list first_missing missing_mask;
                 s = s\<lparr>repair_attempts := repair_attempts s + int (length l)\<rparr>;
                 (repaired, s) = repair_all L H l s
             in (repaired, if repaired > 0 then s\<lparr>last_repair_time := now\<rparr> else s))"

section \<open>Feedback\<close>

definition pli_packet :: "u32 \<Rightarrow> bytes" where
  "pli_packet ss = [version_byte OR 1, RTCP_PSFB] @ AV_WB16 2 @ AV_WB32 (ss + 1) @ AV_WB32 ss"

definition nack_packet :: "u32 \<Rightarrow> u16 \<Rightarrow> u16 \<Rightarrow> bytes" where
  "nack_packet ss first_missing missing_mask =
     [version_byte OR 1, RTCP_RTPFB] @ AV_WB16 3 @ AV_WB32 (ss + 1) @ AV_WB32 ss
       @ AV_WB16 first_missing @ AV_WB16 missing_mask"

definition keyframe_needed :: "'p RTPDemuxContext \<Rightarrow> bool" where
  "keyframe_needed s =
     (case handler s of None \<Rightarrow> False
      | Some h \<Rightarrow> (case need_keyframe h of None \<Rightarrow> False | Some f \<Rightarrow> f (dynamic_protocol_context s)))"

definition ff_rtp_send_rtcp_feedback ::
    "lib \<Rightarrow> bool \<Rightarrow> bool \<Rightarrow> 'p RTPDemuxContext \<Rightarrow> bytes res \<times> 'p RTPDemuxContext" where
  "ff_rtp_send_rtcp_feedback L fd avio s =
     (if \<not> fd \<and> \<not> avio then (Err Minus_one, s)
      else
        let missing = find_missing_packets s
        in if \<not> keyframe_needed s \<and> missing = None then (Ok [], s)
           else
             let (now, s) = lib_call L s
             in if last_feedback_time s \<noteq> 0 \<and> now - last_feedback_time s < MIN_FEEDBACK_INTERVAL then (Ok [], s)
                else
                  let s = s\<lparr>last_feedback_time := now\<rparr>; (opened, s) = open_output L fd s
                  in if \<not> opened then (Err Minus_one, s)
                     else (Ok ((if keyframe_needed s then pli_packet (ssrc s) else [])
                               @ (case missing of None \<Rightarrow> [] | Some (f, m) \<Rightarrow> nack_packet (ssrc s) f m)), s))"

section \<open>Opening\<close>

definition opus_extradata :: "int \<Rightarrow> bytes" where
  "opus_extradata channels =
     map (of_nat \<circ> of_char) ''OpusHead'' @ [1, word_of_int channels, 0, 0, 0x80, 0xbb, 0, 0, 0, 0, 0]"

text \<open>\<open>alloc\<close> is the return value of \<open>ff_alloc_extradata\<close>.\<close>

definition opus_write_extradata :: "int \<Rightarrow> AVCodecParameters \<Rightarrow> AVCodecParameters res" where
  "opus_write_extradata alloc par =
     (if par_nb_channels par > 2 then Err AVERROR_INVALIDDATA
      else if alloc < 0 then Err (Lib_error alloc)
      else Ok (par\<lparr>par_extradata := opus_extradata (par_nb_channels par)\<rparr>))"

definition open_parameters :: "int \<Rightarrow> AVCodecParameters \<Rightarrow> AVCodecParameters res" where
  "open_parameters alloc par =
     (if par_codec_id par = CODEC_ADPCM_G722
      then Ok (if par_sample_rate par = 8000 then par\<lparr>par_sample_rate := 16000\<rparr> else par)
      else if par_codec_id par = CODEC_OPUS then opus_write_extradata alloc par
      else Ok par)"

text \<open>\<open>blank\<close> is the zeroed context, \<open>malloc\<close> whether it could be allocated, \<open>host\<close> the answer of
  \<open>gethostname\<close>.\<close>

definition ff_rtp_parse_open ::
    "bool \<Rightarrow> int \<Rightarrow> bytes \<Rightarrow> 'p RTPDemuxContext \<Rightarrow> nat \<Rightarrow> dict \<Rightarrow> rtp_stream \<Rightarrow> int \<Rightarrow> int
     \<Rightarrow> 'p RTPDemuxContext option" where
  "ff_rtp_parse_open malloc alloc host blank n meta str pt qsize =
     (if \<not> malloc then None
      else case open_parameters alloc (codecpar str) of Inl e \<Rightarrow> None
      | Inr par \<Rightarrow>
          Some (blank\<lparr>payload_type := pt, last_rtcp_ntp_time := NOPTS_U64, first_rtcp_ntp_time := NOPTS_U64,
            ic_nb_streams := n, ic_metadata := meta, st := str\<lparr>codecpar := par\<rparr>, queue_size := qsize,
            statistics := rtp_init_statistics 0, hostname := host, last_repair_time := 0,
            repair_attempts := 0, repair_successes := 0,
            repair_rtp_pkt_url := dict_value meta ''repair_rtp_pkt_url''\<rparr>))"

definition ff_rtp_parse_set_dynamic_protocol ::
    "'p \<Rightarrow> 'p RTPDynamicProtocolHandler option \<Rightarrow> 'p RTPDemuxContext \<Rightarrow> 'p RTPDemuxContext" where
  "ff_rtp_parse_set_dynamic_protocol ctx h s = s\<lparr>dynamic_protocol_context := ctx, handler := h\<rparr>"

definition ff_rtp_parse_set_crypto ::
    "crypto \<Rightarrow> bool \<Rightarrow> string \<Rightarrow> bytes res \<Rightarrow> 'p RTPDemuxContext \<Rightarrow> 'p RTPDemuxContext" where
  "ff_rtp_parse_set_crypto C alloc suite params s =
     (let (r, c) = ff_srtp_set_crypto C alloc suite params (srtp s); s = s\<lparr>srtp := c\<rparr>
      in if is_ok r then s\<lparr>srtp_enabled := True\<rparr> else s)"

definition strcase_eq :: "string \<Rightarrow> string \<Rightarrow> bool" where
  "strcase_eq a b \<longleftrightarrow> map av_tolower a = map av_tolower b"

text \<open>Look-up in the list of handlers.\<close>

definition ff_rtp_handler_find_by_name ::
    "'p RTPDynamicProtocolHandler list \<Rightarrow> string \<Rightarrow> AVMediaType \<Rightarrow> 'p RTPDynamicProtocolHandler option" where
  "ff_rtp_handler_find_by_name hs name ct = find (\<lambda>h. strcase_eq name (enc_name h) \<and> ct = h_codec_type h) hs"

definition ff_rtp_handler_find_by_id ::
    "'p RTPDynamicProtocolHandler list \<Rightarrow> int \<Rightarrow> AVMediaType \<Rightarrow> 'p RTPDynamicProtocolHandler option" where
  "ff_rtp_handler_find_by_id hs i ct =
     find (\<lambda>h. static_payload_id h \<noteq> 0 \<and> static_payload_id h = i \<and> ct = h_codec_type h) hs"

section \<open>Timestamps\<close>

text \<open>\<open>av_packet_new_side_data\<close> may fail, which is only logged.\<close>

definition rtp_set_prft :: "lib \<Rightarrow> RTPOutput \<Rightarrow> u32 \<Rightarrow> 'p RTPDemuxContext \<Rightarrow> RTPOutput \<times> 'p RTPDemuxContext" where
  "rtp_set_prft L pkt ts s =
     (let (a, s) = lib_call L s
      in if a = 0 then (pkt, s)
         else
           let rtcp_time = sint (ff_parse_ntp_time (last_rtcp_ntp_time s) - word_of_int NTP_OFFSET_US);
               delta_timestamp = uint ts - uint (last_rtcp_timestamp s);
               delta_time = av_rescale_q delta_timestamp (st_time_base (st s)) (1, 1000000)
           in (pkt\<lparr>pkt_prft := Some (rtcp_time + delta_time, 24)\<rparr>, s))"

text \<open>With a sender report and several streams, the time comes from the sender's clock.\<close>

definition synced_pts :: "u32 \<Rightarrow> 'p RTPDemuxContext \<Rightarrow> int" where
  "synced_pts ts s =
     (let delta_timestamp = sint (ts - last_rtcp_timestamp s);
          addend = av_rescale (sint (last_rtcp_ntp_time s - first_rtcp_ntp_time s))
                     (snd (st_time_base (st s)))
                     (sint (push_bit 32 (word_of_int (fst (st_time_base (st s))) :: u64)))
      in range_start_offset s + rtcp_ts_offset s + addend + delta_timestamp)"

definition unwrap_timestamp :: "u32 \<Rightarrow> 'p RTPDemuxContext \<Rightarrow> 'p RTPDemuxContext" where
  "unwrap_timestamp ts s =
     (let s = (if base_timestamp s = 0 then s\<lparr>base_timestamp := ts\<rparr> else s);
          s = (if timestamp s = 0 then s\<lparr>unwrapped_timestamp := unwrapped_timestamp s + uint ts\<rparr>
               else s\<lparr>unwrapped_timestamp := unwrapped_timestamp s + sint (ts - timestamp s)\<rparr>)
      in s\<lparr>timestamp := ts\<rparr>)"

definition finalize_packet :: "lib \<Rightarrow> RTPOutput \<Rightarrow> u32 \<Rightarrow> 'p RTPDemuxContext \<Rightarrow> RTPOutput \<times> 'p RTPDemuxContext" where
  "finalize_packet L pkt ts s =
     (if pkt_pts pkt \<noteq> AV_NOPTS_VALUE \<or> pkt_dts pkt \<noteq> AV_NOPTS_VALUE then (pkt, s)
      else if ts = RTP_NOTS_VALUE then (pkt, s)
      else
        let (pkt, s) = (if last_rtcp_ntp_time s \<noteq> NOPTS_U64 then rtp_set_prft L pkt ts s else (pkt, s))
        in if last_rtcp_ntp_time s \<noteq> NOPTS_U64 \<and> ic_nb_streams s > 1
           then (pkt\<lparr>pkt_pts := synced_pts ts s\<rparr>, s)
           else let s = unwrap_timestamp ts s
                in (pkt\<lparr>pkt_pts := unwrapped_timestamp s + range_start_offset s - uint (base_timestamp s)\<rparr>, s))"


section \<open>Parsing a packet\<close>

definition strip_padding :: "bytes \<Rightarrow> bytes" where
  "strip_padding buf =
     (if buf ! 0 AND 0x20 \<noteq> 0 then
        let padding = unat (last buf)
        in if length buf \<ge> 12 + padding then take (length buf - padding) buf else buf
      else buf)"

definition strip_header :: "bytes \<Rightarrow> bytes res" where
  "strip_header buf =
     (let csrc = unat (buf ! 0 AND 0x0f); ext = buf ! 0 AND 0x10 \<noteq> 0; p = strip_padding buf
      in if length p < 12 + 4 * csrc then Err AVERROR_INVALIDDATA
         else let p = drop (12 + 4 * csrc) p
              in if ext then
                   if length p < 4 then Err Minus_one
                   else let e = (unat (AV_RB16 p 2) + 1) * 4
                        in if length p < e then Err Minus_one else Ok (drop e p)
                 else Ok p)"

definition new_packet :: "bytes \<Rightarrow> RTPOutput" where
  "new_packet data = \<lparr>pkt_data = data, pkt_stream = 0, pkt_key = False, pkt_pts = AV_NOPTS_VALUE,
     pkt_dts = AV_NOPTS_VALUE, pkt_duration = 0, pkt_prft = None\<rparr>"

text \<open>The payload goes to the handler, or into a packet of its own.\<close>

definition deliver_payload :: "lib \<Rightarrow> RTPOutput \<Rightarrow> u32 \<Rightarrow> bytes \<Rightarrow> u16 \<Rightarrow> bool \<Rightarrow> 'p RTPDemuxContext
    \<Rightarrow> nat res \<times> RTPOutput \<times> 'p RTPDemuxContext" where
  "deliver_payload L pkt ts payload sq marker s =
     (case Option.bind (handler s) parse_packet of
        Some parse \<Rightarrow>
          (case parse (dynamic_protocol_context s) (st s) pkt ts (Some payload) sq marker of
             (rv, pkt, ts, ctx) \<Rightarrow>
               let (pkt, s) = finalize_packet L pkt ts (s\<lparr>dynamic_protocol_context := ctx\<rparr>) in (rv, pkt, s))
      | None \<Rightarrow>
          let (r, s) = lib_call L s
          in if r < 0 then (Err (Lib_error r), pkt, s)
             else let (pkt, s) = finalize_packet L ((new_packet payload)\<lparr>pkt_stream := st_index (st s)\<rparr>) ts s
                  in (Ok 0, pkt, s))"

definition rtp_parse_packet_internal ::
    "lib \<Rightarrow> RTPOutput \<Rightarrow> bytes \<Rightarrow> 'p RTPDemuxContext \<Rightarrow> nat res \<times> RTPOutput \<times> 'p RTPDemuxContext" where
  "rtp_parse_packet_internal L pkt buf s =
     (let pt = uint (buf ! 1 AND 0x7f); sq = AV_RB16 buf 2;
          s = s\<lparr>ssrc := AV_RB32 buf 8\<rparr>
      in if payload_type s \<noteq> pt then (Err Minus_one, pkt, s)
         else
           let (valid, stats) = rtp_valid_packet_in_sequence sq (statistics s);
               s = s\<lparr>statistics := stats\<rparr>
           in if \<not> valid then (Err Minus_one, pkt, s)
              else case strip_header buf of
                     Inl e \<Rightarrow> (Err e, pkt, s\<lparr>seq := sq\<rparr>)
                   | Inr payload \<Rightarrow>
                       deliver_payload L pkt (AV_RB32 buf 4) payload sq (bit (buf ! 1) 7) (s\<lparr>seq := sq\<rparr>))"

text \<open>The first packet of the queue is parsed and taken out.\<close>

definition rtp_parse_queued_packet ::
    "lib \<Rightarrow> RTPOutput \<Rightarrow> 'p RTPDemuxContext \<Rightarrow> nat res \<times> RTPOutput \<times> 'p RTPDemuxContext" where
  "rtp_parse_queued_packet L pkt s =
     (if queue_len s \<le> 0 then (Err Minus_one, pkt, s)
      else case rtp_parse_packet_internal L pkt (p_buf (hd (queue s))) s of
             (rv, pkt, s) \<Rightarrow> (rv, pkt, s\<lparr>queue := tl (queue s), queue_len := queue_len s - 1\<rparr>))"

text \<open>The number of packets the warning says are missing, an \<open>int\<close>.\<close>

definition logged_missed :: "u16 \<Rightarrow> u16 \<Rightarrow> int" where
  "logged_missed head_seq sq =
     (let pkt_missed = uint head_seq - uint sq - 1 in if pkt_missed < 0 then pkt_missed + 65535 else pkt_missed)"

definition update_arrival :: "lib \<Rightarrow> bytes \<Rightarrow> 'p RTPDemuxContext \<Rightarrow> 'p RTPDemuxContext" where
  "update_arrival L buf s =
     (let (now, s) = lib_call L s;
          arrival_ts = word_of_int (av_rescale_q now (1, 1000000) (st_time_base (st s)))
      in s\<lparr>statistics := rtcp_update_jitter (AV_RB32 buf 4) arrival_ts (statistics s)\<rparr>)"

text \<open>An RTP packet: it is parsed when it is the next one, dropped when it is old, and put in the
  queue otherwise. The flag of the result tells that the queue took the buffer over.\<close>

definition rtp_receive ::
    "lib \<Rightarrow> RTPOutput \<Rightarrow> bytes \<Rightarrow> 'p RTPDemuxContext \<Rightarrow> (nat res \<times> RTPOutput \<times> 'p RTPDemuxContext) \<times> bool" where
  "rtp_receive L pkt buf s =
     (if seq s = 0 \<and> queue s = [] \<or> queue_size s \<le> 1 then (rtp_parse_packet_internal L pkt buf s, False)
      else
        let diff = seq_diff (AV_RB16 buf 2) (seq s)
        in if diff < 0 then ((Err Minus_one, pkt, s), False)
           else if diff \<le> 1 then (rtp_parse_packet_internal L pkt buf s, False)
           else case enqueue_packet L buf s of
                  (Inl e, s) \<Rightarrow> ((Err e, pkt, s), False)
                | (Inr _, s) \<Rightarrow>
                    if queue_len s \<ge> queue_size s then (rtp_parse_queued_packet L pkt s, True)
                    else ((Err Minus_one, pkt, s), True))"

definition rtp_parse_one_packet ::
    "lib \<Rightarrow> RTPOutput \<Rightarrow> bytes option \<Rightarrow> 'p RTPDemuxContext
     \<Rightarrow> (nat res \<times> RTPOutput \<times> 'p RTPDemuxContext) \<times> bool" where
  "rtp_parse_one_packet L pkt bufptr s =
     (case bufptr of
        None \<Rightarrow>
          (case (prev_ret s, Option.bind (handler s) parse_packet) of
             (Inr (Suc n), Some parse) \<Rightarrow>
               (case parse (dynamic_protocol_context s) (st s) pkt RTP_NOTS_VALUE None 0 False of
                  (rv, pkt, ts, ctx) \<Rightarrow>
                    let (pkt, s) = finalize_packet L pkt ts (s\<lparr>dynamic_protocol_context := ctx\<rparr>)
                    in ((rv, pkt, s), False))
           | (Inr (Suc n), None) \<Rightarrow> ((Err Minus_one, pkt, s), False)
           | _ \<Rightarrow> (rtp_parse_queued_packet L pkt s, False))
      | Some buf \<Rightarrow>
          if length buf < 12 then ((Err Minus_one, pkt, s), False)
          else if buf ! 0 AND 0xc0 \<noteq> version_byte then ((Err Minus_one, pkt, s), False)
          else if RTP_PT_IS_RTCP (buf ! 1) then
            let (rv, s) = rtcp_parse_packet L buf s in ((rv, pkt, s), False)
          else rtp_receive L pkt buf (update_arrival L buf s))"

text \<open>
  The loop at the end of \<open>ff_rtp_parse_packet\<close>. It takes a packet out of the queue in every turn as
  long as \<open>queue_len\<close> is the length of the queue, so the length is fuel enough.
\<close>

fun parse_queued_loop :: "nat \<Rightarrow> lib \<Rightarrow> nat res \<times> RTPOutput \<times> 'p RTPDemuxContext
    \<Rightarrow> nat res \<times> RTPOutput \<times> 'p RTPDemuxContext" where
  "parse_queued_loop 0 L r = r"
| "parse_queued_loop (Suc n) L (rv, pkt, s) =
     (if \<not> is_ok rv \<and> has_next_packet s then parse_queued_loop n L (rtp_parse_queued_packet L pkt s)
      else (rv, pkt, s))"

definition finish_parse :: "nat res \<times> RTPOutput \<times> 'p RTPDemuxContext \<Rightarrow> nat res \<times> RTPOutput \<times> 'p RTPDemuxContext" where
  "finish_parse r = (case r of (rv, pkt, s) \<Rightarrow>
     (case rv of Inr 0 \<Rightarrow> (Ok (of_bool (has_next_packet s)), pkt, s) | _ \<Rightarrow> (rv, pkt, s)))"

definition ff_rtp_parse_packet ::
    "lib \<Rightarrow> crypto \<Rightarrow> RTPOutput \<Rightarrow> bytes option \<Rightarrow> 'p RTPDemuxContext
     \<Rightarrow> (nat res \<times> RTPOutput \<times> 'p RTPDemuxContext) \<times> bool" where
  "ff_rtp_parse_packet L C pkt bufptr s =
     (let (plain, s) = (case bufptr of
             Some buf \<Rightarrow> if srtp_enabled s
                         then let (r, c) = ff_srtp_decrypt C (srtp s) buf in (map_sum id Some r, s\<lparr>srtp := c\<rparr>)
                         else (Ok bufptr, s)
           | None \<Rightarrow> (Ok None, s))
      in case plain of Inl e \<Rightarrow> ((Err Minus_one, pkt, s), False)
         | Inr bufptr \<Rightarrow>
             let ((rv, pkt, s), taken) = rtp_parse_one_packet L pkt bufptr s;
                 s = s\<lparr>prev_ret := rv\<rparr>
             in (finish_parse (parse_queued_loop (length (queue s)) L (rv, pkt, s)), taken))"


section \<open>The payload of a packet\<close>

lemma strip_rtp_packet [simp]: "strip_header (rtp_packet pt m sq ts ss payload) = Ok payload"
  by (simp add: strip_header_def strip_padding_def rtp_packet_fields Let_def)

text \<open>
  RFC 3550: the fixed header with the bits for padding and extension and the number of
  contributing sources, the sources, the extension, the payload, the padding with its length in
  the last byte.
\<close>

definition rfc3550_packet :: "u8 \<Rightarrow> u16 \<Rightarrow> u32 \<Rightarrow> u32 \<Rightarrow> u32 list \<Rightarrow> (u16 \<times> u32 list) option \<Rightarrow> bytes \<Rightarrow> nat \<Rightarrow> bytes" where
  "rfc3550_packet b1 sq ts ss sources ext payload padding =
     [0x80 OR (if padding = 0 then 0 else 0x20) OR (if ext = None then 0 else 0x10) OR of_nat (length sources), b1]
       @ AV_WB16 sq @ AV_WB32 ts @ AV_WB32 ss @ concat (map AV_WB32 sources)
       @ (case ext of None \<Rightarrow> [] | Some (profile, ws) \<Rightarrow>
            AV_WB16 profile @ AV_WB16 (of_nat (length ws)) @ concat (map AV_WB32 ws))
       @ payload @ (if padding = 0 then [] else replicate (padding - 1) 0 @ [of_nat padding])"

definition first_byte_ok :: "nat \<Rightarrow> bool" where
  "first_byte_ok n \<longleftrightarrow> list_all (\<lambda>(p, e).
     let b = 0x80 OR (if p then 0 else 0x20) OR (if e then 0 else 0x10) OR of_nat n :: u8
     in unat (b AND 0x0f) = n \<and> (b AND 0x20 = 0) = p \<and> (b AND 0x10 = 0) = e)
     [(False, False), (False, True), (True, False), (True, True)]"

lemma first_byte_all: "list_all first_byte_ok [0..<16]"
  by code_simp

lemma first_byte:
  assumes "n < 16"
  shows "unat ((0x80 OR (if P then 0 else 0x20) OR (if E then 0 else 0x10) OR of_nat n :: u8) AND 0x0f) = n"
    and "((0x80 OR (if P then 0 else 0x20) OR (if E then 0 else 0x10) OR of_nat n :: u8) AND 0x20 = 0) = P"
    and "((0x80 OR (if P then 0 else 0x20) OR (if E then 0 else 0x10) OR of_nat n :: u8) AND 0x10 = 0) = E"
proof -
  have "first_byte_ok n" using first_byte_all assms unfolding list_all_iff set_upt by simp
  then show "unat ((0x80 OR (if P then 0 else 0x20) OR (if E then 0 else 0x10) OR of_nat n :: u8) AND 0x0f) = n"
    "((0x80 OR (if P then 0 else 0x20) OR (if E then 0 else 0x10) OR of_nat n :: u8) AND 0x20 = 0) = P"
    "((0x80 OR (if P then 0 else 0x20) OR (if E then 0 else 0x10) OR of_nat n :: u8) AND 0x10 = 0) = E"
    unfolding first_byte_ok_def list.pred_inject Let_def prod.case by (cases P; cases E; simp only: if_True if_False simp_thms)+
qed

lemma length_words [simp]: "length (concat (map AV_WB32 ws)) = 4 * length ws"
  by (induction ws) simp_all

lemma AV_RB16_at: "length xs = n \<Longrightarrow> AV_RB16 (xs @ AV_WB16 x @ ys) n = x"
  by (simp add: AV_RB16_def AV_WB16_def nth_append)

lemma strip_rfc3550:
  assumes "length sources < 16" "padding < 256" "case ext of None \<Rightarrow> True | Some (_, ws) \<Rightarrow> length ws < 65535"
  shows "strip_header (rfc3550_packet b1 sq ts ss sources ext payload padding) = Ok payload"
proof -
  let ?p = "rfc3550_packet b1 sq ts ss sources ext payload padding"
  define h where "h = take 12 ?p"
  define e where "e = (case ext of None \<Rightarrow> [] | Some (profile, ws) \<Rightarrow>
            AV_WB16 profile @ AV_WB16 (of_nat (length ws)) @ concat (map AV_WB32 ws))"
  define t where "t = (if padding = 0 then [] else replicate (padding - 1) 0 @ [of_nat padding :: u8])"
  have p: "?p = h @ concat (map AV_WB32 sources) @ e @ payload @ t" and h: "length h = 12"
    by (simp_all add: rfc3550_packet_def h_def e_def t_def)
  have h0: "h ! 0 = 0x80 OR (if padding = 0 then 0 else 0x20) OR (if ext = None then 0 else 0x10) OR of_nat (length sources)"
    by (simp add: rfc3550_packet_def h_def)
  note fb = first_byte [OF assms(1), of "padding = 0" "ext = None"]
  have lt: "length t = padding" "padding \<noteq> 0 \<Longrightarrow> unat (last t) = padding"
    using assms(2) by (auto simp: t_def unsigned_of_nat take_bit_nat_eq_self)
  define P where "P = ?p"
  have P: "P = h @ concat (map AV_WB32 sources) @ e @ payload @ t" using p by (simp add: P_def)
  have P0: "unat (P ! 0 AND 0x0f) = length sources" "(P ! 0 AND 0x20 = 0) = (padding = 0)"
    "(P ! 0 AND 0x10 = 0) = (ext = None)"
    using h fb by (simp_all only: P nth_append h0) simp_all
  have body: "strip_padding P = h @ concat (map AV_WB32 sources) @ e @ payload"
  proof (cases "padding = 0")
    case True
    then show ?thesis using P0(2) lt(1) by (simp add: strip_padding_def) (simp add: P)
  next
    case False
    then have "unat (last P) = padding" using lt by (auto simp: P)
    then show ?thesis
      using False P0(2) lt(1) h by (simp add: strip_padding_def Let_def) (simp add: P)
  qed
  have sub: "strip_header P = (if ext = None then Ok (e @ payload)
      else let q = e @ payload in if length q < 4 then Err Minus_one
        else let n = (unat (AV_RB16 q 2) + 1) * 4 in if length q < n then Err Minus_one else Ok (drop n q))"
    using h P0 by (simp add: strip_header_def body Let_def)
  have "strip_header P = Ok payload"
  proof (cases ext)
    case None
    then show ?thesis using sub by (simp add: e_def)
  next
    case (Some x)
    obtain profile ws where x: "x = (profile, ws)" by (cases x)
    have e: "e = AV_WB16 profile @ AV_WB16 (of_nat (length ws)) @ concat (map AV_WB32 ws)"
      by (simp add: e_def Some x)
    have "AV_RB16 (e @ payload) 2 = of_nat (length ws)"
      unfolding e append_assoc by (rule AV_RB16_at) simp
    then have "(unat (AV_RB16 (e @ payload) 2) + 1) * 4 = length e"
      using assms(3) by (simp add: Some x e unsigned_of_nat take_bit_nat_eq_self)
    moreover have "4 \<le> length e" by (simp add: e)
    ultimately show ?thesis using sub Some by (simp add: Let_def)
  qed
  then show ?thesis by (simp only: P_def)
qed

text \<open>
  The parser finds the payload of every RTP packet of RFC 3550: behind up to 15 contributing
  sources and an extension of fewer than 65535 words, in front of up to 255 bytes of padding.
\<close>

theorem rfc3550_payload_found:
  assumes "length sources < 16" "padding < 256" "case ext of None \<Rightarrow> True | Some (profile, ws) \<Rightarrow> length ws < 65535"
  shows "strip_header (rfc3550_packet b1 sq ts ss sources ext payload padding) = Ok payload"
  by (rule strip_rfc3550 [OF assms])

theorem rfc3550_payload_found_witness:
  "strip_header (rfc3550_packet 96 1 2 3 [4, 5] (Some (0xBEDE, [6])) [7, 8, 9] 3) = Ok [7, 8, 9]"
  by (rule rfc3550_payload_found) simp_all

end
