(* ===== verification/RtpOrder.thy ===== *)
theory RtpOrder
  imports RtpDec
begin

text \<open>
  The reordering queue of \<^verbatim>\<open>libavformat/rtpdec.c\<close>: the serial order of sequence numbers, the
  locale of a payload handler, and that a run of packets is put out in order whatever the order
  of their arrival.
\<close>

section \<open>The queue is sorted\<close>

text \<open>
  The packets of the queue lie ahead of \<open>base\<close> by increasing offsets below half the range; then the
  comparisons by \<open>int16_t\<close> differences are those of the offsets.
\<close>

definition offset :: "u16 \<Rightarrow> u16 \<Rightarrow> nat" where
  "offset base sq = unat (sq - base)"

lemma seq_diff_offset:
  assumes "offset base a < 32768" "offset base b < 32768"
  shows "seq_diff a b = int (offset base a) - int (offset base b)"
proof -
  have e: "a - b = word_of_int (int (offset base a) - int (offset base b))"
    by (simp add: offset_def)
  show ?thesis
    unfolding seq_diff_def e int_word_sint using assms by simp
qed

lemma offset_add [simp]: "n < 65536 \<Longrightarrow> offset base (base + of_nat n) = n"
  by (simp add: offset_def unsigned_of_nat take_bit_nat_eq_self)

lemma offset_inj: "offset base a = offset base b \<Longrightarrow> a = b"
  by (simp add: offset_def word_unat_eq_iff [symmetric])

definition queue_sorted :: "u16 \<Rightarrow> RTPPacket list \<Rightarrow> bool" where
  "queue_sorted base q \<longleftrightarrow> sorted (map (\<lambda>p. offset base (p_seq p)) q) \<and> (\<forall>p \<in> set q. offset base (p_seq p) < 32768)"

lemma set_insert_packet [simp]: "set (insert_packet p q) = insert p (set q)"
  by (induction q) auto

lemma length_insert_packet [simp]: "length (insert_packet p q) = Suc (length q)"
  by (induction q) simp_all

lemma queue_sorted_insert:
  "queue_sorted base q \<Longrightarrow> offset base (p_seq p) < 32768 \<Longrightarrow> queue_sorted base (insert_packet p q)"
  by (induction q) (auto simp: queue_sorted_def seq_diff_offset [of base])

section \<open>What finalising leaves alone\<close>

definition frame where
  "frame s = (seq s, queue s, queue_len s, queue_size s, payload_type s, handler s, srtp_enabled s, statistics s)"

lemma lib_call_frame: "lib_call L s = (r, s') \<Longrightarrow> frame s' = frame s"
  by (auto simp: lib_call_def frame_def)

lemma finalize_frame:
  assumes "finalize_packet L pkt ts s = (pkt', s')"
  shows "pkt_data pkt' = pkt_data pkt" "frame s' = frame s"
  using assms
  by (auto simp: finalize_packet_def rtp_set_prft_def lib_call_def unwrap_timestamp_def frame_def Let_def
      split: if_splits)

lemma valid_next:
  assumes "rtp_valid_packet_in_sequence (max_seq stats + 1) stats = (v, stats')"
  shows "v" "max_seq stats' = max_seq stats + 1"
  using assms
  by (auto simp: rtp_valid_packet_in_sequence_def rtp_init_sequence_def Let_def split: if_splits)

section \<open>The caller\<close>

text \<open>
  What the reading side of \<^verbatim>\<open>rtsp.c\<close> does with one datagram, as long as it does not lose patience:
  while the result is 1 it asks for the next packet without a buffer.
\<close>

fun drain :: "nat \<Rightarrow> lib \<Rightarrow> crypto \<Rightarrow> 'p RTPDemuxContext \<Rightarrow> RTPOutput list \<times> 'p RTPDemuxContext" where
  "drain 0 L C s = ([], s)"
| "drain (Suc n) L C s =
     (case fst (ff_rtp_parse_packet L C (new_packet []) None s) of
        (Inl e, pkt, s) \<Rightarrow> ([], s)
      | (Inr 0, pkt, s) \<Rightarrow> ([pkt], s)
      | (Inr _, pkt, s) \<Rightarrow> (let (pkts, s) = drain n L C s in (pkt # pkts, s)))"

definition receive_datagram ::
    "lib \<Rightarrow> crypto \<Rightarrow> bytes \<Rightarrow> 'p RTPDemuxContext \<Rightarrow> RTPOutput list \<times> 'p RTPDemuxContext" where
  "receive_datagram L C buf s =
     (case fst (ff_rtp_parse_packet L C (new_packet []) (Some buf) s) of
        (Inl e, pkt, s) \<Rightarrow> ([], s)
      | (Inr 0, pkt, s) \<Rightarrow> ([pkt], s)
      | (Inr _, pkt, s) \<Rightarrow> (let (pkts, s) = drain (length (queue s) + 1) L C s in (pkt # pkts, s)))"

fun receive_datagrams :: "lib \<Rightarrow> crypto \<Rightarrow> bytes list \<Rightarrow> 'p RTPDemuxContext \<Rightarrow> RTPOutput list \<times> 'p RTPDemuxContext" where
  "receive_datagrams L C [] s = ([], s)"
| "receive_datagrams L C (b # bs) s =
     (let (pkts, s) = receive_datagram L C b s; (more, s) = receive_datagrams L C bs s in (pkts @ more, s))"

section \<open>Reordering\<close>

lemma loop_no_next [simp]: "\<not> has_next_packet s \<Longrightarrow> parse_queued_loop n L (rv, pkt, s) = (rv, pkt, s)"
  by (cases n) simp_all

text \<open>
  The interface of a payload handler that turns each payload it accepts into one packet, at once.
\<close>

locale depacketizer =
  fixes parse :: "'p \<Rightarrow> rtp_stream \<Rightarrow> RTPOutput \<Rightarrow> u32 \<Rightarrow> bytes option \<Rightarrow> u16 \<Rightarrow> bool
      \<Rightarrow> nat res \<times> RTPOutput \<times> u32 \<times> 'p"
    and good :: "bytes \<Rightarrow> bool"
    and unpack :: "bytes \<Rightarrow> bytes"
  assumes parse_good: "good payload \<Longrightarrow>
    \<exists>pkt' ts' ctx'. parse ctx str pkt ts (Some payload) sq m = (Ok 0, pkt', ts', ctx') \<and> pkt_data pkt' = unpack payload"
begin

text \<open>The receiver is ready: no encryption, the handler installed, the statistics in step.\<close>

definition ready :: "u8 \<Rightarrow> 'p RTPDemuxContext \<Rightarrow> bool" where
  "ready pt s \<longleftrightarrow> Option.bind (handler s) parse_packet = Some parse \<and> payload_type s = uint pt
     \<and> \<not> srtp_enabled s \<and> max_seq (statistics s) = seq s \<and> queue_len s = int (length (queue s))"

lemma internal_next:
  assumes "ready pt s" "96 \<le> pt" "pt < 128" "good payload"
  obtains pkt' s' where "rtp_parse_packet_internal L pkt (rtp_packet pt m (seq s + 1) ts ss payload) s = (Ok 0, pkt', s')"
    "pkt_data pkt' = unpack payload" "ready pt s'" "seq s' = seq s + 1" "queue s' = queue s" "queue_size s' = queue_size s"
proof -
  let ?buf = "rtp_packet pt m (seq s + 1) ts ss payload"
  obtain v stats where v: "rtp_valid_packet_in_sequence (seq s + 1) (statistics s) = (v, stats)"
    by (cases "rtp_valid_packet_in_sequence (seq s + 1) (statistics s)")
  have mx: "max_seq (statistics s) = seq s" using assms(1) by (simp add: ready_def)
  note vn = valid_next [of "statistics s" v stats, unfolded mx, OF v]
  define t where "t = s\<lparr>ssrc := ss, statistics := stats, seq := seq s + 1\<rparr>"
  obtain pkt1 ts1 ctx1 where p: "parse (dynamic_protocol_context s) (st s) pkt ts (Some payload) (seq s + 1) m = (Ok 0, pkt1, ts1, ctx1)"
    "pkt_data pkt1 = unpack payload"
    using parse_good [OF assms(4)] by blast
  obtain pkt2 s2 where f: "finalize_packet L pkt1 ts1 (t\<lparr>dynamic_protocol_context := ctx1\<rparr>) = (pkt2, s2)"
    by (cases "finalize_packet L pkt1 ts1 (t\<lparr>dynamic_protocol_context := ctx1\<rparr>)")
  have h: "Option.bind (handler s) parse_packet = Some parse" "payload_type s = uint pt"
    using assms(1) by (auto simp: ready_def)
  have "rtp_parse_packet_internal L pkt ?buf s = (Ok 0, pkt2, s2)"
    using vn h p(1) f
    by (simp add: rtp_parse_packet_internal_def rtp_packet_fields rtp_packet_type [OF assms(2,3)] v
        deliver_payload_def t_def Let_def)
  moreover have "frame s2 = frame t" using finalize_frame(2) [OF f] by (simp add: frame_def)
  then have "ready pt s2" "seq s2 = seq s + 1" "queue s2 = queue s" "queue_size s2 = queue_size s"
    using assms(1) vn by (auto simp: frame_def t_def ready_def)
  moreover have "pkt_data pkt2 = unpack payload" using finalize_frame(1) [OF f] p(2) by simp
  ultimately show thesis using that by blast
qed

text \<open>
  A run of packets: number \<open>k\<close>, for \<open>1 \<le> k \<le> N\<close>, has the sequence number \<open>base + k\<close>. When the
  numbers in \<open>A\<close> have come and those up to \<open>d\<close> have been put out, the queue has the others in order.
\<close>

definition packet_no :: "u8 \<Rightarrow> u16 \<Rightarrow> (nat \<Rightarrow> bool \<times> u32 \<times> u32 \<times> bytes) \<Rightarrow> nat \<Rightarrow> bytes" where
  "packet_no pt base f k = (case f k of (m, ts, ss, payload) \<Rightarrow> rtp_packet pt m (base + of_nat k) ts ss payload)"

definition payload_no :: "(nat \<Rightarrow> bool \<times> u32 \<times> u32 \<times> bytes) \<Rightarrow> nat \<Rightarrow> bytes" where
  "payload_no f k = snd (snd (snd (f k)))"

definition run_ok :: "u8 \<Rightarrow> u16 \<Rightarrow> nat \<Rightarrow> (nat \<Rightarrow> bool \<times> u32 \<times> u32 \<times> bytes) \<Rightarrow> bool" where
  "run_ok pt base N f \<longleftrightarrow> 96 \<le> pt \<and> pt < 128 \<and> N < 32768 \<and> 0 < unat base \<and> unat base + N < 65536
     \<and> (\<forall>k. 1 \<le> k \<and> k \<le> N \<longrightarrow> good (payload_no f k))"

definition holds :: "u8 \<Rightarrow> u16 \<Rightarrow> nat \<Rightarrow> (nat \<Rightarrow> bool \<times> u32 \<times> u32 \<times> bytes) \<Rightarrow> nat \<Rightarrow> nat set \<Rightarrow> 'p RTPDemuxContext \<Rightarrow> bool" where
  "holds pt base N f d A s \<longleftrightarrow> ready pt s \<and> seq s = base + of_nat d \<and> int N < queue_size s \<and> 1 < queue_size s
     \<and> A \<subseteq> {1..N} \<and> {1..d} \<subseteq> A \<and> d \<le> N
     \<and> map (\<lambda>p. offset base (p_seq p)) (queue s) = sorted_list_of_set {a \<in> A. d < a}
     \<and> (\<forall>p \<in> set (queue s). p_buf p = packet_no pt base f (offset base (p_seq p)))"

lemma packet_no_eq:
  obtains m ts ss where "packet_no pt base f k = rtp_packet pt m (base + of_nat k) ts ss (payload_no f k)"
  by (cases "f k") (auto simp: packet_no_def payload_no_def)

lemma finite_waiting: "holds pt base N f d A s \<Longrightarrow> finite {a \<in> A. d < a}"
  by (rule finite_subset [of _ "{1..N}"]) (auto simp: holds_def)

lemma queue_length: "holds pt base N f d A s \<Longrightarrow> length (queue s) = card {a \<in> A. d < a}"
  by (metis (no_types, lifting) holds_def length_map length_sorted_list_of_set)

lemma head_waiting:
  assumes h: "holds pt base N f d A s" and d: "Suc d \<in> A"
  obtains p q where "queue s = p # q" "offset base (p_seq p) = Suc d" "p_buf p = packet_no pt base f (Suc d)"
    "map (\<lambda>p. offset base (p_seq p)) q = sorted_list_of_set {a \<in> A. Suc d < a}"
proof -
  have "{a \<in> A. d < a} = insert (Suc d) {a \<in> A. Suc d < a}" using d by auto
  moreover have fin: "finite {a \<in> A. Suc d < a}"
    by (rule finite_subset [OF _ finite_waiting [OF h]]) auto
  ultimately have "sorted_list_of_set {a \<in> A. d < a} = insort (Suc d) (sorted_list_of_set {a \<in> A. Suc d < a})"
    by (simp add: sorted_list_of_set.sorted_key_list_of_set_insert)
  also have "\<dots> = Suc d # sorted_list_of_set {a \<in> A. Suc d < a}"
    using fin by (intro insort_is_Cons) auto
  finally have m: "map (\<lambda>p. offset base (p_seq p)) (queue s) = Suc d # sorted_list_of_set {a \<in> A. Suc d < a}"
    using h by (simp add: holds_def)
  then obtain p q where q: "queue s = p # q" by (cases "queue s") auto
  moreover have "p_buf p = packet_no pt base f (Suc d)" using h q m by (simp add: holds_def)
  ultimately show thesis using m that by auto
qed

lemma has_next_iff:
  assumes h: "holds pt base N f d A s" and r: "run_ok pt base N f"
  shows "has_next_packet s \<longleftrightarrow> Suc d \<in> A"
proof
  assume "Suc d \<in> A"
  then obtain p q where "queue s = p # q" "offset base (p_seq p) = Suc d" by (rule head_waiting [OF h])
  moreover from this have "p_seq p = base + of_nat (Suc d)" 
    by (intro offset_inj [of base]) (use h r \<open>Suc d \<in> A\<close> in \<open>auto simp: holds_def run_ok_def simp del: of_nat_Suc\<close>)
  ultimately show "has_next_packet s" using h by (simp add: has_next_packet_def holds_def ac_simps)
next
  assume n: "has_next_packet s"
  then obtain p q where q: "queue s = p # q" "p_seq p = seq s + 1"
    by (auto simp: has_next_packet_def split: list.splits)
  have "p_seq p = base + of_nat (Suc d)" using q h by (simp add: holds_def ac_simps)
  moreover have "Suc d < 65536" using h r by (simp add: holds_def run_ok_def)
  ultimately have o: "offset base (p_seq p) = Suc d" by (simp del: of_nat_Suc)
  have "set (map (\<lambda>p. offset base (p_seq p)) (queue s)) = {a \<in> A. d < a}"
    using h finite_waiting [OF h] by (simp add: holds_def)
  then show "Suc d \<in> A" using q(1) o by auto
qed

lemma holds_next:
  assumes h: "holds pt base N f d A s" and r: "run_ok pt base N f" and d: "Suc d \<le> N"
    and s': "ready pt s'" "seq s' = seq s + 1" "queue_size s' = queue_size s"
    and q: "map (\<lambda>p. offset base (p_seq p)) (queue s') = sorted_list_of_set {a \<in> A. Suc d < a}"
      "set (queue s') \<subseteq> set (queue s)"
  shows "holds pt base N f (Suc d) (insert (Suc d) A) s'"
proof -
  have "{a \<in> insert (Suc d) A. Suc d < a} = {a \<in> A. Suc d < a}" by auto
  moreover have "{1..Suc d} \<subseteq> insert (Suc d) A" using h by (auto simp: holds_def atLeastAtMostSuc_conv)
  ultimately show ?thesis using h d s' q by (auto simp: holds_def ac_simps)
qed

lemma parse_queued:
  assumes h: "holds pt base N f d A s" and r: "run_ok pt base N f" and d: "Suc d \<in> A"
  obtains pkt' s' where "rtp_parse_queued_packet L pkt s = (Ok 0, pkt', s')"
    "pkt_data pkt' = unpack (payload_no f (Suc d))" "holds pt base N f (Suc d) A s'"
proof -
  obtain p q where q: "queue s = p # q" "p_buf p = packet_no pt base f (Suc d)"
    "map (\<lambda>p. offset base (p_seq p)) q = sorted_list_of_set {a \<in> A. Suc d < a}"
    by (rule head_waiting [OF h d])
  have dN: "Suc d \<le> N" using h d by (auto simp: holds_def)
  have rd: "ready pt s" "seq s = base + of_nat d" using h by (auto simp: holds_def)
  have pt: "96 \<le> pt" "pt < 128" and g: "good (payload_no f (Suc d))" using r dN by (auto simp: run_ok_def)
  obtain m ts ss where b: "packet_no pt base f (Suc d)
      = rtp_packet pt m (base + of_nat (Suc d)) ts ss (payload_no f (Suc d))" by (rule packet_no_eq)
  have b: "p_buf p = rtp_packet pt m (seq s + 1) ts ss (payload_no f (Suc d))"
    using q(2) b rd by (simp add: ac_simps)
  obtain pkt1 s1 where i: "rtp_parse_packet_internal L pkt (p_buf p) s = (Ok 0, pkt1, s1)"
    "pkt_data pkt1 = unpack (payload_no f (Suc d))" "ready pt s1" "seq s1 = seq s + 1" "queue s1 = queue s"
    "queue_size s1 = queue_size s"
    unfolding b by (rule internal_next [OF rd(1) pt g])
  define s2 where "s2 = s1\<lparr>queue := tl (queue s1), queue_len := queue_len s1 - 1\<rparr>"
  have len: "queue_len s = int (length (queue s))" using rd(1) by (simp add: ready_def)
  have "rtp_parse_queued_packet L pkt s = (Ok 0, pkt1, s2)"
    using i(1) q(1) len by (simp add: rtp_parse_queued_packet_def s2_def)
  moreover have "holds pt base N f (Suc d) (insert (Suc d) A) s2"
    by (rule holds_next [OF h r dN])
      (use i q rd(1) in \<open>auto simp: s2_def ready_def\<close>)
  ultimately show thesis using i(2) d that by (simp add: insert_absorb)
qed

lemma holds_frame:
  "holds pt base N f d A (s\<lparr>prev_ret := r\<rparr>) = holds pt base N f d A s"
  by (simp add: holds_def ready_def)

lemma has_next_prev [simp]: "has_next_packet (s\<lparr>prev_ret := r\<rparr>) = has_next_packet s"
  by (simp add: has_next_packet_def split: list.split)

lemma loop_ok [simp]: "parse_queued_loop n L (Ok x, pkt, s) = (Ok x, pkt, s)"
  by (cases n) simp_all

text \<open>A call without a buffer puts out the next packet of the queue.\<close>

lemma step_queued:
  assumes h: "holds pt base N f d A s" and r: "run_ok pt base N f" and d: "Suc d \<in> A" and p: "prev_ret s = Ok 0"
  obtains pkt' s' where
    "ff_rtp_parse_packet L C pkt None s = ((Ok (of_bool (Suc (Suc d) \<in> A)), pkt', s'), False)"
    "pkt_data pkt' = unpack (payload_no f (Suc d))" "holds pt base N f (Suc d) A s'" "prev_ret s' = Ok 0"
proof -
  obtain pkt' s' where q: "rtp_parse_queued_packet L pkt s = (Ok 0, pkt', s')"
    "pkt_data pkt' = unpack (payload_no f (Suc d))" "holds pt base N f (Suc d) A s'"
    by (rule parse_queued [OF h r d])
  then have "ff_rtp_parse_packet L C pkt None s
      = ((Ok (of_bool (Suc (Suc d) \<in> A)), pkt', s'\<lparr>prev_ret := Ok 0\<rparr>), False)"
    using p has_next_iff [OF q(3) r]
    by (simp add: ff_rtp_parse_packet_def rtp_parse_one_packet_def finish_parse_def)
  then show thesis using q that by (simp add: holds_frame)
qed

text \<open>What is common to the arrival of a packet.\<close>

lemma arrival:
  assumes r: "run_ok pt base N f" and k: "1 \<le> k" "k \<le> N" and s: "\<not> srtp_enabled s"
  shows "ff_rtp_parse_packet L C pkt (Some (packet_no pt base f k)) s =
    (case rtp_receive L pkt (packet_no pt base f k) (update_arrival L (packet_no pt base f k) s) of
       ((rv, pkt, s), taken) \<Rightarrow>
         (finish_parse (parse_queued_loop (length (queue s)) L (rv, pkt, s\<lparr>prev_ret := rv\<rparr>)), taken))"
proof -
  obtain m ts ss where b: "packet_no pt base f k = rtp_packet pt m (base + of_nat k) ts ss (payload_no f k)"
    by (rule packet_no_eq)
  have pt: "96 \<le> pt" "pt < 128" using r by (auto simp: run_ok_def)
  show ?thesis
    unfolding b ff_rtp_parse_packet_def
    using s by (simp add: rtp_parse_one_packet_def rtp_packet_fields rtp_packet_type [OF pt] Let_def split: prod.split)
qed

lemma holds_arrival:
  "holds pt base N f d A s \<Longrightarrow> holds pt base N f d A (update_arrival L buf s)"
  "\<not> srtp_enabled s \<Longrightarrow> \<not> srtp_enabled (update_arrival L buf s)"
  by (auto simp: update_arrival_def lib_call_def holds_def ready_def rtcp_update_jitter_def Let_def)

lemma not_first:
  assumes "run_ok pt base N f" "holds pt base N f d A s"
  shows "seq s \<noteq> 0"
proof -
  have "unat (base + of_nat d) = unat base + d"
    using assms by (simp add: run_ok_def holds_def unat_word_ariths unsigned_of_nat take_bit_nat_eq_self)
  then show ?thesis using assms by (auto simp: run_ok_def holds_def)
qed

lemma seq_packet_no: "AV_RB16 (packet_no pt base f k) 2 = base + of_nat k"
  by (cases "f k") (simp add: packet_no_def rtp_packet_fields)

lemma diff_packet:
  assumes "run_ok pt base N f" "holds pt base N f d A s" "k \<le> N"
  shows "seq_diff (AV_RB16 (packet_no pt base f k) 2) (seq s) = int k - int d"
  using assms by (simp add: seq_packet_no holds_def run_ok_def seq_diff_offset [of base])

text \<open>The packet that is due is put out at once.\<close>

lemma step_next:
  assumes h: "holds pt base N f d A s" and r: "run_ok pt base N f" and d: "Suc d \<le> N" "Suc d \<notin> A"
  obtains pkt' s' where
    "ff_rtp_parse_packet L C pkt (Some (packet_no pt base f (Suc d))) s
       = ((Ok (of_bool (Suc (Suc d) \<in> A)), pkt', s'), False)"
    "pkt_data pkt' = unpack (payload_no f (Suc d))" "holds pt base N f (Suc d) (insert (Suc d) A) s'"
    "prev_ret s' = Ok 0"
proof -
  have sr: "\<not> srtp_enabled s" using h by (simp add: holds_def ready_def)
  define t where "t = update_arrival L (packet_no pt base f (Suc d)) s"
  have t: "holds pt base N f d A t" using holds_arrival(1) [OF h] by (simp add: t_def)
  have rd: "ready pt t" "seq t = base + of_nat d" using t by (auto simp: holds_def)
  have pt: "96 \<le> pt" "pt < 128" and g: "good (payload_no f (Suc d))" using r d(1) by (auto simp: run_ok_def)
  obtain m ts ss where b0: "packet_no pt base f (Suc d)
      = rtp_packet pt m (base + of_nat (Suc d)) ts ss (payload_no f (Suc d))" by (rule packet_no_eq)
  have b: "packet_no pt base f (Suc d) = rtp_packet pt m (seq t + 1) ts ss (payload_no f (Suc d))"
    using b0 rd by (simp add: ac_simps)
  obtain pkt1 s1 where i: "rtp_parse_packet_internal L pkt (packet_no pt base f (Suc d)) t = (Ok 0, pkt1, s1)"
    "pkt_data pkt1 = unpack (payload_no f (Suc d))" "ready pt s1" "seq s1 = seq t + 1" "queue s1 = queue t"
    "queue_size s1 = queue_size t"
    unfolding b by (rule internal_next [OF rd(1) pt g])
  have rc: "rtp_receive L pkt (packet_no pt base f (Suc d)) t = ((Ok 0, pkt1, s1), False)"
    using i(1) diff_packet [OF r t d(1)] by (simp add: rtp_receive_def)
  have h1: "holds pt base N f (Suc d) (insert (Suc d) A) s1"
  proof (rule holds_next [OF t r d(1) i(3,4,6)])
    have "{a \<in> A. d < a} = {a \<in> A. Suc d < a}" using d(2) by (auto intro: Suc_lessI)
    then show "map (\<lambda>p. offset base (p_seq p)) (queue s1) = sorted_list_of_set {a \<in> A. Suc d < a}"
      using t i(5) by (simp add: holds_def)
  qed (simp add: i(5))
  then have "has_next_packet s1 \<longleftrightarrow> Suc (Suc d) \<in> A" using has_next_iff [OF _ r] by fastforce
  then have "ff_rtp_parse_packet L C pkt (Some (packet_no pt base f (Suc d))) s
      = ((Ok (of_bool (Suc (Suc d) \<in> A)), pkt1, s1\<lparr>prev_ret := Ok 0\<rparr>), False)"
    using arrival [OF r _ d(1) sr, of L C pkt] rc by (simp add: t_def finish_parse_def)
  then show thesis using i(2) h1 that by (simp add: holds_frame)
qed

lemma insert_offsets:
  assumes "offset base (p_seq p) < 32768" "\<forall>q \<in> set qs. offset base (p_seq q) < 32768"
    "\<forall>q \<in> set qs. offset base (p_seq q) \<noteq> offset base (p_seq p)"
  shows "map (\<lambda>p. offset base (p_seq p)) (insert_packet p qs)
    = insort (offset base (p_seq p)) (map (\<lambda>p. offset base (p_seq p)) qs)"
  using assms by (induction qs) (auto simp: seq_diff_offset [of base])

text \<open>A packet that comes before its turn waits.\<close>

lemma step_early:
  assumes h: "holds pt base N f d A s" and r: "run_ok pt base N f" and d: "Suc d \<notin> A"
    and k: "Suc d < k" "k \<le> N" "k \<notin> A" and mem: "\<forall>n. L n \<noteq> 0"
  obtains s' where "ff_rtp_parse_packet L C pkt (Some (packet_no pt base f k)) s = ((Err Minus_one, pkt, s'), True)"
    "holds pt base N f d (insert k A) s'"
proof -
  have sr: "\<not> srtp_enabled s" using h by (simp add: holds_def ready_def)
  define t where "t = update_arrival L (packet_no pt base f k) s"
  have t: "holds pt base N f d A t" using holds_arrival(1) [OF h] by (simp add: t_def)
  obtain now where e: "enqueue_packet L (packet_no pt base f k) t = (Ok 0, t\<lparr>lib_calls := lib_calls t + 2,
      queue := insert_packet \<lparr>p_seq = base + of_nat k, p_buf = packet_no pt base f k, recvtime = now\<rparr> (queue t),
      queue_len := queue_len t + 1\<rparr>)"
    using mem by (simp add: enqueue_packet_def lib_call_def seq_packet_no)
  define p where "p = \<lparr>p_seq = base + of_nat k, p_buf = packet_no pt base f k, recvtime = now\<rparr>"
  define s1 where "s1 = t\<lparr>lib_calls := lib_calls t + 2, queue := insert_packet p (queue t), queue_len := queue_len t + 1\<rparr>"
  have N: "N < 32768" using r by (simp add: run_ok_def)
  then have ok: "offset base (p_seq p) = k" using k by (simp add: p_def)
  have w: "map (\<lambda>p. offset base (p_seq p)) (queue t) = sorted_list_of_set {a \<in> A. d < a}"
    using t by (simp add: holds_def)
  note fin = finite_waiting [OF t]
  have set_q: "(\<lambda>p. offset base (p_seq p)) ` set (queue t) = {a \<in> A. d < a}"
    using w fin by (metis list.set_map set_sorted_list_of_set)
  have AN: "A \<subseteq> {1..N}" using t by (simp add: holds_def)
  have o: "\<forall>q \<in> set (queue t). offset base (p_seq q) < 32768 \<and> offset base (p_seq q) \<noteq> k"
  proof
    fix q
    assume "q \<in> set (queue t)"
    then have "offset base (p_seq q) \<in> A" using set_q by blast
    then show "offset base (p_seq q) < 32768 \<and> offset base (p_seq q) \<noteq> k" using AN N k(3) by auto
  qed
  have "{a \<in> insert k A. d < a} = insert k {a \<in> A. d < a}" using k by auto
  then have m: "map (\<lambda>p. offset base (p_seq p)) (insert_packet p (queue t)) = sorted_list_of_set {a \<in> insert k A. d < a}"
    using o ok k N fin by (simp add: insert_offsets w sorted_list_of_set.sorted_key_list_of_set_insert)
  have h1: "holds pt base N f d (insert k A) s1"
    using t k m ok by (auto simp: holds_def s1_def ready_def p_def)
  have "length (queue t) = card {a \<in> A. d < a}" by (rule queue_length [OF t])
  also have "\<dots> \<le> card {Suc (Suc d)..N}"
  proof (intro card_mono subsetI)
    fix x
    assume x: "x \<in> {a \<in> A. d < a}"
    then have "x \<noteq> Suc d" using d by auto
    with x AN show "x \<in> {Suc (Suc d)..N}" by auto
  qed simp
  finally have "int (length (queue t)) + 1 < queue_size t"
    using t k by (auto simp: holds_def)
  then have rc: "rtp_receive L pkt (packet_no pt base f k) t = ((Err Minus_one, pkt, s1), True)"
    using e t not_first [OF r t] diff_packet [OF r t k(2)] k(1)
    by (simp add: rtp_receive_def s1_def p_def holds_def ready_def)
  have "\<not> has_next_packet s1" using has_next_iff [OF h1 r] d k by simp
  then have "ff_rtp_parse_packet L C pkt (Some (packet_no pt base f k)) s
      = ((Err Minus_one, pkt, s1\<lparr>prev_ret := Err Minus_one\<rparr>), True)"
    using arrival [OF r _ k(2) sr, of L C pkt] k rc by (simp add: t_def finish_parse_def)
  then show thesis using h1 that by (simp add: holds_frame)
qed

lemma drain_all:
  assumes "holds pt base N f d A s" "run_ok pt base N f" "prev_ret s = Ok 0" "Suc d \<in> A" "length (queue s) \<le> n"
  obtains e pkts s' where "drain n L C s = (pkts, s')" "d < e" "{Suc d..e} \<subseteq> A" "Suc e \<notin> A"
    "map pkt_data pkts = map (\<lambda>k. unpack (payload_no f k)) [Suc d..<Suc e]" "holds pt base N f e A s'"
  using assms
proof (induction n arbitrary: d s thesis)
  case 0
  obtain p q where "queue s = p # q" by (rule head_waiting [OF 0(2,5)])
  with 0 show ?case by simp
next
  case (Suc n)
  obtain pkt' s' where q: "ff_rtp_parse_packet L C (new_packet []) None s
      = ((Ok (of_bool (Suc (Suc d) \<in> A)), pkt', s'), False)"
    "pkt_data pkt' = unpack (payload_no f (Suc d))" "holds pt base N f (Suc d) A s'" "prev_ret s' = Ok 0"
    by (rule step_queued [OF Suc.prems(2,3,5,4)])
  show ?case
  proof (cases "Suc (Suc d) \<in> A")
    case False
    then show ?thesis
      using q Suc.prems(5) by (intro Suc.prems(1) [of "[pkt']" s' "Suc d"]) simp_all
  next
    case True
    have "{a \<in> A. d < a} = insert (Suc d) {a \<in> A. Suc d < a}" using Suc.prems(5) by auto
    then have N: "length (queue s') \<le> n"
      using Suc.prems(6) queue_length [OF Suc.prems(2)] queue_length [OF q(3)] finite_waiting [OF q(3)] by simp
    obtain e pkts s2 where i: "drain n L C s' = (pkts, s2)" "Suc d < e" "{Suc (Suc d)..e} \<subseteq> A" "Suc e \<notin> A"
      "map pkt_data pkts = map (\<lambda>k. unpack (payload_no f k)) [Suc (Suc d)..<Suc e]" "holds pt base N f e A s2"
      by (rule Suc.IH [OF _ q(3) Suc.prems(3) q(4) True N])
    have "{Suc d..e} = insert (Suc d) {Suc (Suc d)..e}" using i(2) by auto
    moreover have "[Suc d..<Suc e] = Suc d # [Suc (Suc d)..<Suc e]" using i(2) by (intro upt_conv_Cons) simp
    ultimately show ?thesis
      using i q True Suc.prems(5) by (intro Suc.prems(1) [of "pkt' # pkts" s2 e]) simp_all
  qed
qed

lemma receive_step:
  assumes h: "holds pt base N f d A s" and r: "run_ok pt base N f" and d: "Suc d \<notin> A"
    and k: "1 \<le> k" "k \<le> N" "k \<notin> A" and mem: "\<forall>n. L n \<noteq> 0"
  obtains e pkts s' where "receive_datagram L C (packet_no pt base f k) s = (pkts, s')" "d \<le> e"
    "Suc e \<notin> insert k A" "map pkt_data pkts = map (\<lambda>k. unpack (payload_no f k)) [Suc d..<Suc e]"
    "holds pt base N f e (insert k A) s'"
proof -
  have "{1..d} \<subseteq> A" using h by (simp add: holds_def)
  then have "d < k" using k by (meson atLeastAtMost_iff not_le subsetD)
  then consider "k = Suc d" | "Suc d < k" by linarith
  then show thesis
  proof cases
    case 1
    obtain pkt' s1 where n: "ff_rtp_parse_packet L C (new_packet []) (Some (packet_no pt base f (Suc d))) s
         = ((Ok (of_bool (Suc (Suc d) \<in> A)), pkt', s1), False)"
      "pkt_data pkt' = unpack (payload_no f (Suc d))" "holds pt base N f (Suc d) (insert (Suc d) A) s1"
      "prev_ret s1 = Ok 0"
      using step_next [OF h r _ d] k(2) 1 by blast
    show thesis
    proof (cases "Suc (Suc d) \<in> A")
      case False
      then show thesis
        using n 1 that [of "[pkt']" s1 "Suc d"] by (simp add: receive_datagram_def)
    next
      case True
      let ?A = "insert (Suc d) A"
      obtain e pkts s2 where i: "drain (length (queue s1) + 1) L C s1 = (pkts, s2)" "Suc d < e"
        "{Suc (Suc d)..e} \<subseteq> ?A" "Suc e \<notin> ?A"
        "map pkt_data pkts = map (\<lambda>k. unpack (payload_no f k)) [Suc (Suc d)..<Suc e]" "holds pt base N f e ?A s2"
        by (rule drain_all [OF n(3) r n(4), of "length (queue s1) + 1" L C]) (use True in simp_all)
      have "[Suc d..<Suc e] = Suc d # [Suc (Suc d)..<Suc e]" using i(2) by (intro upt_conv_Cons) simp
      then show thesis
        using n 1 i True that [of "pkt' # pkts" s2 e] by (simp add: receive_datagram_def)
    qed
  next
    case 2
    obtain s' where e: "ff_rtp_parse_packet L C (new_packet []) (Some (packet_no pt base f k)) s
        = ((Err Minus_one, new_packet [], s'), True)" "holds pt base N f d (insert k A) s'"
      by (rule step_early [OF h r d 2 k(2,3) mem])
    then show thesis
      using d 2 that [of "[]" s' d] by (simp add: receive_datagram_def)
  qed
qed

lemma receive_run:
  assumes "holds pt base N f d A s" "run_ok pt base N f" "Suc d \<notin> A" "\<forall>n. L n \<noteq> 0"
    "distinct ks" "set ks \<inter> A = {}" "set ks \<subseteq> {1..N}"
  shows "\<exists>e pkts s'. receive_datagrams L C (map (packet_no pt base f) ks) s = (pkts, s') \<and> d \<le> e
    \<and> map pkt_data pkts = map (\<lambda>k. unpack (payload_no f k)) [Suc d..<Suc e]
    \<and> holds pt base N f e (A \<union> set ks) s' \<and> Suc e \<notin> A \<union> set ks"
  using assms
proof (induction ks arbitrary: d A s)
  case Nil
  then show ?case by (intro exI [of _ d] exI [of _ "[]"] exI [of _ s]) simp
next
  case (Cons k ks)
  have k: "1 \<le> k" "k \<le> N" "k \<notin> A" using Cons.prems by auto
  obtain e pkts s1 where s: "receive_datagram L C (packet_no pt base f k) s = (pkts, s1)" "d \<le> e"
    "Suc e \<notin> insert k A" "map pkt_data pkts = map (\<lambda>k. unpack (payload_no f k)) [Suc d..<Suc e]"
    "holds pt base N f e (insert k A) s1"
    by (rule receive_step [OF Cons.prems(1,2,3) k Cons.prems(4)])
  have "\<exists>e' more s'. receive_datagrams L C (map (packet_no pt base f) ks) s1 = (more, s') \<and> e \<le> e'
    \<and> map pkt_data more = map (\<lambda>k. unpack (payload_no f k)) [Suc e..<Suc e']
    \<and> holds pt base N f e' (insert k A \<union> set ks) s' \<and> Suc e' \<notin> insert k A \<union> set ks"
    by (rule Cons.IH [OF s(5) Cons.prems(2) s(3) Cons.prems(4)]) (use Cons.prems in auto)
  then obtain e' more s' where r: "receive_datagrams L C (map (packet_no pt base f) ks) s1 = (more, s')" "e \<le> e'"
    "map pkt_data more = map (\<lambda>k. unpack (payload_no f k)) [Suc e..<Suc e']"
    "holds pt base N f e' (insert k A \<union> set ks) s'" "Suc e' \<notin> insert k A \<union> set ks" by blast
  have "[Suc d..<Suc e'] = [Suc d..<Suc e] @ [Suc e..<Suc e']"
    using s(2) r(2) by (metis le_add_diff_inverse not_less_eq_eq upt_add_eq_append)
  then show ?case
    using s r by (intro exI [of _ e'] exI [of _ "pkts @ more"] exI [of _ s']) simp
qed

text \<open>Whatever the order of arrival, the packets come out in the order of their numbers.\<close>

lemma any_order:
  assumes "ready pt s" "queue s = []" "seq s = base" "int N < queue_size s" "1 < queue_size s"
    "run_ok pt base N f" "\<forall>n. L n \<noteq> 0" "distinct ks" "set ks = {1..N}"
  obtains pkts s' where "receive_datagrams L C (map (packet_no pt base f) ks) s = (pkts, s')"
    "map pkt_data pkts = map (\<lambda>k. unpack (payload_no f k)) [1..<Suc N]"
    "ready pt s'" "queue s' = []" "seq s' = base + of_nat N"
proof -
  have "holds pt base N f 0 {} s" using assms by (simp add: holds_def)
  then have "\<exists>e pkts s'. receive_datagrams L C (map (packet_no pt base f) ks) s = (pkts, s') \<and> 0 \<le> e
    \<and> map pkt_data pkts = map (\<lambda>k. unpack (payload_no f k)) [Suc 0..<Suc e]
    \<and> holds pt base N f e ({} \<union> set ks) s' \<and> Suc e \<notin> {} \<union> set ks"
    by (rule receive_run) (use assms in auto)
  then obtain e pkts s' where e: "receive_datagrams L C (map (packet_no pt base f) ks) s = (pkts, s')"
    "map pkt_data pkts = map (\<lambda>k. unpack (payload_no f k)) [1..<Suc e]"
    "holds pt base N f e {1..N} s'" "Suc e \<notin> {1..N}" using assms(9) by auto
  have N: "e = N" using e(3,4) by (simp add: holds_def)
  moreover have "{a \<in> {1..N}. N < a} = {}" by auto
  then have "queue s' = []" using queue_length [OF e(3)] unfolding N by (simp only: card.empty length_0_conv)
  ultimately show thesis using that e by (simp add: holds_def)
qed

end

section \<open>A receiver for examples\<close>

definition example_par :: AVCodecParameters where
  "example_par = \<lparr>par_codec_type = AVMEDIA_TYPE_VIDEO, par_codec_id = CODEC_H264, par_sample_rate = 0,
     par_nb_channels = 0, par_block_align = 0, par_bits_per_coded_sample = 0, par_extradata = [],
     par_width = 0, par_height = 0\<rparr>"

text \<open>It has received packet 100 and has room for 500 packets in its queue.\<close>

definition idle_receiver :: "'p \<Rightarrow> 'p RTPDemuxContext" where
  "idle_receiver ctx = \<lparr>lib_calls = 0, ic_nb_streams = 1, ic_metadata = [],
     st = \<lparr>st_index = 0, st_id = 96, st_time_base = (1, 90000), codecpar = example_par\<rparr>,
     payload_type = 96, ssrc = 7, seq = 100, timestamp = 0, base_timestamp = 0, unwrapped_timestamp = 0,
     range_start_offset = 0, hostname = [], srtp_enabled = False, srtp = example_srtp,
     statistics = (rtp_init_statistics 100)\<lparr>probation := 0\<rparr>, prev_ret = Ok 0, queue = [], queue_len = 0,
     queue_size = 500, last_rtcp_ntp_time = NOPTS_U64, last_rtcp_reception_time = 0,
     first_rtcp_ntp_time = NOPTS_U64, last_rtcp_timestamp = 0, rtcp_ts_offset = 0, octet_count = 0,
     last_octet_count = 0, last_feedback_time = 0, handler = None, dynamic_protocol_context = ctx,
     repair_rtp_pkt_url = None, last_repair_time = 0, repair_attempts = 0, repair_successes = 0\<rparr>"

end
