(* ===== verification/RtpH264.thy ===== *)
theory RtpH264
  imports RtpOrder
begin

text \<open>
  \<^verbatim>\<open>libavformat/rtpdec_h264.c\<close>: the payload handler of H.264 (RFC 6184). Every payload becomes one
  packet, with a start code before each NAL unit that begins in it. Room for a packet of \<open>n\<close> bytes is
  there when \<open>mem n\<close> is; the allocator is a parameter. What the handler reads from the session
  description is in \<open>H264Sdp\<close>.
\<close>

section \<open>Payloads\<close>

definition start_sequence :: bytes where "start_sequence = [0, 0, 0, 1]"

text \<open>The first pass over the units of an aggregate adds up the sizes, the second copies; both make the
  same checks, so the result is the copy.\<close>

function aggregate_units :: "nat \<Rightarrow> bytes \<Rightarrow> bytes res" where
  "aggregate_units skip src =
     (if length src \<le> 2 then Ok []
      else
        let nal_size = unat (AV_RB16 src 0); src = drop 2 src
        in if nal_size \<le> length src
           then map_sum id (\<lambda>rest. start_sequence @ take nal_size src @ rest)
                  (aggregate_units skip (drop (nal_size + skip) src))
           else Err AVERROR_INVALIDDATA)"
  by pat_completeness auto
termination
  by (relation "measure (\<lambda>(skip, src). length src)") auto

declare aggregate_units.simps [simp del]

text \<open>\<open>av_new_packet\<close> with the data copied in.\<close>

definition fill_packet :: "(nat \<Rightarrow> bool) \<Rightarrow> bytes \<Rightarrow> RTPOutput \<Rightarrow> nat res \<times> RTPOutput" where
  "fill_packet mem data pkt = (if mem (length data) then (Ok 0, new_packet data) else (Err ENOMEM, pkt))"

definition ff_h264_handle_aggregated_packet ::
    "(nat \<Rightarrow> bool) \<Rightarrow> nat \<Rightarrow> bytes \<Rightarrow> RTPOutput \<Rightarrow> nat res \<times> RTPOutput" where
  "ff_h264_handle_aggregated_packet mem skip_between buf pkt =
     (case aggregate_units skip_between buf of
        Inl e \<Rightarrow> (Err e, pkt)
      | Inr data \<Rightarrow> fill_packet mem data pkt)"

definition ff_h264_handle_frag_packet ::
    "(nat \<Rightarrow> bool) \<Rightarrow> bytes \<Rightarrow> bool \<Rightarrow> bytes \<Rightarrow> RTPOutput \<Rightarrow> nat res \<times> RTPOutput" where
  "ff_h264_handle_frag_packet mem buf start_bit nal_header pkt =
     fill_packet mem ((if start_bit then start_sequence @ nal_header else []) @ buf) pkt"

definition h264_handle_packet_fu_a :: "(nat \<Rightarrow> bool) \<Rightarrow> bytes \<Rightarrow> RTPOutput \<Rightarrow> nat res \<times> RTPOutput" where
  "h264_handle_packet_fu_a mem buf pkt =
     (if length buf < 3 then (Err AVERROR_INVALIDDATA, pkt)
      else
        let fu_indicator = buf ! 0; fu_header = buf ! 1; start_bit = drop_bit 7 fu_header \<noteq> 0;
            nal_type = fu_header AND 0x1f; nal = (fu_indicator AND 0xe0) OR nal_type
        in ff_h264_handle_frag_packet mem (drop 2 buf) start_bit [nal] pkt)"

definition handle_type :: "(nat \<Rightarrow> bool) \<Rightarrow> nat \<Rightarrow> bytes \<Rightarrow> RTPOutput \<Rightarrow> nat res \<times> RTPOutput" where
  "handle_type mem type buf pkt =
     (if type \<le> 23 then fill_packet mem (start_sequence @ buf) pkt
      else if type = 24 then ff_h264_handle_aggregated_packet mem 0 (tl buf) pkt
      else if type \<in> {25, 26, 27, 29} then (Err AVERROR_PATCHWELCOME, pkt)
      else if type = 28 then h264_handle_packet_fu_a mem buf pkt
      else (Err AVERROR_INVALIDDATA, pkt))"

text \<open>The private context: what the session description said.\<close>

record PayloadContext =
  profile_idc :: u8
  profile_iop :: u8
  level_idc :: u8
  packetization_mode :: int

text \<open>A call without payload has length 0.\<close>

definition h264_handle_packet ::
    "(nat \<Rightarrow> bool) \<Rightarrow> PayloadContext \<Rightarrow> rtp_stream \<Rightarrow> RTPOutput \<Rightarrow> u32 \<Rightarrow> bytes option \<Rightarrow> u16 \<Rightarrow> bool
     \<Rightarrow> nat res \<times> RTPOutput \<times> u32 \<times> PayloadContext" where
  "h264_handle_packet mem ctx str pkt ts payload sq marker =
     (case payload of None \<Rightarrow> (Err AVERROR_INVALIDDATA, pkt, ts, ctx)
      | Some [] \<Rightarrow> (Err AVERROR_INVALIDDATA, pkt, ts, ctx)
      | Some buf \<Rightarrow>
          let type = unat (buf ! 0 AND 0x1f); (r, pkt') = handle_type mem type buf pkt
          in if type \<le> 23 \<and> \<not> is_ok r then (r, pkt', ts, ctx)
             else (r, pkt'\<lparr>pkt_stream := st_index str\<rparr>, ts, ctx))"

definition ff_h264_dynamic_handler :: "(nat \<Rightarrow> bool) \<Rightarrow> PayloadContext RTPDynamicProtocolHandler" where
  "ff_h264_dynamic_handler mem = \<lparr>enc_name = ''H264'', h_codec_type = AVMEDIA_TYPE_VIDEO,
     h_codec_id = CODEC_H264, static_payload_id = 0, parse_packet = Some (h264_handle_packet mem),
     need_keyframe = None\<rparr>"


section \<open>The handler as a depacketizer\<close>

definition payload_type_of :: "bytes \<Rightarrow> nat" where
  "payload_type_of p = unat (p ! 0 AND 0x1f)"

definition h264_good :: "bytes \<Rightarrow> bool" where
  "h264_good p \<longleftrightarrow> p \<noteq> [] \<and> (payload_type_of p \<le> 23 \<or> payload_type_of p = 24 \<and> is_ok (aggregate_units 0 (tl p))
     \<or> payload_type_of p = 28 \<and> 3 \<le> length p)"

text \<open>What a payload adds to the byte stream.\<close>

definition h264_data :: "bytes \<Rightarrow> bytes" where
  "h264_data p =
     (if payload_type_of p \<le> 23 then start_sequence @ p
      else if payload_type_of p = 24 then (case aggregate_units 0 (tl p) of Inr d \<Rightarrow> d | Inl _ \<Rightarrow> [])
      else (if drop_bit 7 (p ! 1) \<noteq> 0
            then start_sequence @ [(p ! 0 AND 0xe0) OR (p ! 1 AND 0x1f)] else []) @ drop 2 p)"

interpretation h264: depacketizer "h264_handle_packet (\<lambda>_. True)" h264_good h264_data
proof
  fix payload str pkt ts sq m ctx
  assume g: "h264_good payload"
  then obtain b bs where p: "payload = b # bs" by (cases payload) (auto simp: h264_good_def)
  have t: "payload_type_of payload = unat (b AND 0x1f)" by (simp add: payload_type_of_def p)
  from g [unfolded h264_good_def t]
  consider (single) "unat (b AND 0x1f) \<le> 23"
    | (stap) d where "unat (b AND 0x1f) = 24" "aggregate_units 0 bs = Ok d"
    | (fu) "unat (b AND 0x1f) = 28" "3 \<le> length payload"
    by (auto simp: p is_ok_iff)
  then show "\<exists>pkt' ts' ctx'. h264_handle_packet (\<lambda>_. True) ctx str pkt ts (Some payload) sq m = (Ok 0, pkt', ts', ctx')
      \<and> pkt_data pkt' = h264_data payload"
    by cases (simp_all add: p payload_type_of_def h264_data_def h264_handle_packet_def handle_type_def fill_packet_def
      new_packet_def ff_h264_handle_aggregated_packet_def h264_handle_packet_fu_a_def ff_h264_handle_frag_packet_def Let_def)
qed

section \<open>What the packetiser's payloads decode to\<close>

definition nal_ok :: "bytes \<Rightarrow> bool" where
  "nal_ok n \<longleftrightarrow> n \<noteq> [] \<and> unat (n ! 0 AND 0x1f) \<le> 23 \<and> n ! 0 < 0x80"

definition annexb :: "bytes list \<Rightarrow> bytes" where
  "annexb ns = concat (map ((@) start_sequence) ns)"

lemma annexb_simps [simp]: "annexb [] = []" "annexb (n # ns) = start_sequence @ n @ annexb ns"
  "annexb (ns @ ms) = annexb ns @ annexb ms"
  by (simp_all add: annexb_def)

definition stap :: "bytes list \<Rightarrow> bytes" where
  "stap us = 24 # concat (map (\<lambda>u. AV_WB16 (of_nat (length u)) @ u) us)"

lemma single_decodes: "nal_ok n \<Longrightarrow> h264_good n \<and> h264_data n = start_sequence @ n"
  by (simp add: nal_ok_def h264_good_def h264_data_def payload_type_of_def)

lemma aggregate_decodes:
  assumes "\<forall>u \<in> set us. u \<noteq> [] \<and> length u < 65536"
  shows "aggregate_units 0 (concat (map (\<lambda>u. AV_WB16 (of_nat (length u)) @ u) us)) = Ok (annexb us)"
  using assms
proof (induction us)
  case Nil
  show ?case by (subst aggregate_units.simps) simp
next
  case (Cons u us)
  let ?r = "concat (map (\<lambda>u. AV_WB16 (of_nat (length u)) @ u) us)"
  have "unat (AV_RB16 (AV_WB16 (of_nat (length u)) @ u @ ?r) 0) = length u"
    using Cons.prems by (simp add: unsigned_of_nat take_bit_nat_eq_self)
  moreover have "aggregate_units 0 ?r = Ok (annexb us)" using Cons by simp
  moreover have "0 < length u" using Cons.prems by simp
  ultimately show ?case by (subst aggregate_units.simps) (simp add: Let_def)
qed

lemma stap_decodes:
  assumes "\<forall>u \<in> set us. u \<noteq> [] \<and> length u < 65536"
  shows "h264_good (stap us) \<and> h264_data (stap us) = annexb us"
proof -
  have "payload_type_of (stap us) = 24" by (simp add: payload_type_of_def stap_def)
  then show ?thesis
    using aggregate_decodes [OF assms] by (simp add: h264_good_def h264_data_def) (simp add: stap_def)
qed

text \<open>The bytes of a fragment, for every first byte of a unit.\<close>

definition fu_ok :: "u8 \<Rightarrow> bool" where
  "fu_ok n \<longleftrightarrow> unat ((28 OR (n AND 0x60)) AND 0x1f) = 28
     \<and> list_all (\<lambda>fu. ((28 OR (n AND 0x60)) AND 0xe0) OR (fu AND 0x1f) = n)
         [(n AND 0x1f) OR 0x80, ((n AND 0x1f) OR 0x80) AND 0x7f, ((n AND 0x1f) OR 0x80) OR 0x40,
          (((n AND 0x1f) OR 0x80) AND 0x7f) OR 0x40]
     \<and> drop_bit 7 ((n AND 0x1f) OR 0x80) \<noteq> 0 \<and> drop_bit 7 (((n AND 0x1f) OR 0x80) AND 0x7f) = 0
     \<and> drop_bit 7 ((((n AND 0x1f) OR 0x80) AND 0x7f) OR 0x40) = 0
     \<and> (((n AND 0x1f) OR 0x80) AND 0x7f) AND 0x7f = ((n AND 0x1f) OR 0x80) AND 0x7f"

lemma fu_ok_all: "list_all (\<lambda>k. fu_ok (of_nat k)) [0..<128]"
  by code_simp

lemma fu_ok_byte: "n < 0x80 \<Longrightarrow> fu_ok n"
proof -
  assume "n < 0x80"
  then have "unat n \<in> set [0..<128]" unfolding set_upt by (simp add: word_less_nat_alt del: upt_Suc)
  then have "fu_ok (of_nat (unat n))" using fu_ok_all unfolding list_all_iff by blast
  then show ?thesis by simp
qed

end
