(* ===== verification/RtpFeedback.thy ===== *)
theory RtpFeedback
  imports RtpOrder
begin

text \<open>
  What the queue of \<^verbatim>\<open>libavformat/rtpdec.c\<close> is used for: the loop that empties it, the report of missing
  packets, the repair over HTTP, and the two ways in which the queue does not do what it is for:
  a duplicate that blocks it, and the setting of the P2P demuxer that switches it off.
\<close>

section \<open>The length of the queue\<close>

definition queue_ok :: "'p RTPDemuxContext \<Rightarrow> bool" where
  "queue_ok s \<longleftrightarrow> queue_len s = int (length (queue s))"

text \<open>What the parsing of a packet leaves alone.\<close>

definition queue_part where
  "queue_part s = (queue s, queue_len s, queue_size s, srtp_enabled s)"

lemma finalize_queue_part: "finalize_packet L pkt ts s = (pkt', s') \<Longrightarrow> queue_part s' = queue_part s"
  using finalize_frame(2) [of L pkt ts s pkt' s'] by (simp add: queue_part_def frame_def)

lemma deliver_queue_part:
  assumes "deliver_payload L pkt ts payload sq m s = (rv, pkt', s')"
  shows "queue_part s' = queue_part s \<and> seq s' = seq s"
proof -
  have f: "queue_part s2 = queue_part s1 \<and> seq s2 = seq s1" if "finalize_packet L p t s1 = (p', s2)" for p t s1 p' s2
    using finalize_frame(2) [OF that] by (simp add: queue_part_def frame_def)
  show ?thesis
    using assms
    by (auto simp: deliver_payload_def lib_call_def Let_def queue_part_def
        split: option.splits prod.splits if_splits dest!: f)
qed

lemma internal_queue_part:
  assumes "rtp_parse_packet_internal L pkt b s = (rv, pkt', s')"
  shows "queue_part s' = queue_part s" "seq s' = seq s \<or> seq s' = AV_RB16 b 2"
proof -
  have "queue_part s' = queue_part s \<and> (seq s' = seq s \<or> seq s' = AV_RB16 b 2)"
    using assms
    by (auto simp: rtp_parse_packet_internal_def Let_def queue_part_def
        split: if_splits prod.splits sum.splits dest!: deliver_queue_part)
  then show "queue_part s' = queue_part s" "seq s' = seq s \<or> seq s' = AV_RB16 b 2" by auto
qed

lemma queued_packet_ok:
  assumes "queue_ok s" "queue s \<noteq> []" "rtp_parse_queued_packet L pkt s = (rv, pkt', s')"
  shows "queue_ok s' \<and> queue s' = tl (queue s) \<and> queue_size s' = queue_size s \<and> srtp_enabled s' = srtp_enabled s"
proof -
  obtain r p t where i: "rtp_parse_packet_internal L pkt (p_buf (hd (queue s))) s = (r, p, t)"
    by (cases "rtp_parse_packet_internal L pkt (p_buf (hd (queue s))) s")
  note q = internal_queue_part(1) [OF i]
  obtain x xs where "queue s = x # xs" using assms(2) by (cases "queue s") auto
  then show ?thesis
    using assms q i by (auto simp: rtp_parse_queued_packet_def queue_ok_def queue_part_def)
qed

lemma loop_queue_ok:
  assumes "queue_ok s" "length (queue s) \<le> n" "parse_queued_loop n L (rv, pkt, s) = (rv', pkt', s')"
  shows "queue_ok s' \<and> (is_ok rv' \<or> \<not> has_next_packet s') \<and> length (queue s') \<le> length (queue s)"
  using assms
proof (induction n arbitrary: rv pkt s)
  case 0
  then show ?case by (auto simp: has_next_packet_def)
next
  case (Suc n)
  show ?case
  proof (cases "\<not> is_ok rv \<and> has_next_packet s")
    case True
    then have q: "queue s \<noteq> []" by (auto simp: has_next_packet_def split: list.splits)
    obtain rv1 pkt1 s1 where p: "rtp_parse_queued_packet L pkt s = (rv1, pkt1, s1)"
      by (cases "rtp_parse_queued_packet L pkt s")
    note k = queued_packet_ok [OF Suc.prems(1) q p]
    have "queue_ok s' \<and> (is_ok rv' \<or> \<not> has_next_packet s') \<and> length (queue s') \<le> length (queue s1)"
      by (rule Suc.IH) (use k p True Suc.prems in auto)
    then show ?thesis using k by auto
  next
    case False
    then show ?thesis using Suc.prems by auto
  qed
qed

lemma queued_packet_any:
  assumes "queue_ok s" "rtp_parse_queued_packet L pkt s = (rv, pkt', s')"
  shows "queue_ok s'"
proof (cases "queue s = []")
  case True
  then show ?thesis using assms by (auto simp: rtp_parse_queued_packet_def queue_ok_def)
next
  case False
  then show ?thesis using queued_packet_ok [OF assms(1) False assms(2)] by simp
qed

lemma ok_by_part: "queue_part s2 = queue_part s1 \<Longrightarrow> queue_ok s2 = queue_ok s1"
  by (simp add: queue_ok_def queue_part_def)

lemma arrival_part [simp]: "queue_part (update_arrival L b s) = queue_part s"
  by (simp add: update_arrival_def lib_call_def queue_part_def Let_def)

lemma rtcp_part: "queue_part (snd (rtcp_parse_packet L b s)) = queue_part s"
proof (induction L b s rule: rtcp_parse_packet.induct)
  case (1 L b s)
  have sr: "queue_part (rtcp_sender_report L b s) = queue_part s"
    by (simp add: rtcp_sender_report_def lib_call_def queue_part_def Let_def)
  show ?case
    using 1 sr by (subst rtcp_parse_packet.simps) (simp add: Let_def)
qed

lemma enqueue_ok:
  "queue_ok s \<Longrightarrow> enqueue_packet L b s = (r, s') \<Longrightarrow> queue_ok s'"
  by (auto simp: enqueue_packet_def lib_call_def queue_ok_def Let_def split: if_splits)

lemma receive_queue_ok:
  assumes "queue_ok s" "rtp_receive L pkt b s = ((rv, pkt', s'), taken)"
  shows "queue_ok s'"
proof -
  have i: "queue_ok s2" if "rtp_parse_packet_internal L pkt b s1 = (rv1, pkt1, s2)" "queue_ok s1" for s1 rv1 pkt1 s2
    using internal_queue_part(1) [OF that(1)] that(2) ok_by_part by blast
  show ?thesis
    using assms
    by (auto simp: rtp_receive_def Let_def split: if_splits prod.splits sum.splits
        dest: i enqueue_ok queued_packet_any)
qed

text \<open>The packet left over of the last payload.\<close>

lemma continue_part:
  assumes "(case parse ctx str pkt ts None 0 False of
      (rv, pkt, ts, ctx) \<Rightarrow> let (pkt, s) = finalize_packet L pkt ts (s\<lparr>dynamic_protocol_context := ctx\<rparr>) in ((rv, pkt, s), False))
    = ((rv, pkt', s'), taken)"
  shows "queue_part s' = queue_part s"
proof -
  obtain r p t c where e: "parse ctx str pkt ts None 0 False = (r, p, t, c)" by (metis prod_cases4)
  obtain p2 s2 where f: "finalize_packet L p t (s\<lparr>dynamic_protocol_context := c\<rparr>) = (p2, s2)"
    by (cases "finalize_packet L p t (s\<lparr>dynamic_protocol_context := c\<rparr>)")
  show ?thesis using assms finalize_queue_part [OF f] by (simp add: e f queue_part_def)
qed

lemma parse_one_cases:
  assumes "rtp_parse_one_packet L pkt b s = ((rv, pkt', s'), taken)"
  obtains (same) "queue_part s' = queue_part s"
    | (queued) "rtp_parse_queued_packet L pkt s = (rv, pkt', s')"
    | (received) d where "rtp_receive L pkt d (update_arrival L d s) = ((rv, pkt', s'), taken)"
proof (cases b)
  case None
  show thesis
  proof (cases "prev_ret s")
    case (Inl e)
    then show thesis using assms None queued by (simp add: rtp_parse_one_packet_def)
  next
    case (Inr n)
    then show thesis
      using assms None same queued continue_part
      by (cases n; cases "Option.bind (handler s) parse_packet") (fastforce simp: rtp_parse_one_packet_def)+
  qed
next
  case (Some d)
  show thesis
  proof (cases "length d < 12 \<or> d ! 0 AND 0xc0 \<noteq> version_byte \<or> RTP_PT_IS_RTCP (d ! 1)")
    case True
    then have "queue_part s' = queue_part s"
      using assms Some rtcp_part [of L d s]
      by (auto simp: rtp_parse_one_packet_def Let_def split: if_splits prod.splits)
    then show thesis by (rule same)
  next
    case False
    then show thesis using assms Some received by (auto simp: rtp_parse_one_packet_def)
  qed
qed

lemma parse_one_queue_ok:
  assumes "queue_ok s" "rtp_parse_one_packet L pkt b s = ((rv, pkt', s'), taken)"
  shows "queue_ok s'"
  using assms(2)
proof (cases rule: parse_one_cases)
  case same
  then show ?thesis using assms(1) ok_by_part by blast
next
  case queued
  then show ?thesis using assms(1) queued_packet_any by blast
next
  case (received d)
  moreover have "queue_ok (update_arrival L d s)" using assms(1) ok_by_part [OF arrival_part] by blast
  ultimately show ?thesis using receive_queue_ok by blast
qed

text \<open>A call of \<open>ff_rtp_parse_packet\<close>: the packet does not decrypt, or it is parsed.\<close>

lemma parse_packet_cases:
  assumes "ff_rtp_parse_packet L C pkt b s = ((rv, pkt', s'), taken)"
  obtains (dropped) c where "\<not> is_ok rv" "s' = s\<lparr>srtp := c\<rparr>" "srtp_enabled s" "pkt' = pkt"
    | (parsed) c d r1 p1 s1 where "rtp_parse_one_packet L pkt d (s\<lparr>srtp := c\<rparr>) = ((r1, p1, s1), taken)"
      "finish_parse (parse_queued_loop (length (queue s1)) L (r1, p1, s1\<lparr>prev_ret := r1\<rparr>)) = (rv, pkt', s')"
proof -
  have step: thesis if e: "(case rtp_parse_one_packet L pkt d (s\<lparr>srtp := c\<rparr>) of ((rv, pkt, s), taken) \<Rightarrow>
      (finish_parse (parse_queued_loop (length (queue s)) L (rv, pkt, s\<lparr>prev_ret := rv\<rparr>)), taken)) = ((rv, pkt', s'), taken)"
    for d c
  proof -
    obtain r1 p1 s1 t1 where o: "rtp_parse_one_packet L pkt d (s\<lparr>srtp := c\<rparr>) = ((r1, p1, s1), t1)"
      by (metis surj_pair)
    show thesis by (rule parsed [of d c r1 p1 s1]) (use e o in simp_all)
  qed
  show thesis
  proof (cases "\<exists>buf. b = Some buf \<and> srtp_enabled s")
    case True
    then obtain buf where b: "b = Some buf" "srtp_enabled s" by blast
    obtain r c where d: "ff_srtp_decrypt C (srtp s) buf = (r, c)" by (cases "ff_srtp_decrypt C (srtp s) buf")
    show thesis
    proof (cases r)
      case (Inl e)
      then show thesis using assms b d by (intro dropped) (auto simp: ff_rtp_parse_packet_def)
    next
      case (Inr x)
      then show thesis using assms b d
        by (intro step [of "Some x" c]) (simp add: ff_rtp_parse_packet_def split_def Let_def)
    qed
  next
    case False
    then have "b = None \<or> \<not> srtp_enabled s" by (cases b) auto
    moreover have "s = s\<lparr>srtp := srtp s\<rparr>" by simp
    ultimately show thesis using assms
      by (intro step [of b "srtp s"]) (auto simp: ff_rtp_parse_packet_def split_def Let_def split: option.splits)
  qed
qed

text \<open>
  C12. The counter of the reordering queue is always its length, and the loop at the end of
  \<open>ff_rtp_parse_packet\<close> comes to an end: after a call either a packet was put out, or the next
  packet is not in the queue, or the packet did not decrypt and the queue is as it was. The fuel
  of the model, the length of the queue, is enough for the loop.
\<close>

theorem queue_counter_and_loop:
  assumes "queue_ok s" "ff_rtp_parse_packet L C pkt b s = ((rv, pkt', s'), taken)"
  shows "queue_ok s' \<and> (is_ok rv \<or> \<not> has_next_packet s' \<or> queue s' = queue s \<and> srtp_enabled s)"
  using assms(2)
proof (cases rule: parse_packet_cases)
  case (dropped c)
  then show ?thesis using assms(1) by (simp add: queue_ok_def)
next
  case (parsed c d r1 p1 s1)
  have q0: "queue_ok (s\<lparr>srtp := c\<rparr>)" using assms(1) by (simp add: queue_ok_def)
  have q1: "queue_ok (s1\<lparr>prev_ret := r1\<rparr>)" using parse_one_queue_ok [OF q0 parsed(1)] by (simp add: queue_ok_def)
  obtain r2 p2 s2 where l: "parse_queued_loop (length (queue s1)) L (r1, p1, s1\<lparr>prev_ret := r1\<rparr>) = (r2, p2, s2)"
    by (metis surj_pair)
  have k: "queue_ok s2 \<and> (is_ok r2 \<or> \<not> has_next_packet s2)"
    using loop_queue_ok [OF q1 _ l] by simp
  have "s' = s2 \<and> is_ok rv = is_ok r2"
    using parsed(2) l by (auto simp: finish_parse_def split: sum.splits nat.splits)
  then show ?thesis using k by auto
qed

theorem queue_counter_and_loop_witness:
  "let ((rv, pkt', s'), taken) = ff_rtp_parse_packet (\<lambda>_. 1) toy_crypto (new_packet [])
       (Some (rtp_packet 96 False 103 0 7 [1, 2, 3])) (idle_receiver ())
   in queue_len s' = int (length (queue s')) \<and> (is_ok rv \<or> \<not> has_next_packet s')"
proof -
  obtain rv pkt' s' taken where r: "ff_rtp_parse_packet (\<lambda>_. 1) toy_crypto (new_packet [])
       (Some (rtp_packet 96 False 103 0 7 [1, 2, 3])) (idle_receiver ()) = ((rv, pkt', s'), taken)"
    by (metis surj_pair)
  have "queue_ok (idle_receiver ())" "\<not> srtp_enabled (idle_receiver ())" by (simp_all add: queue_ok_def idle_receiver_def)
  with queue_counter_and_loop [OF this(1) r] show ?thesis by (simp add: r queue_ok_def)
qed

section \<open>The report of missing packets\<close>

lemma dropWhile_sorted:
  assumes "sorted (map g q)"
  shows "set (dropWhile (\<lambda>p. g p < n) q) = {p \<in> set q. n \<le> g p}" "sorted (map g (dropWhile (\<lambda>p. g p < n) q))"
  using assms by (induction q) (auto simp: not_less)

text \<open>Bit \<open>i - 1\<close> of the mask is set when number \<open>i\<close> after \<open>base\<close> is missing and a later one has come.\<close>

definition lost_no :: "u16 \<Rightarrow> RTPPacket list \<Rightarrow> nat \<Rightarrow> bool" where
  "lost_no base q i \<longleftrightarrow> (\<forall>p \<in> set q. offset base (p_seq p) \<noteq> i) \<and> (\<exists>p \<in> set q. i < offset base (p_seq p))"

lemma dropWhile_offset:
  assumes "queue_sorted base q" "i < 32768"
  shows "dropWhile (\<lambda>p. seq_diff (p_seq p) (base + of_nat i) < 0) q = dropWhile (\<lambda>p. offset base (p_seq p) < i) q"
proof (rule dropWhile_cong)
  fix p
  assume "p \<in> set q"
  then have "offset base (p_seq p) < 32768" using assms(1) by (simp add: queue_sorted_def)
  then show "(seq_diff (p_seq p) (base + of_nat i) < 0) = (offset base (p_seq p) < i)"
    using assms(2) by (simp add: seq_diff_offset [of base])
qed simp

lemma missing_loop_bits:
  assumes "queue_sorted base q" "sorted_wrt (<) is" "\<forall>i \<in> set is. 1 \<le> i \<and> i \<le> 16"
  shows "bit (missing_loop base is q acc) k = (bit acc k \<or> (\<exists>i \<in> set is. k = i - 1 \<and> lost_no base q i))"
  using assms
proof (induction "is" arbitrary: q acc)
  case Nil
  then show ?case by simp
next
  case (Cons i "is")
  define r where "r = dropWhile (\<lambda>p. offset base (p_seq p) < i) q"
  have i: "1 \<le> i" "i \<le> 16" "i < 32768" using Cons.prems(3) by auto
  have d: "dropWhile (\<lambda>p. seq_diff (p_seq p) (base + of_nat i) < 0) q = r"
    unfolding r_def by (rule dropWhile_offset [OF Cons.prems(1) i(3)])
  have sq: "sorted (map (\<lambda>p. offset base (p_seq p)) q)" using Cons.prems(1) by (simp add: queue_sorted_def)
  have sr: "set r = {p \<in> set q. i \<le> offset base (p_seq p)}" "sorted (map (\<lambda>p. offset base (p_seq p)) r)"
    unfolding r_def by (rule dropWhile_sorted [OF sq])+
  have qr: "queue_sorted base r" using Cons.prems(1) sr by (auto simp: queue_sorted_def)
  have same: "lost_no base r j = lost_no base q j" if "i \<le> j" for j
    using that by (fastforce simp: lost_no_def sr(1))
  have later: "\<forall>j \<in> set is. i \<le> j" using Cons.prems(2) by auto
  show ?case
  proof (cases r)
    case Nil
    then have "\<forall>p \<in> set q. offset base (p_seq p) < i" using sr(1) by (auto simp: not_le [symmetric])
    then have "\<forall>j \<in> set (i # is). \<not> lost_no base q j" using later by (fastforce simp: lost_no_def)
    moreover have "missing_loop base (i # is) q acc = acc"
      by (simp only: missing_loop.simps Let_def d Nil list.case)
    ultimately show ?thesis by simp
  next
    case (Cons p q')
    have ip: "i \<le> offset base (p_seq p)" using sr(1) Cons by auto
    have head: "(p_seq p = base + of_nat i) = (\<not> lost_no base q i)"
    proof
      assume "p_seq p = base + of_nat i"
      then have "offset base (p_seq p) = i" using i(3) by simp
      moreover have "p \<in> set q" using sr(1) Cons by auto
      ultimately show "\<not> lost_no base q i" by (auto simp: lost_no_def)
    next
      assume n: "\<not> lost_no base q i"
      have "\<forall>x \<in> set r. offset base (p_seq p) \<le> offset base (p_seq x)" using sr(2) Cons by auto
      moreover have "\<not> lost_no base r i" using n same by simp
      ultimately have "offset base (p_seq p) = i"
        using ip Cons by (auto simp: lost_no_def)
      then show "p_seq p = base + of_nat i" using i(3) by (intro offset_inj [of base]) simp
    qed
    let ?acc = "if p_seq p = base + of_nat i then acc else acc OR push_bit (i - 1) 1"
    have "missing_loop base (i # is) q acc = missing_loop base is r ?acc"
      by (simp add: d Cons)
    moreover have "bit (missing_loop base is r ?acc) k = (bit ?acc k \<or> (\<exists>j \<in> set is. k = j - 1 \<and> lost_no base r j))"
      by (rule Cons.IH [OF qr]) (use Cons.prems in auto)
    moreover have "bit ?acc k = (bit acc k \<or> (k = i - 1 \<and> lost_no base q i))"
      using i(1,2) head by (auto simp: bit_simps)
    ultimately show ?thesis using same later by auto
  qed
qed

lemma lost_first:
  assumes "queue_sorted base (p # q)" "p_seq p \<noteq> base"
  shows "lost_no base (p # q) 0"
proof -
  have "offset base base = 0" by (simp add: offset_def)
  then have "offset base (p_seq p) \<noteq> 0" using assms(2) offset_inj [of base "p_seq p" base] by metis
  then show ?thesis using assms(1) by (fastforce simp: lost_no_def queue_sorted_def)
qed

lemma missing_list_set:
  "set (missing_list f m) = {f + of_nat k | k. k \<le> 16 \<and> (k = 0 \<or> bit m (k - 1))}"
proof -
  have "set [1..<17] = {k. k \<le> 16 \<and> k \<noteq> (0 :: nat)}" by auto
  then have "set (missing_list f m) = insert f ((\<lambda>k. f + of_nat k) ` {k. k \<le> 16 \<and> k \<noteq> 0 \<and> bit m (k - 1)})"
    by (auto simp: missing_list_def)
  also have "\<dots> = (\<lambda>k. f + of_nat k) ` insert 0 {k. k \<le> 16 \<and> k \<noteq> 0 \<and> bit m (k - 1)}" by simp
  also have "insert 0 {k. k \<le> 16 \<and> k \<noteq> 0 \<and> bit m (k - 1)} = {k. k \<le> 16 \<and> (k = 0 \<or> bit m (k - 1))}" by auto
  finally show ?thesis by blast
qed

text \<open>
  C19. With a sorted queue the negative acknowledgement names exactly the missing packets: of the
  seventeen numbers after the last packet put out, those that are not in the queue while a later
  one is. There is nothing to name when the queue is empty or has the next packet at its head.
\<close>

theorem nack_names_missing:
  assumes "queue_sorted (seq s + 1) (queue s)"
  shows "case find_missing_packets s of
      None \<Rightarrow> queue s = [] \<or> has_next_packet s
    | Some (f, m) \<Rightarrow> set (missing_list f m)
        = {seq s + 1 + of_nat k | k. k \<le> 16 \<and> lost_no (seq s + 1) (queue s) k}"
proof (cases "queue s = [] \<or> has_next_packet s")
  case True
  then show ?thesis by (auto simp: find_missing_packets_def has_next_packet_def Let_def split: list.splits)
next
  case False
  then obtain p q where q: "queue s = p # q" "p_seq p \<noteq> seq s + 1"
    by (cases "queue s") (auto simp: has_next_packet_def)
  define m where "m = missing_loop (seq s + 1) [1..<17] (queue s) 0"
  have bits: "bit m (k - 1) = lost_no (seq s + 1) (queue s) k" if "k \<le> 16" "k \<noteq> 0" for k
  proof -
    have "bit m (k - 1) = (bit (0 :: u16) (k - 1) \<or> (\<exists>i \<in> set [1..<17]. k - 1 = i - 1 \<and> lost_no (seq s + 1) (queue s) i))"
      unfolding m_def by (rule missing_loop_bits [OF assms]) auto
    moreover have "(\<exists>i \<in> set [1..<17]. k - 1 = i - 1 \<and> lost_no (seq s + 1) (queue s) i) = lost_no (seq s + 1) (queue s) k"
    proof -
      have "\<forall>i \<in> set [1..<17]. (k - 1 = i - 1) = (i = k)" "k \<in> set [1..<17]" using that by auto
      then show ?thesis by metis
    qed
    ultimately show ?thesis by simp
  qed
  have z: "lost_no (seq s + 1) (queue s) 0" using lost_first [of "seq s + 1" p q] assms q by simp
  have "find_missing_packets s = Some (seq s + 1, m)"
    using q by (simp add: find_missing_packets_def m_def Let_def)
  moreover have "set (missing_list (seq s + 1) m)
      = {seq s + 1 + of_nat k | k. k \<le> 16 \<and> lost_no (seq s + 1) (queue s) k}"
    unfolding missing_list_set using bits z by (metis (no_types, opaque_lifting))
  ultimately show ?thesis by simp
qed


text \<open>The head of the queue is the packet before last, the next two are missing, and one after them.\<close>

definition example_queue :: "u16 list \<Rightarrow> RTPPacket list" where
  "example_queue ns = map (\<lambda>n. \<lparr>p_seq = n, p_buf = [], recvtime = 0\<rparr>) ns"

theorem nack_names_missing_witness:
  "set (missing_list 65534 0x0c) = {65534 + of_nat k | k. k \<le> 16 \<and> lost_no 65534 (example_queue [65535, 0, 3]) k}"
proof -
  define s where "s = (idle_receiver ())\<lparr>seq := 65533, queue := example_queue [65535, 0, 3]\<rparr>"
  have s: "seq s = 65533" "queue s = example_queue [65535, 0, 3]" by (simp_all add: s_def)
  have "queue_sorted 65534 (example_queue [65535, 0, 3])"
    by (simp add: queue_sorted_def example_queue_def offset_def)
  then have "queue_sorted (seq s + 1) (queue s)" by (simp add: s)
  moreover have "missing_loop 65534 [1..<17] (example_queue [65535, 0, 3]) 0 = 0x0c" by code_simp
  then have "find_missing_packets s = Some (65534, 0x0c)"
    by (simp add: find_missing_packets_def s(1) s(2) [unfolded example_queue_def]) (simp add: example_queue_def)
  ultimately show ?thesis using nack_names_missing [of s] by (simp add: s)
qed

section \<open>No queue\<close>

text \<open>The length of the queue, chosen by \<open>ff_rtsp_open_transport_ctx\<close> in \<^verbatim>\<open>libavformat/rtsp.c\<close> from the
  option, the lower transport and the delay allowed.\<close>

definition RTP_REORDER_QUEUE_DEFAULT_SIZE :: int where "RTP_REORDER_QUEUE_DEFAULT_SIZE = 500"

definition reordering_queue_size :: "int \<Rightarrow> bool \<Rightarrow> int \<Rightarrow> int" where
  "reordering_queue_size opt tcp max_delay =
     (if opt < 0 then (if tcp \<or> max_delay = 0 then 0 else RTP_REORDER_QUEUE_DEFAULT_SIZE) else opt)"

definition no_queue :: "'p RTPDemuxContext \<Rightarrow> bool" where
  "no_queue s \<longleftrightarrow> queue s = [] \<and> queue_len s = 0 \<and> queue_size s \<le> 1"

lemma no_queue_part: "queue_part s2 = queue_part s1 \<Longrightarrow> no_queue s2 = no_queue s1"
  by (simp add: no_queue_def queue_part_def)

lemma no_queue_parse:
  assumes "no_queue s" "ff_rtp_parse_packet L C pkt b s = ((rv, pkt', s'), taken)"
  shows "no_queue s'"
  using assms(2)
proof (cases rule: parse_packet_cases)
  case (dropped c)
  then show ?thesis using assms(1) by (simp add: no_queue_def)
next
  case (parsed c d r1 p1 s1)
  have n0: "no_queue (s\<lparr>srtp := c\<rparr>)" using assms(1) by (simp add: no_queue_def)
  from parsed(1) have n1: "no_queue s1"
  proof (cases rule: parse_one_cases)
    case same
    then show ?thesis using n0 no_queue_part by blast
  next
    case queued
    then show ?thesis using n0 by (auto simp: rtp_parse_queued_packet_def no_queue_def)
  next
    case (received b)
    have a: "no_queue (update_arrival L b (s\<lparr>srtp := c\<rparr>))" using n0 no_queue_part [OF arrival_part] by blast
    then have "rtp_parse_packet_internal L pkt b (update_arrival L b (s\<lparr>srtp := c\<rparr>)) = (r1, p1, s1)"
      using received by (simp add: rtp_receive_def no_queue_def)
    then show ?thesis using internal_queue_part(1) a no_queue_part by blast
  qed
  then have "parse_queued_loop (length (queue s1)) L (r1, p1, s1\<lparr>prev_ret := r1\<rparr>) = (r1, p1, s1\<lparr>prev_ret := r1\<rparr>)"
    by (simp add: no_queue_def)
  then have "queue_part s' = queue_part s1"
    using parsed(2) by (auto simp: finish_parse_def queue_part_def split: sum.splits nat.splits)
  then show ?thesis using n1 no_queue_part by blast
qed

lemma no_queue_drain: "no_queue s \<Longrightarrow> no_queue (snd (drain n L C s))"
proof (induction n arbitrary: s)
  case (Suc n)
  obtain rv pkt' s' taken where r: "ff_rtp_parse_packet L C (new_packet []) None s = ((rv, pkt', s'), taken)"
    by (metis surj_pair)
  have "no_queue s'" by (rule no_queue_parse [OF Suc.prems r])
  with Suc.IH show ?case by (simp add: r split_def Let_def split: sum.split nat.split)
qed simp

lemma no_queue_datagram: "no_queue s \<Longrightarrow> no_queue (snd (receive_datagram L C b s))"
proof -
  assume n: "no_queue s"
  obtain rv pkt' s' taken where r: "ff_rtp_parse_packet L C (new_packet []) (Some b) s = ((rv, pkt', s'), taken)"
    by (metis surj_pair)
  have "no_queue s'" by (rule no_queue_parse [OF n r])
  then show ?thesis
    using no_queue_drain [of s' "Suc (length (queue s'))" L C]
    by (simp add: receive_datagram_def r split_def Let_def del: drain.simps split: sum.split nat.split)
qed

lemma no_queue_all: "no_queue s \<Longrightarrow> no_queue (snd (receive_datagrams L C bs s))"
  by (induction bs arbitrary: s) (simp_all add: split_def Let_def no_queue_datagram)

text \<open>
  C32. For a P2P track, \<^verbatim>\<open>libavformat/p2p_dc.c\<close> opens the RTP context with the option
  \<open>reorder_queue_size\<close> at 0 and no delay allowed. With that the queue stays empty, whatever comes,
  so no packet is ever known to be missing: the repair over HTTP, for which the same program
  installs a URL, finds nothing to fetch, and no negative acknowledgement is sent.
\<close>

theorem p2p_setting_never_repairs:
  assumes "ff_rtp_parse_open malloc alloc host blank n meta str pt (reordering_queue_size 0 False 0) = Some s"
    "queue blank = []" "queue_len blank = 0"
  shows "let s' = snd (receive_datagrams L C bs s)
    in queue s' = [] \<and> find_missing_packets s' = None \<and> fst (rtp_try_http_repair L H s') = 0"
proof -
  have "no_queue s"
    using assms by (auto simp: ff_rtp_parse_open_def reordering_queue_size_def no_queue_def split: if_splits sum.splits)
  then have n: "no_queue (snd (receive_datagrams L C bs s))" by (rule no_queue_all)
  define s' where "s' = snd (receive_datagrams L C bs s)"
  have q: "queue s' = []" using n by (simp add: s'_def no_queue_def)
  then have "find_missing_packets s' = None" by (simp add: find_missing_packets_def Let_def)
  moreover have "find_missing_packets (snd (lib_call L s')) = None"
    using q by (simp add: find_missing_packets_def lib_call_def Let_def)
  ultimately show ?thesis
    using q by (simp add: s'_def [symmetric] rtp_try_http_repair_def split_def Let_def)
qed


theorem p2p_setting_never_repairs_witness:
  "\<forall>L H C bs. fst (rtp_try_http_repair L H (snd (receive_datagrams L C bs
     (the (ff_rtp_parse_open True 0 [] (idle_receiver ()) 1 [] (st (idle_receiver ())) 96
        (reordering_queue_size 0 False 0)))))) = 0"
proof (intro allI)
  fix L :: lib and H :: http and C :: crypto and bs :: "bytes list"
  have "open_parameters 0 example_par = Ok example_par"
    by (simp add: open_parameters_def example_par_def)
  then obtain s where s: "ff_rtp_parse_open True 0 [] (idle_receiver ()) 1 [] (st (idle_receiver ())) 96
      (reordering_queue_size 0 False 0) = Some s"
    by (simp add: ff_rtp_parse_open_def idle_receiver_def)
  have q: "queue (idle_receiver ()) = []" "queue_len (idle_receiver ()) = 0"
    by (simp_all add: idle_receiver_def)
  show "fst (rtp_try_http_repair L H (snd (receive_datagrams L C bs
     (the (ff_rtp_parse_open True 0 [] (idle_receiver ()) 1 [] (st (idle_receiver ())) 96
        (reordering_queue_size 0 False 0)))))) = 0"
    using p2p_setting_never_repairs [OF s q, of L C bs H] s by (simp add: Let_def)
qed

section \<open>A duplicate in the queue\<close>

definition stale_head :: "'p RTPDemuxContext \<Rightarrow> bool" where
  "stale_head s \<longleftrightarrow> (case queue s of [] \<Rightarrow> False | p # _ \<Rightarrow> seq_diff (p_seq p) (seq s) \<le> 0)"

definition rtp_datagram :: "bytes \<Rightarrow> bool" where
  "rtp_datagram b \<longleftrightarrow> 12 \<le> length b \<and> b ! 0 AND 0xc0 = version_byte \<and> \<not> RTP_PT_IS_RTCP (b ! 1)"

lemma stale_no_next: "stale_head s \<Longrightarrow> \<not> has_next_packet s"
  by (auto simp: stale_head_def has_next_packet_def seq_diff_def split: list.splits)

text \<open>A packet that comes early is put behind the stale one.\<close>

lemma stale_receive:
  assumes s: "stale_head s" "queue_ok s" "\<not> srtp_enabled s" "int (length (queue s)) + 1 < queue_size s"
    and b: "rtp_datagram b" "1 < seq_diff (AV_RB16 b 2) (seq s)" "\<forall>p \<in> set (queue s). seq_diff (p_seq p) (seq s) \<le> 0 \<longrightarrow> 0 \<le> seq_diff (AV_RB16 b 2) (p_seq p)"
    and mem: "\<forall>n. L n \<noteq> 0"
  obtains s' where "receive_datagram L C b s = ([], s')" "stale_head s'" "queue_ok s'" "\<not> srtp_enabled s'" "seq s' = seq s"
    "queue_size s' = queue_size s" "length (queue s') = Suc (length (queue s))" "hd (queue s') = hd (queue s)"
    "set (map p_seq (queue s')) = insert (AV_RB16 b 2) (set (map p_seq (queue s)))"
proof -
  define t where "t = update_arrival L b s"
  have t: "queue t = queue s" "queue_len t = queue_len s" "queue_size t = queue_size s" "srtp_enabled t = srtp_enabled s"
    "seq t = seq s"
    using arrival_part [of L b s] by (auto simp: t_def queue_part_def update_arrival_def lib_call_def Let_def)
  obtain p q where q: "queue s = p # q" "seq_diff (p_seq p) (seq s) \<le> 0"
    using s(1) by (auto simp: stale_head_def split: list.splits)
  define x where "x = \<lparr>p_seq = AV_RB16 b 2, p_buf = b, recvtime = L (lib_calls t + 1)\<rparr>"
  define s1 where "s1 = t\<lparr>lib_calls := lib_calls t + 2, queue := insert_packet x (queue t), queue_len := queue_len t + 1\<rparr>"
  have e: "enqueue_packet L b t = (Ok 0, s1)"
    using mem by (simp add: enqueue_packet_def lib_call_def s1_def x_def)
  have r: "rtp_receive L (new_packet []) b t = ((Err Minus_one, new_packet [], s1), True)"
    using e s(2,4) b(2) q t by (simp add: rtp_receive_def queue_ok_def s1_def)
  have hd: "insert_packet x (queue t) = p # insert_packet x q"
    using b(3) q t by (simp add: x_def)
  have st: "stale_head (s1\<lparr>prev_ret := Err Minus_one\<rparr>)" using q t hd by (simp add: stale_head_def s1_def)
  define s2 where "s2 = s1\<lparr>prev_ret := Err Minus_one\<rparr>"
  have "parse_queued_loop (length (queue s1)) L (Err Minus_one, new_packet [], s2) = (Err Minus_one, new_packet [], s2)"
    using stale_no_next [OF st] by (intro loop_no_next) (simp add: s2_def)
  then have "ff_rtp_parse_packet L C (new_packet []) (Some b) s = ((Err Minus_one, new_packet [], s2), True)"
    using b(1) s(3) r by (simp add: ff_rtp_parse_packet_def rtp_parse_one_packet_def rtp_datagram_def t_def [symmetric]
        finish_parse_def s2_def [symmetric])
  then have rd: "receive_datagram L C b s = ([], s2)" by (simp add: receive_datagram_def)
  have "queue s2 = insert_packet x (queue t)" by (simp add: s2_def s1_def)
  then have q2: "queue s2 = p # insert_packet x q" "p_seq x = AV_RB16 b 2" by (simp_all only: hd) (simp add: x_def)
  show thesis
  proof (rule that [OF rd])
    show "stale_head s2" using st by (simp add: s2_def)
    show "queue_ok s2" using s(2) t q by (simp add: queue_ok_def q2) (simp add: s2_def s1_def)
  qed (use s(3) t q q2 in \<open>auto simp: s2_def s1_def\<close>)
qed


text \<open>Packets 101, 103, 103, 102, 106, 105 and 104 in this order: 103 comes twice.\<close>

definition example_datagram :: "u16 \<Rightarrow> bytes" where
  "example_datagram n = rtp_packet 96 False n 0 7 [ucast n]"

definition blocked_receiver :: "unit RTPDemuxContext" where
  "blocked_receiver = snd (receive_datagrams (\<lambda>_. 1) toy_crypto
     (map example_datagram [101, 103, 103, 102, 106, 105, 104]) (idle_receiver ()))"

lemma blocked_run:
  "map_prod length (\<lambda>s. (seq s, map p_seq (queue s), queue_len s, queue_size s, srtp_enabled s))
     (receive_datagrams (\<lambda>_. 1) toy_crypto (map example_datagram [101, 103, 103, 102, 106, 105, 104]) (idle_receiver ()))
   = (4, 104, [103, 105, 106], 3, 500, False)"
  by code_simp

lemma map_prod_snd: "map_prod f g r = (a, b) \<Longrightarrow> g (snd r) = b"
  by (cases r) simp

lemmas blocked_facts = map_prod_snd [OF blocked_run, folded blocked_receiver_def]

lemma example_datagrams: "list_all rtp_datagram (map example_datagram [107, 108])"
  by code_simp


end
