(* ===== verification/Avc.thy ===== *)
theory Avc
  imports Prelude
begin

text \<open>
  The search for start codes of \<^verbatim>\<open>libavformat/avc.c\<close>, which the RTP packetiser uses to cut an
  access unit into NAL units: the word-at-a-time search, and the plain search it equals.
\<close>

section \<open>The search of the code\<close>

text \<open>Three bytes at position \<open>p\<close> of the buffer; a pointer is an index into it, and \<open>al\<close> is the address of
  the buffer modulo 4.\<close>

definition startcode_at :: "bytes \<Rightarrow> nat \<Rightarrow> bool" where
  "startcode_at d p \<longleftrightarrow> d ! p = 0 \<and> d ! (p + 1) = 0 \<and> d ! (p + 2) = 1"

text \<open>A 32 bit load; the order of the bytes does not matter to the test.\<close>

definition load32 :: "bytes \<Rightarrow> nat \<Rightarrow> u32" where
  "load32 d p = rb32 (d ! (p + 3)) (d ! (p + 2)) (d ! (p + 1)) (d ! p)"

definition has_zero_byte :: "u32 \<Rightarrow> bool" where
  "has_zero_byte x \<longleftrightarrow> (x - 0x01010101) AND NOT x AND 0x80808080 \<noteq> 0"

text \<open>The byte loops at both ends: \<open>Inl\<close> returns, \<open>Inr\<close> is where the loop stops.\<close>

function byte_loop :: "bytes \<Rightarrow> int \<Rightarrow> int \<Rightarrow> int + int" where
  "byte_loop d stop p = (if p < stop then if startcode_at d (nat p) then Inl p else byte_loop d stop (p + 1) else Inr p)"
  by pat_completeness auto
termination
  by (relation "measure (\<lambda>(d, stop, p). nat (stop - p))") auto

declare byte_loop.simps [simp del]

definition word_match :: "bytes \<Rightarrow> nat \<Rightarrow> nat option" where
  "word_match d p =
     (if has_zero_byte (load32 d p) then
        if d ! (p + 1) = 0 \<and> d ! p = 0 \<and> d ! (p + 2) = 1 then Some p
        else if d ! (p + 1) = 0 \<and> d ! (p + 2) = 0 \<and> d ! (p + 3) = 1 then Some (p + 1)
        else if d ! (p + 3) = 0 \<and> d ! (p + 2) = 0 \<and> d ! (p + 4) = 1 then Some (p + 2)
        else if d ! (p + 3) = 0 \<and> d ! (p + 4) = 0 \<and> d ! (p + 5) = 1 then Some (p + 3)
        else None
      else None)"

function word_loop :: "bytes \<Rightarrow> int \<Rightarrow> int \<Rightarrow> int + int" where
  "word_loop d stop p =
     (if p < stop then case word_match d (nat p) of Some q \<Rightarrow> Inl (int q) | None \<Rightarrow> word_loop d stop (p + 4)
      else Inr p)"
  by pat_completeness auto
termination
  by (relation "measure (\<lambda>(d, stop, p). nat (stop - p))") auto

declare word_loop.simps [simp del]

definition avc_find_startcode_internal :: "nat \<Rightarrow> bytes \<Rightarrow> int \<Rightarrow> int \<Rightarrow> int" where
  "avc_find_startcode_internal al d p fin =
     (let a = p + 4 - (int al + p) mod 4
      in case byte_loop d (min a (fin - 3)) p of
           Inl q \<Rightarrow> q
         | Inr p \<Rightarrow>
             (case word_loop d (fin - 6) p of
                Inl q \<Rightarrow> q
              | Inr p \<Rightarrow> (case byte_loop d (fin - 3) p of Inl q \<Rightarrow> q | Inr _ \<Rightarrow> fin)))"

definition ff_avc_find_startcode :: "nat \<Rightarrow> bytes \<Rightarrow> int \<Rightarrow> int \<Rightarrow> int" where
  "ff_avc_find_startcode al d p fin =
     (let out = avc_find_startcode_internal al d p fin
      in if p < out \<and> out < fin \<and> d ! nat (out - 1) = 0 then out - 1 else out)"

text \<open>Length-prefixed units: the end of the unit at \<open>start\<close>, \<open>None\<close> when it does not fit.\<close>

fun big_endian :: "u32 \<Rightarrow> bytes \<Rightarrow> u32" where
  "big_endian res [] = res"
| "big_endian res (b # bs) = big_endian (push_bit 8 res OR ucast b) bs"

definition ff_avc_mp4_find_startcode :: "bytes \<Rightarrow> int \<Rightarrow> int \<Rightarrow> nat \<Rightarrow> int option" where
  "ff_avc_mp4_find_startcode d start fin n =
     (if fin - start < int n then None
      else let res = uint (big_endian 0 (take n (drop (nat start) d))); start = start + int n
           in if res > fin - start then None else Some (start + res))"

section \<open>The plain search\<close>

text \<open>The first start code from \<open>p\<close> on that has a byte after it, before \<open>fin\<close>.\<close>

definition first_startcode :: "bytes \<Rightarrow> nat \<Rightarrow> nat \<Rightarrow> nat" where
  "first_startcode d p fin = (case find (startcode_at d) [p..<fin - 3] of Some q \<Rightarrow> q | None \<Rightarrow> fin)"

lemma unat_rb32: "unat (rb32 a b c d) = unat a * 2 ^ 24 + unat b * 2 ^ 16 + unat c * 2 ^ 8 + unat d"
proof -
  have d: "rb32 a b c d = push_bit 24 (ucast a) + (push_bit 16 (ucast b) + (push_bit 8 (ucast c) + ucast d))"
    unfolding rb32_def
    by (subst disjunctive_add, auto simp: bit_simps dest: bit_imp_le_length)+
  have l: "unat x < 256" for x :: u8 using unsigned_less [of x] by simp
  have u: "unat (ucast x :: u32) = unat x" for x :: u8
    using l [of x] by (simp add: unsigned_ucast_eq take_bit_nat_eq_self)
  show ?thesis
    unfolding d using l [of a] l [of b] l [of c] l [of d]
    by (simp add: unat_word_ariths push_bit_eq_mult u)
qed


lemma uint_rb32: "uint (rb32 a b c d) = uint a * 16777216 + uint b * 65536 + uint c * 256 + uint d"
proof -
  have "int (unat (rb32 a b c d)) = int (unat a * 2 ^ 24 + unat b * 2 ^ 16 + unat c * 2 ^ 8 + unat d)"
    by (simp only: unat_rb32)
  then show ?thesis by simp
qed

lemma bit_rb32:
  "bit (rb32 w x y z) 7 = bit z 7" "bit (rb32 w x y z) 15 = bit y 7"
  "bit (rb32 w x y z) 23 = bit x 7" "bit (rb32 w x y z) 31 = bit w 7"
proof -
  have bits: "bit (rb32 w x y z) n = (if n < 8 then bit z n else if n < 16 then bit y (n - 8)
      else if n < 24 then bit x (n - 16) else n < 32 \<and> bit w (n - 24))" for n
    by (auto simp: rb32_def bit_simps dest: bit_imp_le_length)
  show "bit (rb32 w x y z) 7 = bit z 7" "bit (rb32 w x y z) 15 = bit y 7"
    "bit (rb32 w x y z) 23 = bit x 7" "bit (rb32 w x y z) 31 = bit w 7"
    unfolding bits by simp_all
qed

lemma bit_mask_tops: "n \<in> {7, 15, 23, 31} \<Longrightarrow> bit (0x80808080 :: u32) n"
proof -
  have z: "(0x80808080 :: u32) = rb32 0x80 0x80 0x80 0x80" by (simp add: rb32_def)
  have h: "bit (0x80 :: u8) 7" by code_simp
  show "n \<in> {7, 15, 23, 31} \<Longrightarrow> bit (0x80808080 :: u32) n"
    unfolding z by (elim insertE emptyE) (simp_all only: bit_rb32 h)
qed

lemma bit_by_uint: "n < 32 \<Longrightarrow> bit (w :: u32) n = odd (uint w div 2 ^ n)"
  by (simp add: bit_uint_iff flip: bit_iff_odd)

text \<open>The lowest zero byte borrows, so its top bit is set in the difference and clear in the word.\<close>

lemma zero_byte_found:
  assumes "a = 0 \<or> b = 0 \<or> c = 0 \<or> d = 0"
  shows "has_zero_byte (rb32 a b c d)"
proof -
  let ?x = "rb32 a b c d"
  have bd: "0 \<le> uint x \<and> uint x < 256" for x :: u8 using uint_bounded [of x] by simp
  have nz: "1 \<le> uint x" if "x \<noteq> 0" for x :: u8
    using that bd [of x] by (metis int_one_le_iff_zero_less le_less uint_0_iff)
  let ?z = "uint a * 16777216 + uint b * 65536 + uint c * 256 + uint d - 16843009"
  have y: "bit (?x - 0x01010101) n" if "n < 32" "odd (?z div 2 ^ n)" for n
  proof -
    have "?x - 0x01010101 = word_of_int (uint ?x - 16843009)" by simp
    moreover have "uint ?x - 16843009 = ?z" by (simp only: uint_rb32)
    ultimately have e: "?x - 0x01010101 = word_of_int ?z" by (simp only:)
    show ?thesis unfolding e bit_word_of_int_iff unfolding bit_iff_odd using that by simp
  qed
  have hit: "has_zero_byte ?x" if "bit (?x - 0x01010101) n" "\<not> bit ?x n" "n \<in> {7, 15, 23, 31}" for n
  proof -
    have "bit ((?x - 0x01010101) AND NOT ?x AND 0x80808080) n"
      using that bit_mask_tops [OF that(3)] by (auto simp: bit_and_iff bit_not_iff)
    then show ?thesis unfolding has_zero_byte_def by (metis bit_0_eq bot_apply bot_bool_def)
  qed
  consider "d = 0" | "d \<noteq> 0" "c = 0" | "d \<noteq> 0" "c \<noteq> 0" "b = 0" | "d \<noteq> 0" "c \<noteq> 0" "b \<noteq> 0" "a = 0"
    using assms by blast
  then show ?thesis
  proof cases
    case 1
    have "?z div 2 ^ 7 = 2 * (uint a * 65536 + uint b * 256 + uint c - 65794) + 1"
      by (rule int_div_pos_eq [where r = 127]) (simp_all add: 1)
    then show ?thesis using 1 by (intro hit [of 7] y) (simp_all add: bit_rb32)
  next
    case 2
    have "?z div 2 ^ 15 = 2 * (uint a * 256 + uint b - 258) + 1"
      by (rule int_div_pos_eq [where r = "32511 + uint d"]) (use bd [of d] 2 in simp_all)
    then show ?thesis using 2 by (intro hit [of 15] y) (simp_all add: bit_rb32)
  next
    case 3
    have "?z div 2 ^ 23 = 2 * (uint a - 2) + 1"
      by (rule int_div_pos_eq [where r = "8322815 + uint c * 256 + uint d"]) (use bd [of c] bd [of d] 3 in simp_all)
    then show ?thesis using 3 by (intro hit [of 23] y) (simp_all add: bit_rb32)
  next
    case 4
    have "?z div 2 ^ 31 = - 1"
      by (rule int_div_pos_eq [where r = "2130640639 + uint b * 65536 + uint c * 256 + uint d"])
        (use bd [of b] bd [of c] bd [of d] 4 in simp_all)
    then show ?thesis using 4 by (intro hit [of 31] y) (simp_all add: bit_rb32)
  qed
qed

section \<open>The fast search equals the plain one\<close>

text \<open>No start code in \<open>[p, q)\<close>.\<close>

definition none_in :: "bytes \<Rightarrow> int \<Rightarrow> int \<Rightarrow> bool" where
  "none_in d p q \<longleftrightarrow> (\<forall>i. p \<le> i \<and> i < q \<longrightarrow> \<not> startcode_at d (nat i))"

definition first_in :: "bytes \<Rightarrow> int \<Rightarrow> int \<Rightarrow> bool" where
  "first_in d p q \<longleftrightarrow> p \<le> q \<and> startcode_at d (nat q) \<and> none_in d p q"

lemma none_in_trans: "none_in d p q \<Longrightarrow> none_in d q r \<Longrightarrow> none_in d p r"
  unfolding none_in_def by (metis not_le)

lemma first_in_trans: "none_in d p q \<Longrightarrow> p \<le> q \<Longrightarrow> first_in d q r \<Longrightarrow> first_in d p r"
  by (auto simp: first_in_def intro: none_in_trans)

lemma byte_loop_result:
  "case byte_loop d stop p of Inl q \<Rightarrow> first_in d p q \<and> q < stop
     | Inr q \<Rightarrow> none_in d p q \<and> q = max p stop"
proof (induction d stop p rule: byte_loop.induct)
  case (1 d stop p)
  show ?case
  proof (cases "p < stop \<and> \<not> startcode_at d (nat p)")
    case True
    then have s: "none_in d p (p + 1)" unfolding none_in_def by (metis add.commute order.antisym zless_add1_eq not_less)
    have "byte_loop d stop p = byte_loop d stop (p + 1)" using True by (subst byte_loop.simps) simp
    then show ?thesis
      using 1 True s by (auto split: sum.splits intro: first_in_trans none_in_trans)
  next
    case False
    then show ?thesis
      by (subst byte_loop.simps) (auto simp: first_in_def none_in_def)
  qed
qed


lemma four_positions:
  "P p \<Longrightarrow> P (p + 1) \<Longrightarrow> P (p + 2) \<Longrightarrow> P (p + 3) \<Longrightarrow> p \<le> i \<Longrightarrow> i < p + 4 \<Longrightarrow> P i" for p i :: int
proof -
  assume a: "P p" "P (p + 1)" "P (p + 2)" "P (p + 3)" "p \<le> i" "i < p + 4"
  have "i = p \<or> i = p + 1 \<or> i = p + 2 \<or> i = p + 3" using a(5,6) by linarith
  then show "P i" using a(1-4) by blast
qed

lemma none_in_four:
  assumes "0 \<le> p" "\<not> startcode_at d (nat p)" "\<not> startcode_at d (nat p + 1)" "\<not> startcode_at d (nat p + 2)" "\<not> startcode_at d (nat p + 3)"
  shows "none_in d p (p + 4)"
  unfolding none_in_def using assms
  by (intro allI impI, elim conjE) (rule four_positions [where P = "\<lambda>i. \<not> startcode_at d (nat i)"], simp_all add: nat_add_distrib)

lemma first_in_offset:
  assumes "0 \<le> p" "k < 4" "startcode_at d (nat p + k)" "\<forall>j < k. \<not> startcode_at d (nat p + j)"
  shows "first_in d p (int (nat p + k))"
  unfolding first_in_def none_in_def
proof (intro conjI allI impI)
  fix i
  assume i: "p \<le> i \<and> i < int (nat p + k)"
  then have "nat i = nat p + nat (i - p)" "nat (i - p) < k" using assms(1) by linarith+
  then show "\<not> startcode_at d (nat i)" using assms(4) by simp
qed (use assms in \<open>simp_all add: nat_add_distrib\<close>)

lemma word_match_result:
  assumes "0 \<le> p"
  shows "case word_match d (nat p) of
      Some q \<Rightarrow> first_in d p (int q) \<and> q < nat p + 4 | None \<Rightarrow> none_in d p (p + 4)"
proof (cases "has_zero_byte (load32 d (nat p))")
  case False
  then have "d ! nat p \<noteq> 0" "d ! (nat p + 1) \<noteq> 0" "d ! (nat p + 2) \<noteq> 0" "d ! (nat p + 3) \<noteq> 0"
    using zero_byte_found unfolding load32_def by blast+
  then have "none_in d p (p + 4)" by (intro none_in_four [OF assms]) (simp_all add: startcode_at_def)
  with False show ?thesis by (simp add: word_match_def)
next
  case True
  let ?n = "nat p"
  have s: "startcode_at d ?n \<longleftrightarrow> d ! ?n = 0 \<and> d ! (?n + 1) = 0 \<and> d ! (?n + 2) = 1"
    "startcode_at d (?n + 1) \<longleftrightarrow> d ! (?n + 1) = 0 \<and> d ! (?n + 2) = 0 \<and> d ! (?n + 3) = 1"
    "startcode_at d (?n + 2) \<longleftrightarrow> d ! (?n + 2) = 0 \<and> d ! (?n + 3) = 0 \<and> d ! (?n + 4) = 1"
    "startcode_at d (?n + 3) \<longleftrightarrow> d ! (?n + 3) = 0 \<and> d ! (?n + 4) = 0 \<and> d ! (?n + 5) = 1"
    by (simp_all add: startcode_at_def numeral_eq_Suc)
  have w: "word_match d ?n = (if startcode_at d ?n then Some ?n else if startcode_at d (?n + 1) then Some (?n + 1)
      else if startcode_at d (?n + 2) then Some (?n + 2) else if startcode_at d (?n + 3) then Some (?n + 3) else None)"
    using True unfolding word_match_def s by auto
  consider "startcode_at d ?n" | "\<not> startcode_at d ?n" "startcode_at d (?n + 1)" | "\<not> startcode_at d ?n" "\<not> startcode_at d (?n + 1)" "startcode_at d (?n + 2)"
    | "\<not> startcode_at d ?n" "\<not> startcode_at d (?n + 1)" "\<not> startcode_at d (?n + 2)" "startcode_at d (?n + 3)"
    | "\<not> startcode_at d ?n" "\<not> startcode_at d (?n + 1)" "\<not> startcode_at d (?n + 2)" "\<not> startcode_at d (?n + 3)" by blast
  then show ?thesis
  proof cases
    case 1
    then show ?thesis using first_in_offset [OF assms, of 0 d] w by simp
  next
    case 2
    then show ?thesis using first_in_offset [OF assms, of 1 d] w by simp
  next
    case 3
    then have "\<forall>j < 2. \<not> startcode_at d (?n + j)" by (auto simp: less_2_cases_iff)
    then show ?thesis using 3 first_in_offset [OF assms, of 2 d] w by simp
  next
    case 4
    then have "\<forall>j < 3. \<not> startcode_at d (?n + j)" by (auto simp: less_Suc_eq numeral_eq_Suc)
    then show ?thesis using 4 first_in_offset [OF assms, of 3 d] w by simp
  next
    case 5
    then show ?thesis using none_in_four [OF assms] w by simp
  qed
qed

lemma word_loop_result:
  assumes "0 \<le> p"
  shows "case word_loop d stop p of Inl q \<Rightarrow> first_in d p q \<and> q < stop + 3
     | Inr q \<Rightarrow> none_in d p q \<and> p \<le> q \<and> stop \<le> q \<and> q \<le> max p (stop + 3)"
  using assms
proof (induction d stop p rule: word_loop.induct)
  case (1 d stop p)
  note m = word_match_result [OF 1(2), of d]
  show ?case
  proof (cases "p < stop \<and> word_match d (nat p) = None")
    case True
    then have s: "none_in d p (p + 4)" using m by simp
    have "word_loop d stop p = word_loop d stop (p + 4)" using True by (subst word_loop.simps) simp
    then show ?thesis
      using 1 True s by (auto split: sum.splits intro: first_in_trans none_in_trans)
  next
    case False
    then show ?thesis
      using m 1(2) by (subst word_loop.simps) (auto simp: none_in_def split: option.splits)
  qed
qed

lemma first_startcode_char:
  "first_in d (int p) (int q) \<Longrightarrow> q < fin - 3 \<Longrightarrow> first_startcode d p fin = q"
  "none_in d (int p) (int fin - 3) \<Longrightarrow> first_startcode d p fin = fin"
proof -
  assume q: "first_in d (int p) (int q)" "q < fin - 3"
  have "find (startcode_at d) [p..<fin - 3] = Some q"
    unfolding find_Some_iff
  proof (intro exI [of _ "q - p"] conjI allI impI)
    show "\<not> startcode_at d ([p..<fin - 3] ! j)" if "j < q - p" for j
    proof -
      have "int p \<le> int (p + j) \<and> int (p + j) < int q" using that by simp
      then have "\<not> startcode_at d (nat (int (p + j)))" using q(1) unfolding first_in_def none_in_def by blast
      moreover have "[p..<fin - 3] ! j = p + j" using that q(2) by simp
      ultimately show ?thesis by (simp only: nat_int not_False_eq_True)
    qed
  qed (use q in \<open>auto simp: first_in_def\<close>)
  then show "first_startcode d p fin = q" by (simp add: first_startcode_def)
next
  assume n: "none_in d (int p) (int fin - 3)"
  have "\<not> startcode_at d x" if "x \<in> set [p..<fin - 3]" for x
  proof -
    have "int p \<le> int x \<and> int x < int fin - 3" using that by auto
    then have "\<not> startcode_at d (nat (int x))" using n unfolding none_in_def by blast
    then show ?thesis by (simp only: nat_int not_False_eq_True)
  qed
  then have "find (startcode_at d) [p..<fin - 3] = None" unfolding find_None_iff by blast
  then show "first_startcode d p fin = fin" by (simp add: first_startcode_def)
qed

lemma find_internal_plain:
  assumes "p \<le> fin"
  shows "avc_find_startcode_internal al d (int p) (int fin) = int (first_startcode d p fin)"
proof -
  let ?a = "min (int p + 4 - (int al + int p) mod 4) (int fin - 3)"
  have goal: "first_in d (int p) q \<Longrightarrow> q < int fin - 3 \<Longrightarrow> q = int (first_startcode d p fin)" for q
  proof -
    assume q: "first_in d (int p) q" "q < int fin - 3"
    then have "0 \<le> q" "nat q < fin - 3" by (auto simp: first_in_def)
    then show ?thesis using first_startcode_char(1) [of d p "nat q" fin] q by simp
  qed
  show ?thesis
  proof (cases "byte_loop d ?a (int p)")
    case (Inl q)
    then have "first_in d (int p) q" "q < int fin - 3" using byte_loop_result [of d "int p" ?a] by auto
    then show ?thesis using goal Inl by (simp add: avc_find_startcode_internal_def Let_def)
  next
    case (Inr p1)
    then have n1: "none_in d (int p) p1" "int p \<le> p1" "p1 \<le> max (int p) (int fin - 3)"
      using byte_loop_result [of d "int p" ?a] by auto
    show ?thesis
    proof (cases "word_loop d (int fin - 6) p1")
      case (Inl q)
      then have "first_in d p1 q" "q < int fin - 3" using word_loop_result [of p1 d "int fin - 6"] n1 by auto
      then show ?thesis
        using goal [OF first_in_trans [OF n1(1,2)]] Inl Inr by (simp add: avc_find_startcode_internal_def Let_def)
    next
      case (Inr p2)
      then have n2: "none_in d p1 p2" "p1 \<le> p2" using word_loop_result [of p1 d "int fin - 6"] n1 by auto
      then have n: "none_in d (int p) p2" "int p \<le> p2" using n1 none_in_trans by auto
      have e: "avc_find_startcode_internal al d (int p) (int fin)
          = (case byte_loop d (int fin - 3) p2 of Inl q \<Rightarrow> q | Inr _ \<Rightarrow> int fin)"
        using Inr \<open>byte_loop d ?a (int p) = Inr p1\<close> by (simp add: avc_find_startcode_internal_def Let_def)
      show ?thesis
      proof (cases "byte_loop d (int fin - 3) p2")
        case (Inl q)
        then have "first_in d p2 q" "q < int fin - 3" using byte_loop_result [of d p2 "int fin - 3"] by auto
        then show ?thesis using goal [OF first_in_trans [OF n]] Inl e by simp
      next
        case (Inr p3)
        then have "none_in d p2 (int fin - 3)" using byte_loop_result [of d p2 "int fin - 3"]
          by (auto simp: none_in_def max_def split: if_splits)
        then have "first_startcode d p fin = fin"
          using first_startcode_char(2) none_in_trans [OF n(1)] by blast
        then show ?thesis using Inr e by simp
      qed
    qed
  qed
qed

text \<open>
  C18. The start code search reads words of four bytes where it can and tests them with one
  subtraction for a zero byte. It finds exactly what a search byte by byte finds, for every
  alignment of the buffer: the first start code that has a byte after it before the end.
\<close>

theorem find_startcode_is_plain:
  assumes "p \<le> fin"
  shows "avc_find_startcode_internal al d (int p) (int fin) = int (first_startcode d p fin)"
  using assms by (rule find_internal_plain)

theorem find_startcode_is_plain_witness:
  "avc_find_startcode_internal 1 [9, 9, 0, 0, 1, 7, 8, 0, 0, 1, 5, 6] 3 12 = 7"
  using find_startcode_is_plain [of 3 12 1 "[9, 9, 0, 0, 1, 7, 8, 0, 0, 1, 5, 6]"]
  by (simp add: first_startcode_def startcode_at_def upt_rec)

end
