(* ===== verification/RtpEnc.thy ===== *)
theory RtpEnc
  imports Rtp Avc Rescale
begin

text \<open>
  \<^verbatim>\<open>libavformat/rtpenc.c\<close> and \<^verbatim>\<open>rtpenc_h264_hevc.c\<close>: the RTP muxer. Its context, the sending of
  a packet, sender reports, the packetisers for samples, MPEG audio, transport streams, iLBC and raw data, and the packetiser for
  H.264 and HEVC, which aggregates small NAL units and fragments large ones. What is written to
  the output is kept as the list \<open>sent\<close>, one element for every flush.
\<close>

section \<open>State\<close>

datatype rtp_flag = RTP_MP4A_LATM | RTP_RFC2190 | RTP_SKIP_RTCP | RTP_H264_MODE0 | RTP_SEND_BYE

text \<open>\<open>buf\<close> is the filled part of the buffer, \<open>s->buf\<close> up to \<open>s->buf_ptr\<close>.\<close>

record RTPMuxContext =
  sent :: "bytes list"
  m_st :: rtp_stream
  m_payload_type :: int
  m_ssrc :: u32
  cname :: "bytes option"
  m_seq :: int
  m_timestamp :: u32
  m_base_timestamp :: u32
  cur_timestamp :: u32
  max_payload_size :: int
  num_frames :: nat
  m_last_rtcp_ntp_time :: int
  m_first_rtcp_ntp_time :: int
  packet_count :: u32
  m_octet_count :: u32
  m_last_octet_count :: u32
  first_packet :: bool
  buf :: bytes
  max_frames_per_packet :: nat
  nal_length_size :: nat
  buffered_nals :: nat
  m_flags :: "rtp_flag set"

definition RTCP_SR_SIZE :: u32 where "RTCP_SR_SIZE = 28"
definition TS_PACKET_SIZE :: int where "TS_PACKET_SIZE = 188"

text \<open>More codec ids, by their number.\<close>

definition CODEC_PCM_U16LE :: AVCodecID where "CODEC_PCM_U16LE = CODEC_OTHER 65538"
definition CODEC_PCM_U16BE :: AVCodecID where "CODEC_PCM_U16BE = CODEC_OTHER 65539"
definition CODEC_PCM_S8 :: AVCodecID where "CODEC_PCM_S8 = CODEC_OTHER 65540"
definition CODEC_PCM_U8 :: AVCodecID where "CODEC_PCM_U8 = CODEC_OTHER 65541"
definition CODEC_PCM_S24BE :: AVCodecID where "CODEC_PCM_S24BE = CODEC_OTHER 65549"
definition CODEC_ADPCM_G726 :: AVCodecID where "CODEC_ADPCM_G726 = CODEC_OTHER 69643"
definition CODEC_ADPCM_G726LE :: AVCodecID where "CODEC_ADPCM_G726LE = CODEC_OTHER 69667"
definition CODEC_AMR_NB :: AVCodecID where "CODEC_AMR_NB = CODEC_OTHER 73728"
definition CODEC_AMR_WB :: AVCodecID where "CODEC_AMR_WB = CODEC_OTHER 73729"
definition CODEC_VORBIS :: AVCodecID where "CODEC_VORBIS = CODEC_OTHER 86021"
definition CODEC_THEORA :: AVCodecID where "CODEC_THEORA = CODEC_OTHER 30"
definition CODEC_ILBC :: AVCodecID where "CODEC_ILBC = CODEC_OTHER 86075"
definition CODEC_DIRAC :: AVCodecID where "CODEC_DIRAC = CODEC_OTHER 116"

text \<open>The others the muxer supports: H.263+, MPEG-4, Speex, raw and bitpacked video.\<close>

definition is_supported :: "AVCodecID \<Rightarrow> bool" where
  "is_supported c \<longleftrightarrow> c \<in> {CODEC_DIRAC, CODEC_H261, CODEC_H263, CODEC_OTHER 19, CODEC_H264, CODEC_HEVC,
     CODEC_MPEG1VIDEO, CODEC_MPEG2VIDEO, CODEC_OTHER 12, CODEC_AAC, CODEC_MP2, CODEC_MP3,
     CODEC_PCM_ALAW, CODEC_PCM_MULAW, CODEC_PCM_S8, CODEC_PCM_S16BE, CODEC_PCM_S16LE, CODEC_PCM_S24BE,
     CODEC_PCM_U16BE, CODEC_PCM_U16LE, CODEC_PCM_U8, CODEC_MPEG2TS, CODEC_AMR_NB, CODEC_AMR_WB,
     CODEC_VORBIS, CODEC_THEORA, CODEC_VP8, CODEC_VP9, CODEC_ADPCM_G722, CODEC_ADPCM_G726,
     CODEC_ADPCM_G726LE, CODEC_ILBC, CODEC_MJPEG, CODEC_OTHER 86051, CODEC_OPUS, CODEC_OTHER 13, CODEC_OTHER 222}"

section \<open>Opening\<close>

text \<open>What \<open>rtp_write_header\<close> reads from the format context and calls: the random seeds, the clock, the
  allocator, and the size limits of the caller and of the output.\<close>

record mux_env =
  nb_streams :: nat
  opt_payload_type :: "int option"
  rfc2190 :: bool
  seed :: "nat \<Rightarrow> u32"
  now :: int
  start_time_realtime :: int
  bitexact :: bool
  mtu_option :: int
  pb_max_packet_size :: int
  above_experimental :: bool
  malloc_ok :: bool

definition mux_set_pts_info :: "int \<Rightarrow> RTPMuxContext \<Rightarrow> RTPMuxContext" where
  "mux_set_pts_info den s = (if den > 0 then s\<lparr>m_st := (m_st s)\<lparr>st_time_base := (1, den)\<rparr>\<rparr> else s)"

definition mux_payload_type :: "mux_env \<Rightarrow> RTPMuxContext \<Rightarrow> RTPMuxContext" where
  "mux_payload_type E s =
     (if m_payload_type s < 0 then
        let sid = (if st_id (m_st s) < RTP_PT_PRIVATE
                   then ff_rtp_get_payload_type (opt_payload_type E) (rfc2190 E) (codecpar (m_st s)) (- 1)
                   else st_id (m_st s))
        in s\<lparr>m_st := (m_st s)\<lparr>st_id := sid\<rparr>, m_payload_type := sid\<rparr>
      else s\<lparr>m_st := (m_st s)\<lparr>st_id := m_payload_type s\<rparr>\<rparr>)"

definition mux_counters :: "mux_env \<Rightarrow> RTPMuxContext \<Rightarrow> RTPMuxContext" where
  "mux_counters E s =
     s\<lparr>m_base_timestamp := seed E 0, m_timestamp := seed E 0, cur_timestamp := 0,
       m_ssrc := (if m_ssrc s = 0 then seed E 1 else m_ssrc s), first_packet := True,
       m_first_rtcp_ntp_time :=
         (if start_time_realtime E \<noteq> 0 \<and> start_time_realtime E \<noteq> AV_NOPTS_VALUE
          then c_div (start_time_realtime E) 1000 * 1000 + NTP_OFFSET_US else ff_ntp_time (now E)),
       m_seq := (if m_seq s < 0 then if bitexact E then 0 else uint (seed E 2 AND 0x0fff)
                 else m_seq s mod 65536)\<rparr>"

definition mux_packet_size :: "mux_env \<Rightarrow> int" where
  "mux_packet_size E =
     (if mtu_option E \<noteq> 0 then
        if pb_max_packet_size E \<noteq> 0 then min (mtu_option E) (pb_max_packet_size E) else mtu_option E
      else pb_max_packet_size E)"

text \<open>The switch over the codecs; an error leaves the buffer freed.\<close>

definition mux_codec :: "mux_env \<Rightarrow> RTPMuxContext \<Rightarrow> RTPMuxContext res" where
  "mux_codec E s =
     (let par = codecpar (m_st s); c = par_codec_id par; ext = par_extradata par
      in if c = CODEC_MP2 \<or> c = CODEC_MP3 then Ok (mux_set_pts_info 90000 (s\<lparr>buf := replicate 4 0\<rparr>))
         else if c = CODEC_MPEG2TS then
           Ok (s\<lparr>max_payload_size := max 1 (max_payload_size s div TS_PACKET_SIZE) * TS_PACKET_SIZE\<rparr>)
         else if c \<in> {CODEC_DIRAC, CODEC_H261, CODEC_VP9} then
           if above_experimental E then Err AVERROR_EXPERIMENTAL else Ok s
         else if c = CODEC_H264 then
           Ok (if length ext > 4 \<and> ext ! 0 = 1 then s\<lparr>nal_length_size := unat (ext ! 4 AND 0x03) + 1\<rparr> else s)
         else if c = CODEC_HEVC then
           Ok (if length ext > 21 \<and> ext ! 0 = 1 then s\<lparr>nal_length_size := unat (ext ! 21 AND 0x03) + 1\<rparr> else s)
         else if c = CODEC_VORBIS \<or> c = CODEC_THEORA then Ok (s\<lparr>max_frames_per_packet := 15\<rparr>)
         else if c = CODEC_ADPCM_G722 then Ok (mux_set_pts_info 8000 s)
         else if c = CODEC_OPUS then
           if par_nb_channels par > 2 then Err EINVAL else Ok (mux_set_pts_info 48000 s)
         else if c = CODEC_ILBC then
           if par_block_align par \<noteq> 38 \<and> par_block_align par \<noteq> 50 then Err EINVAL
           else Ok (s\<lparr>max_frames_per_packet := nat (max_payload_size s div par_block_align par)\<rparr>)
         else if c = CODEC_AMR_NB \<or> c = CODEC_AMR_WB then
           let s = s\<lparr>max_frames_per_packet := 50\<rparr>
           in if 1 + 50 + (if c = CODEC_AMR_NB then 31 else 61) > max_payload_size s then Err EINVAL
              else if par_nb_channels par \<noteq> 1 then Err EINVAL else Ok s
         else if c = CODEC_AAC then Ok (s\<lparr>max_frames_per_packet := 50\<rparr>)
         else Ok s)"

definition rtp_write_header :: "mux_env \<Rightarrow> RTPMuxContext \<Rightarrow> RTPMuxContext res" where
  "rtp_write_header E s =
     (if nb_streams E \<noteq> 1 then Err EINVAL
      else if \<not> is_supported (par_codec_id (codecpar (m_st s))) then Err Minus_one
      else
        let s = mux_counters E (mux_payload_type E s)
        in if mux_packet_size E \<le> 12 then Err EIO
           else if \<not> malloc_ok E then Err ENOMEM
           else
             let s = s\<lparr>max_payload_size := mux_packet_size E - 12, buf := []\<rparr>
             in mux_codec E (mux_set_pts_info
                  (if par_codec_type (codecpar (m_st s)) = AVMEDIA_TYPE_AUDIO
                   then par_sample_rate (codecpar (m_st s)) else 90000) s))"

section \<open>Sending\<close>

definition ff_rtp_send_data :: "bytes \<Rightarrow> bool \<Rightarrow> RTPMuxContext \<Rightarrow> RTPMuxContext" where
  "ff_rtp_send_data payload m s =
     s\<lparr>sent := sent s @ [rtp_packet (word_of_int (m_payload_type s)) m (word_of_int (m_seq s))
                          (m_timestamp s) (m_ssrc s) payload],
       m_seq := (m_seq s + 1) mod 65536,
       m_octet_count := m_octet_count s + of_nat (length payload),
       packet_count := packet_count s + 1\<rparr>"

text \<open>A sender report, the CNAME and the end of the session, in one datagram.\<close>

definition sender_report :: "int \<Rightarrow> u32 \<Rightarrow> RTPMuxContext \<Rightarrow> bytes" where
  "sender_report ntp_time rtp_ts s =
     [version_byte, RTCP_SR] @ AV_WB16 6 @ AV_WB32 (m_ssrc s) @ AV_WB32 (word_of_int (c_div ntp_time 1000000))
       @ AV_WB32 (word_of_int (c_div (c_mod ntp_time 1000000 * 2 ^ 32) 1000000)) @ AV_WB32 rtp_ts
       @ AV_WB32 (packet_count s) @ AV_WB32 (m_octet_count s)"

definition mux_sdes :: "u32 \<Rightarrow> bytes \<Rightarrow> bytes" where
  "mux_sdes ss name =
     (let name = take 255 name; n = length name; pad = (7 + n) mod 4
      in [version_byte + 1, RTCP_SDES] @ AV_WB16 (of_nat ((7 + n + 3) div 4)) @ AV_WB32 ss
           @ [1, of_nat n] @ name @ [0] @ replicate (if pad = 0 then 0 else 4 - pad) 0)"

definition rtcp_send_sr :: "int \<Rightarrow> bool \<Rightarrow> RTPMuxContext \<Rightarrow> RTPMuxContext" where
  "rtcp_send_sr ntp_time bye s =
     (let s = s\<lparr>m_last_rtcp_ntp_time := ntp_time\<rparr>;
          rtp_ts = word_of_int (av_rescale_q (ntp_time - m_first_rtcp_ntp_time s) (1, 1000000)
                     (st_time_base (m_st s))) + m_base_timestamp s
      in s\<lparr>sent := sent s @ [sender_report ntp_time rtp_ts s
             @ (case cname s of None \<Rightarrow> [] | Some name \<Rightarrow> mux_sdes (m_ssrc s) name)
             @ (if bye then [version_byte OR 1, RTCP_BYE] @ AV_WB16 1 @ AV_WB32 (m_ssrc s) else [])]\<rparr>)"

section \<open>H.264 and HEVC\<close>

definition mux_codec_id :: "RTPMuxContext \<Rightarrow> AVCodecID" where
  "mux_codec_id s = par_codec_id (codecpar (m_st s))"

text \<open>A single unit that was buffered is sent without the framing of an aggregate.\<close>

definition flush_buffered :: "bool \<Rightarrow> RTPMuxContext \<Rightarrow> RTPMuxContext" where
  "flush_buffered final s =
     (let s = (if buf s \<noteq> [] then
                 if buffered_nals s = 1
                 then ff_rtp_send_data (drop (if mux_codec_id s = CODEC_H264 then 3 else 4) (buf s)) final s
                 else ff_rtp_send_data (buf s) final s
               else s)
      in s\<lparr>buf := [], buffered_nals := 0\<rparr>)"

text \<open>The fragments: \<open>hdr\<close> is the payload header with the FU header as its last byte, whose bit 7 marks
  the first and bit 6 the last fragment.\<close>

function send_fragments :: "bytes \<Rightarrow> u8 \<Rightarrow> bytes \<Rightarrow> bool \<Rightarrow> RTPMuxContext \<Rightarrow> RTPMuxContext option" where
  "send_fragments hdr fu data final s =
     (let room = max_payload_size s - int (length hdr) - 1
      in if int (length data) > room then
           if room \<le> 0 then None
           else send_fragments hdr (fu AND 0x7f) (drop (nat room) data) final
                  (ff_rtp_send_data (hdr @ [fu] @ take (nat room) data) False s)
         else Some (ff_rtp_send_data (hdr @ [fu OR 0x40] @ data) final s))"
  by pat_completeness auto
termination
  by (relation "measure (\<lambda>(hdr, fu, data, final, s). length data)") auto

declare send_fragments.simps [simp del]

text \<open>
  \<open>None\<close> is the behaviour the code leaves undefined: a fragment loop without room for data, or (in
  the caller) a unit of negative size.
\<close>

definition fragment_nal :: "bytes \<Rightarrow> bool \<Rightarrow> RTPMuxContext \<Rightarrow> RTPMuxContext option" where
  "fragment_nal nal final s =
     (if mux_codec_id s = CODEC_H264
      then send_fragments [28 OR (nal ! 0 AND 0x60)] ((nal ! 0 AND 0x1f) OR 0x80) (drop 1 nal) final s
      else send_fragments [98, 1] ((drop_bit 1 (nal ! 0) AND 0x3f) OR 0x80) (drop 2 nal) final s)"

definition aggregate_nal :: "bytes \<Rightarrow> RTPMuxContext \<Rightarrow> RTPMuxContext" where
  "aggregate_nal nal s =
     (let marker = (if buf s = [] then if mux_codec_id s = CODEC_H264 then [24] else [96, 1] else [])
      in s\<lparr>buf := buf s @ marker @ AV_WB16 (of_nat (length nal)) @ nal, buffered_nals := buffered_nals s + 1\<rparr>)"

text \<open>A unit that fits into a packet joins the aggregate, or is sent alone behind what waits.\<close>

definition send_small :: "bytes \<Rightarrow> bool \<Rightarrow> RTPMuxContext \<Rightarrow> RTPMuxContext" where
  "send_small nal final s =
     (let h264 = (mux_codec_id s = CODEC_H264); header_size = (if h264 then 1 else 2);
          skip_aggregate = (h264 \<and> RTP_H264_MODE0 \<in> m_flags s)
      in if int (length (buf s)) + 2 + header_size + int (length nal) \<le> max_payload_size s \<and> \<not> skip_aggregate
         then aggregate_nal nal s
         else ff_rtp_send_data nal final (flush_buffered False s))"

definition nal_send :: "bytes \<Rightarrow> bool \<Rightarrow> RTPMuxContext \<Rightarrow> RTPMuxContext option" where
  "nal_send nal final s =
     (let size = int (length nal)
      in if size \<le> max_payload_size s then
           Some (send_small nal final
             (if int (length (buf s)) + 2 + size > max_payload_size s then flush_buffered False s else s))
         else
           let s = flush_buffered False s
           in if mux_codec_id s = CODEC_H264 \<and> RTP_H264_MODE0 \<in> m_flags s then Some s else fragment_nal nal final s)"

fun send_nals :: "bytes list \<Rightarrow> RTPMuxContext \<Rightarrow> RTPMuxContext option" where
  "send_nals [] s = Some s"
| "send_nals (n # ns) s = Option.bind (nal_send n (ns = []) s) (send_nals ns)"

text \<open>The units of an access unit: after start codes, or behind their lengths. \<open>al\<close> is the address of
  the data modulo 4. \<open>None\<close> is undefined behaviour: the skipping of zeros runs over the end, or fewer
  bytes than a length are left and the unit gets a negative size.\<close>

definition next_startcode :: "nat \<Rightarrow> bytes \<Rightarrow> nat \<Rightarrow> nat" where
  "next_startcode al d p = nat (ff_avc_find_startcode al d (int p) (int (length d)))"

definition skip_zeros :: "bytes \<Rightarrow> nat \<Rightarrow> nat" where
  "skip_zeros d r = r + length (takeWhile (\<lambda>b. b = 0) (drop r d)) + 1"

lemma next_startcode_plain:
  assumes "p \<le> length d"
  shows "next_startcode al d p = (let q = first_startcode d p (length d)
     in if p < q \<and> q < length d \<and> d ! (q - 1) = 0 then q - 1 else q)"
proof -
  define q where "q = first_startcode d p (length d)"
  have "nat (int q - 1) = q - 1" by simp
  then show ?thesis
    unfolding next_startcode_def ff_avc_find_startcode_def find_internal_plain [OF assms] Let_def q_def [symmetric]
    by simp
qed

lemma first_startcode_ge: "p \<le> fin \<Longrightarrow> p \<le> first_startcode d p fin \<and> first_startcode d p fin \<le> fin"
  by (auto simp: first_startcode_def find_Some_iff split: option.split)

lemma next_startcode_ge: "p \<le> length d \<Longrightarrow> p \<le> next_startcode al d p \<and> next_startcode al d p \<le> length d"
  using first_startcode_ge [of p "length d" d] by (auto simp: next_startcode_plain Let_def)

function split_annexb :: "nat \<Rightarrow> bytes \<Rightarrow> nat \<Rightarrow> bytes list option" where
  "split_annexb al d r =
     (if r < length d then
        let r0 = skip_zeros d r
        in if r0 > length d then None
           else let r1 = next_startcode al d r0
                in map_option ((#) (take (r1 - r0) (drop r0 d))) (split_annexb al d r1)
      else Some [])"
  by pat_completeness auto
termination
proof (relation "measure (\<lambda>(al, d, r). length d - r)")
  show "((al, d, r1), al, d, r) \<in> measure (\<lambda>(al, d, r). length d - r)"
    if "r < length d" "r0 = skip_zeros d r" "\<not> length d < r0" "r1 = next_startcode al d r0" for al d r r0 r1
    using that next_startcode_ge [of r0 d al] by (auto simp: skip_zeros_def)
qed simp

declare split_annexb.simps [simp del]

function split_mp4 :: "nat \<Rightarrow> bytes \<Rightarrow> nat \<Rightarrow> bytes list option" where
  "split_mp4 n d r =
     (if r < length d \<and> 0 < n then
        let r1 = (case ff_avc_mp4_find_startcode d (int r) (int (length d)) n of None \<Rightarrow> length d | Some q \<Rightarrow> nat q);
            r0 = r + n
        in if r0 > r1 then None else map_option ((#) (take (r1 - r0) (drop r0 d))) (split_mp4 n d r1)
      else Some [])"
  by pat_completeness auto
termination
  by (relation "measure (\<lambda>(n, d, r). length d - r)") auto

declare split_mp4.simps [simp del]

definition access_units :: "nat \<Rightarrow> nat \<Rightarrow> bytes \<Rightarrow> bytes list option" where
  "access_units al n d =
     (if n \<noteq> 0 then if ff_avc_mp4_find_startcode d 0 (int (length d)) n = None then Some [] else split_mp4 n d 0
      else split_annexb al d (next_startcode al d 0))"

definition ff_rtp_send_h264_hevc :: "nat \<Rightarrow> bytes \<Rightarrow> RTPMuxContext \<Rightarrow> RTPMuxContext option" where
  "ff_rtp_send_h264_hevc al d s =
     (let s = s\<lparr>m_timestamp := cur_timestamp s, buf := []\<rparr>
      in Option.bind (access_units al (nal_length_size s) d)
           (\<lambda>ns. map_option (flush_buffered True) (send_nals ns s)))"


section \<open>Other payloads\<close>

text \<open>The loops below end when the payload size leaves room for data; without room \<open>None\<close> says that the
  code goes on for ever.\<close>

function samples_loop :: "int \<Rightarrow> int \<Rightarrow> bytes \<Rightarrow> int \<Rightarrow> RTPMuxContext \<Rightarrow> RTPMuxContext option" where
  "samples_loop mps bits data n s =
     (if data = [] then Some s
      else if mps \<le> 0 then None
      else let chunk = take (nat mps) data
           in samples_loop mps bits (drop (nat mps) data) (n + int (length chunk))
                (ff_rtp_send_data chunk False
                   (s\<lparr>buf := chunk, m_timestamp := cur_timestamp s + word_of_int (n * 8 div bits)\<rparr>)))"
  by pat_completeness auto
termination
  by (relation "measure (\<lambda>(mps, bits, data, n, s). length data)") auto

declare samples_loop.simps [simp del]

text \<open>A sample size of 0 divides by zero.\<close>

definition rtp_send_samples :: "bytes \<Rightarrow> int \<Rightarrow> RTPMuxContext \<Rightarrow> (nat res \<times> RTPMuxContext) option" where
  "rtp_send_samples data bits s =
     (let aligned = bits div gcd bits 8
      in if aligned = 0 then None
         else let mps = max_payload_size s div aligned * aligned
              in if bits mod 8 = 0 \<and> 8 * int (length data) mod bits \<noteq> 0 then Some (Err EINVAL, s)
                 else map_option (Pair (Ok 0)) (samples_loop mps bits data 0 s))"

function audio_fragments :: "int \<Rightarrow> bytes \<Rightarrow> nat \<Rightarrow> RTPMuxContext \<Rightarrow> RTPMuxContext option" where
  "audio_fragments mps data n s =
     (if data = [] then Some s
      else if mps - 4 \<le> 0 then None
      else let chunk = take (nat (mps - 4)) data; hdr = [0, 0] @ AV_WB16 (of_nat n)
           in audio_fragments mps (drop (nat (mps - 4)) data) (n + length chunk)
                (ff_rtp_send_data (hdr @ chunk) False (s\<lparr>buf := hdr\<rparr>)))"
  by pat_completeness auto
termination
  by (relation "measure (\<lambda>(mps, data, n, s). length data)") auto

declare audio_fragments.simps [simp del]

definition rtp_send_mpegaudio :: "bytes \<Rightarrow> RTPMuxContext \<Rightarrow> RTPMuxContext option" where
  "rtp_send_mpegaudio data s =
     (let s = (if int (length (buf s) + length data) > max_payload_size s \<and> length (buf s) > 4
               then (let s = ff_rtp_send_data (buf s) False s in s\<lparr>buf := take 4 (buf s)\<rparr>) else s);
          s = (if length (buf s) = 4 then s\<lparr>m_timestamp := cur_timestamp s\<rparr> else s)
      in if int (length data) > max_payload_size s then audio_fragments (max_payload_size s) data 0 s
         else let s = (if length (buf s) = 4 then s\<lparr>buf := replicate 4 0\<rparr> else s)
              in Some (s\<lparr>buf := buf s @ data\<rparr>))"

function rtp_send_raw :: "bytes \<Rightarrow> RTPMuxContext \<Rightarrow> RTPMuxContext option" where
  "rtp_send_raw data s =
     (if data = [] then Some s
      else if max_payload_size s \<le> 0 then None
      else let n = nat (max_payload_size s)
           in rtp_send_raw (drop n data)
                (ff_rtp_send_data (take n data) (length data \<le> n) (s\<lparr>m_timestamp := cur_timestamp s\<rparr>)))"
  by pat_completeness auto
termination
  by (relation "measure (\<lambda>(data, s). length data)") auto

declare rtp_send_raw.simps [simp del]

function mpegts_loop :: "bytes \<Rightarrow> RTPMuxContext \<Rightarrow> RTPMuxContext option" where
  "mpegts_loop data s =
     (if int (length data) < TS_PACKET_SIZE then Some s
      else
        let n = nat (max_payload_size s - int (length (buf s)))
        in if n = 0 then None
           else
             let s = s\<lparr>buf := buf s @ take n data\<rparr>;
                 s = (if int (length (buf s)) \<ge> max_payload_size s
                      then (ff_rtp_send_data (buf s) False s)\<lparr>buf := []\<rparr> else s)
             in mpegts_loop (drop n data) s)"
  by pat_completeness auto
termination
  by (relation "measure (\<lambda>(data, s). length data)") (auto simp: TS_PACKET_SIZE_def)

declare mpegts_loop.simps [simp del]

definition rtp_send_mpegts_raw :: "bytes \<Rightarrow> RTPMuxContext \<Rightarrow> RTPMuxContext option" where
  "rtp_send_mpegts_raw data s = mpegts_loop data (s\<lparr>m_timestamp := cur_timestamp s\<rparr>)"

text \<open>\<open>dur\<close> is the duration of a frame by \<open>av_get_audio_frame_duration2\<close>, \<open>delay\<close> the \<open>max_delay\<close> of the
  format context.\<close>

definition ilbc_flush :: "RTPMuxContext \<Rightarrow> RTPMuxContext" where
  "ilbc_flush s = (ff_rtp_send_data (buf s) True s)\<lparr>num_frames := 0\<rparr>"

fun ilbc_loop :: "nat \<Rightarrow> int \<Rightarrow> int \<Rightarrow> nat \<Rightarrow> bytes \<Rightarrow> RTPMuxContext \<Rightarrow> RTPMuxContext" where
  "ilbc_loop 0 dur delay frame_size data s = s"
| "ilbc_loop (Suc frames) dur delay frame_size data s =
     (let s = (if num_frames s > 0
                  \<and> av_compare_ts (uint (cur_timestamp s - m_timestamp s)) (st_time_base (m_st s)) delay (1, 1000000) \<ge> 0
               then ilbc_flush s else s);
          s = (if num_frames s = 0 then s\<lparr>buf := [], m_timestamp := cur_timestamp s\<rparr> else s);
          s = s\<lparr>num_frames := num_frames s + 1, buf := buf s @ take frame_size data,
                cur_timestamp := cur_timestamp s + word_of_int dur\<rparr>;
          s = (if num_frames s = max_frames_per_packet s then ilbc_flush s else s)
      in ilbc_loop frames dur delay frame_size (drop frame_size data) s)"

definition rtp_send_ilbc :: "int \<Rightarrow> int \<Rightarrow> bytes \<Rightarrow> RTPMuxContext \<Rightarrow> RTPMuxContext option" where
  "rtp_send_ilbc dur delay data s =
     (let frame_size = nat (par_block_align (codecpar (m_st s)))
      in if frame_size = 0 then None
         else Some (ilbc_loop (length data div frame_size) dur delay frame_size data s))"

section \<open>Packets of the caller\<close>

text \<open>
  \<open>t0\<close> and \<open>t1\<close> are the two readings of the NTP clock; \<open>other\<close> stands for the packetisers of the other
  files, \<open>al\<close>, \<open>dur\<close> and \<open>delay\<close> as above.
\<close>

definition maybe_send_sr :: "int \<Rightarrow> int \<Rightarrow> RTPMuxContext \<Rightarrow> RTPMuxContext" where
  "maybe_send_sr t0 t1 s =
     (let rtcp_bytes = (m_octet_count s - m_last_octet_count s) * RTCP_TX_RATIO_NUM div RTCP_TX_RATIO_DEN
      in if (first_packet s \<or> rtcp_bytes \<ge> RTCP_SR_SIZE \<and> t0 - m_last_rtcp_ntp_time s > 5000000)
            \<and> RTP_SKIP_RTCP \<notin> m_flags s
         then let s = rtcp_send_sr t1 False s in s\<lparr>m_last_octet_count := m_octet_count s, first_packet := False\<rparr>
         else s)"

definition plain_result :: "RTPMuxContext option \<Rightarrow> (nat res \<times> RTPMuxContext) option" where
  "plain_result r = map_option (Pair (Ok 0)) r"

definition send_payload :: "(AVCodecID \<Rightarrow> bytes \<Rightarrow> RTPMuxContext \<Rightarrow> RTPMuxContext option) \<Rightarrow> nat \<Rightarrow> int \<Rightarrow> int
    \<Rightarrow> bytes \<Rightarrow> RTPMuxContext \<Rightarrow> (nat res \<times> RTPMuxContext) option" where
  "send_payload other al dur delay data s =
     (let par = codecpar (m_st s); c = par_codec_id par; ch = par_nb_channels par
      in if c \<in> {CODEC_PCM_MULAW, CODEC_PCM_ALAW, CODEC_PCM_U8, CODEC_PCM_S8, CODEC_ADPCM_G722}
           then rtp_send_samples data (8 * ch) s
         else if c \<in> {CODEC_PCM_U16BE, CODEC_PCM_U16LE, CODEC_PCM_S16BE, CODEC_PCM_S16LE}
           then rtp_send_samples data (16 * ch) s
         else if c = CODEC_PCM_S24BE then rtp_send_samples data (24 * ch) s
         else if c \<in> {CODEC_ADPCM_G726, CODEC_ADPCM_G726LE}
           then rtp_send_samples data (par_bits_per_coded_sample par * ch) s
         else if c \<in> {CODEC_MP2, CODEC_MP3} then plain_result (rtp_send_mpegaudio data s)
         else if c = CODEC_MPEG2TS then plain_result (rtp_send_mpegts_raw data s)
         else if c \<in> {CODEC_H264, CODEC_HEVC} then plain_result (ff_rtp_send_h264_hevc al data s)
         else if c = CODEC_ILBC then plain_result (rtp_send_ilbc dur delay data s)
         else if c \<in> {CODEC_MPEG1VIDEO, CODEC_MPEG2VIDEO, CODEC_AAC, CODEC_AMR_NB, CODEC_AMR_WB, CODEC_DIRAC,
                      CODEC_H261, CODEC_H263, CODEC_OTHER 19, CODEC_VORBIS, CODEC_THEORA, CODEC_VP8, CODEC_VP9,
                      CODEC_MJPEG, CODEC_OTHER 222, CODEC_OTHER 13}
           then plain_result (other c data s)
         else if c = CODEC_OPUS \<and> int (length data) > max_payload_size s then Some (Err EINVAL, s)
         else plain_result (rtp_send_raw data s))"

definition rtp_write_packet :: "(AVCodecID \<Rightarrow> bytes \<Rightarrow> RTPMuxContext \<Rightarrow> RTPMuxContext option) \<Rightarrow> nat \<Rightarrow> int \<Rightarrow> int
    \<Rightarrow> int \<Rightarrow> int \<Rightarrow> bytes \<Rightarrow> int \<Rightarrow> RTPMuxContext \<Rightarrow> (nat res \<times> RTPMuxContext) option" where
  "rtp_write_packet other al dur delay t0 t1 data pts s =
     (let s = maybe_send_sr t0 t1 s
      in send_payload other al dur delay data
           (s\<lparr>cur_timestamp := m_base_timestamp s + word_of_int pts\<rparr>))"

definition rtp_write_trailer :: "bool \<Rightarrow> int \<Rightarrow> RTPMuxContext \<Rightarrow> RTPMuxContext" where
  "rtp_write_trailer has_pb t s =
     (let s = (if has_pb \<and> RTP_SEND_BYE \<in> m_flags s then rtcp_send_sr t True s else s) in s\<lparr>buf := []\<rparr>)"

end
