(* ===== verification/RtpUnits.thy ===== *)
theory RtpUnits
  imports RtpEnc
begin

text \<open>
  How \<^verbatim>\<open>libavformat/rtpenc_h264_hevc.c\<close> cuts an access unit: byte streams with start codes and
  units behind their lengths come apart into the units they were made of.
\<close>

section \<open>Byte streams\<close>

text \<open>Units behind start codes of three bytes, or of four where the flag says so.\<close>

definition start_code :: "bool \<Rightarrow> bytes" where
  "start_code z = (if z then [0, 0, 0, 1] else [0, 0, 1])"

fun byte_stream :: "(bool \<times> bytes) list \<Rightarrow> bytes" where
  "byte_stream [] = []"
| "byte_stream ((z, n) # ns) = start_code z @ n @ byte_stream ns"

text \<open>A unit has no start code inside, and does not end in a zero.\<close>

definition clean :: "bytes \<Rightarrow> bool" where
  "clean n \<longleftrightarrow> (n = [] \<or> last n \<noteq> 0) \<and> list_all (\<lambda>i. \<not> startcode_at n i) [0..<length n - 2]"

lemma clean_iff: "clean n \<longleftrightarrow> (n = [] \<or> last n \<noteq> 0) \<and> (\<forall>i. i + 2 < length n \<longrightarrow> \<not> startcode_at n i)"
  by (auto simp: clean_def list_all_iff less_diff_conv)

lemma first_startcode_at:
  assumes "startcode_at d q" "p \<le> q" "q < fin - 3" "\<forall>i. p \<le> i \<and> i < q \<longrightarrow> \<not> startcode_at d i"
  shows "first_startcode d p fin = q"
proof -
  have "find (startcode_at d) [p..<fin - 3] = Some q"
    unfolding find_Some_iff using assms
    by (intro exI [of _ "q - p"]) (auto simp: less_diff_conv)
  then show ?thesis by (simp add: first_startcode_def)
qed

lemma no_sc3_in_unit:
  assumes "clean n" "d = pre @ n @ rest" "k < length n"
  shows "\<not> startcode_at d (length pre + k)"
proof (cases "k + 2 < length n")
  case True
  then show ?thesis using assms by (auto simp: clean_iff startcode_at_def nth_append)
next
  case False
  have "n \<noteq> []" using assms(3) by auto
  then have "n ! (length n - 1) \<noteq> 0" using assms(1) last_conv_nth [of n] by (simp add: clean_iff)
  moreover have "k = length n - 1 \<or> k + 1 = length n - 1" using False assms(3) by auto
  ultimately show ?thesis using assms(2,3) by (auto simp: startcode_at_def nth_append)
qed

lemma unit_ends:
  assumes "clean n" "\<forall>(z, m) \<in> set ns. m \<noteq> []" "d = pre @ n @ byte_stream ns"
  shows "next_startcode al d (length pre) = length pre + length n"
proof (cases ns)
  case Nil
  have "\<not> startcode_at d i" if "length pre \<le> i" "i < length d - 3" for i
  proof -
    have "i = length pre + (i - length pre)" using that(1) by simp
    then obtain k where "i = length pre + k" ..
    moreover from this have "k < length n" using that(2) by (simp add: assms(3) Nil)
    ultimately show ?thesis using no_sc3_in_unit [OF assms(1,3), of k] by simp
  qed
  then have "find (startcode_at d) [length pre..<length d - 3] = None" by (simp add: find_None_iff)
  then show ?thesis using assms(3) Nil by (simp add: next_startcode_plain first_startcode_def Let_def)
next
  case (Cons x ns')
  obtain z m where x: "x = (z, m)" by (cases x)
  define q where "q = length pre + length n + of_bool z"
  have m: "m \<noteq> []" using assms(2) Cons x by auto
  have d: "d = pre @ n @ start_code z @ m @ byte_stream ns'" using assms(3) Cons x by simp
  have before: "\<forall>i. length pre \<le> i \<and> i < length pre + length n \<longrightarrow> \<not> startcode_at d i"
    using no_sc3_in_unit [OF assms(1,3)] by (metis add_less_cancel_left le_add_diff_inverse)
  have at: "startcode_at d q" unfolding d q_def by (cases z) (simp_all add: startcode_at_def start_code_def nth_append)
  have "\<not> startcode_at d (length pre + length n)" if z using that unfolding d by (simp add: startcode_at_def start_code_def nth_append)
  then have none: "\<forall>i. length pre \<le> i \<and> i < q \<longrightarrow> \<not> startcode_at d i"
    using before by (auto simp: q_def less_Suc_eq)
  have "q < length d - 3" using m by (cases z) (auto simp: d q_def start_code_def neq_Nil_conv)
  then have f: "first_startcode d (length pre) (length d) = q"
    using at none by (intro first_startcode_at) (simp_all add: q_def)
  have zb: "d ! (q - 1) = 0 \<and> length pre < q" if z using that by (simp add: d q_def start_code_def nth_append)
  have nz: "\<not> (length pre < q \<and> d ! (q - 1) = 0)" if "\<not> z"
  proof (cases "n = []")
    case False
    then obtain m where m: "length n = Suc m" by (cases n) auto
    then have "q - 1 = length pre + m" using that by (simp add: q_def)
    moreover have "d ! (length pre + m) = n ! m" unfolding d nth_append_length_plus using m by (simp add: nth_append)
    ultimately have "d ! (q - 1) = last n" using False m by (simp add: last_conv_nth)
    then show ?thesis using False assms(1) by (simp add: clean_iff)
  qed (use that in \<open>simp add: q_def\<close>)
  have "q < length d" using \<open>q < length d - 3\<close> by simp
  moreover have "length pre \<le> length d" by (simp add: d)
  from next_startcode_plain [OF this, of al]
  have "next_startcode al d (length pre) = (if length pre < q \<and> q < length d \<and> d ! (q - 1) = 0 then q - 1 else q)"
    by (simp only: f Let_def)
  ultimately have "next_startcode al d (length pre) = (if z then q - 1 else q)"
    using zb nz by (cases z) auto
  then show ?thesis by (simp add: q_def)
qed

lemma skip_start_code: "skip_zeros (pre @ start_code z @ m) (length pre) = length pre + length (start_code z)"
  by (simp add: skip_zeros_def start_code_def)

lemma start_code_length: "0 < length (start_code z)"
  by (simp add: start_code_def)

lemma split_stream:
  assumes "\<forall>(z, n) \<in> set ns. n \<noteq> [] \<and> clean n"
  shows "split_annexb al (pre @ byte_stream ns) (length pre) = Some (map snd ns)"
  using assms
proof (induction ns arbitrary: pre)
  case Nil
  then show ?case by (subst split_annexb.simps) simp
next
  case (Cons x ns)
  obtain z n where x: "x = (z, n)" by (cases x)
  define p where "p = pre @ start_code z"
  define d where "d = pre @ byte_stream (x # ns)"
  have d: "d = p @ n @ byte_stream ns" "d = pre @ start_code z @ n @ byte_stream ns"
    by (simp_all add: d_def p_def x)
  have n: "clean n" "\<forall>(z, m) \<in> set ns. m \<noteq> []" using Cons.prems x by auto
  have r0: "skip_zeros d (length pre) = length p" unfolding d(2) skip_start_code by (simp add: p_def)
  have r1: "next_startcode al d (length p) = length (p @ n)"
    using unit_ends [OF n d(1), of al] by simp
  have i: "split_annexb al d (length (p @ n)) = Some (map snd ns)"
    using Cons.IH [of "p @ n"] Cons.prems by (simp add: d(1))
  have lt: "length pre < length d" using start_code_length [of z] by (simp add: d(2))
  have le: "\<not> length d < length p" by (simp add: d(1))
  have u: "take (length (p @ n) - length p) (drop (length p) d) = n" by (simp add: d(1))
  have "split_annexb al d (length pre) = map_option ((#) n) (split_annexb al d (length (p @ n)))"
    using lt le by (subst split_annexb.simps) (simp only: r0 r1 u if_True if_False Let_def)
  then have "split_annexb al d (length pre) = Some (n # map snd ns)" by (simp only: i option.map)
  then show ?case by (simp only: d_def x list.map snd_conv)
qed

lemma access_units_stream:
  assumes "\<forall>(z, n) \<in> set ns. n \<noteq> [] \<and> clean n"
  shows "access_units al 0 (byte_stream ns) = Some (map snd ns)"
proof -
  have "next_startcode al (byte_stream ns) 0 = 0"
    using unit_ends [of "[]" ns "byte_stream ns" "[]" al] assms by (auto simp: clean_iff)
  then show ?thesis using split_stream [OF assms, of al "[]"] by (simp add: access_units_def)
qed

text \<open>
  C29. A byte stream is cut into the units it was made of. Units that are not empty, have no start code
  inside and do not end in a zero, behind start codes of three or four bytes in any mixture, are
  the units the packetiser sends, whatever the alignment of the buffer.
\<close>

theorem byte_stream_split:
  assumes "\<forall>(z, n) \<in> set ns. n \<noteq> [] \<and> clean n"
  shows "access_units al 0 (byte_stream ns) = Some (map snd ns)"
  by (rule access_units_stream [OF assms])

theorem byte_stream_split_witness:
  "access_units 3 0 (byte_stream [(True, [0x67, 0, 1, 2]), (False, [0x68, 0, 0, 3]), (True, [0x65])])
   = Some [[0x67, 0, 1, 2], [0x68, 0, 0, 3], [0x65]]"
proof -
  have "list_all (\<lambda>(z, n). n \<noteq> [] \<and> clean n) [(True, [0x67, 0, 1, 2]), (False, [0x68, 0, 0, 3]), (True, [0x65])]"
    by code_simp
  from byte_stream_split [OF this [unfolded list_all_iff]] show ?thesis by simp
qed

section \<open>Units behind their lengths\<close>

text \<open>A number in \<open>n\<close> bytes, most significant first.\<close>

fun be_bytes :: "nat \<Rightarrow> nat \<Rightarrow> bytes" where
  "be_bytes 0 x = []"
| "be_bytes (Suc n) x = of_nat (x div 256 ^ n) # be_bytes n x"

lemma length_be_bytes [simp]: "length (be_bytes n x) = n"
  by (induction n) simp_all

definition length_stream :: "nat \<Rightarrow> bytes list \<Rightarrow> bytes" where
  "length_stream n us = concat (map (\<lambda>u. be_bytes n (length u) @ u) us)"

lemma push_byte: "push_bit 8 res OR ucast (b :: u8) = res * 256 + (ucast b :: u32)"
proof -
  have "push_bit 8 res AND (ucast b :: u32) = 0" by (rule bit_word_eqI) (auto simp: bit_simps dest: bit_imp_le_length)
  then have "push_bit 8 res OR ucast b = push_bit 8 res + (ucast b :: u32)" by (simp add: disjunctive_add_eq_or)
  then show ?thesis by (simp add: push_bit_eq_mult)
qed

lemma ucast_byte: "(ucast (of_nat y :: u8) :: u32) = of_nat (y mod 256)"
  by (rule bit_word_eqI) (auto simp: bit_simps take_bit_eq_mod [symmetric, where n = 8, simplified])

lemma big_endian_bytes: "big_endian res (be_bytes n x) = res * 256 ^ n + of_nat (x mod 256 ^ n)"
proof (induction n arbitrary: res)
  case (Suc n)
  have "x mod 256 ^ Suc n = 256 ^ n * (x div 256 ^ n mod 256) + x mod 256 ^ n"
    by (subst power_Suc2, subst mod_mult2_eq) simp
  then show ?case
    unfolding be_bytes.simps big_endian.simps Suc.IH push_byte
    unfolding ucast_byte
    by (simp add: algebra_simps)
qed simp

lemma next_unit:
  assumes "0 < n" "n \<le> 4" "length u < 256 ^ n" "d = pre @ be_bytes n (length u) @ u @ rest"
  shows "ff_avc_mp4_find_startcode d (int (length pre)) (int (length d)) n = Some (int (length pre + n + length u))"
proof -
  have "256 ^ n \<le> (256 ^ 4 :: nat)" using assms(2) by (intro power_increasing) simp_all
  then have "length u < 4294967296" using assms(3) by simp
  then have "uint (of_nat (length u) :: u32) = int (length u)"
    by (simp add: unsigned_of_nat take_bit_nat_eq_self)
  then have "uint (big_endian 0 (be_bytes n (length u))) = int (length u)"
    using assms(3) by (simp add: big_endian_bytes)
  then show ?thesis by (simp add: ff_avc_mp4_find_startcode_def assms(4))
qed

lemma split_lengths_tail:
  assumes "0 < n" "n \<le> 4" "\<forall>u \<in> set us. length u < 256 ^ n" "length tail < n"
  shows "split_mp4 n (pre @ length_stream n us @ tail) (length pre) = (if tail = [] then Some us else None)"
  using assms(3)
proof (induction us arbitrary: pre)
  case Nil
  have "\<not> int n \<le> int (length tail)" using assms(4) by simp
  then show ?case
    using assms(1,4) by (subst split_mp4.simps) (simp add: length_stream_def ff_avc_mp4_find_startcode_def)
next
  case (Cons u us)
  define d where "d = pre @ length_stream n (u # us) @ tail"
  define p where "p = pre @ be_bytes n (length u)"
  have d: "d = pre @ be_bytes n (length u) @ u @ length_stream n us @ tail" "d = p @ u @ length_stream n us @ tail"
    by (simp_all add: d_def p_def length_stream_def)
  have f: "ff_avc_mp4_find_startcode d (int (length pre)) (int (length d)) n = Some (int (length (p @ u)))"
    using next_unit [OF assms(1,2) _ d(1)] Cons.prems by (simp add: p_def)
  have i: "split_mp4 n d (length (p @ u)) = (if tail = [] then Some us else None)"
    using Cons.IH [of "p @ u"] Cons.prems by (simp add: d(2))
  have r0: "length pre + n = length p" by (simp add: p_def)
  have u: "take (length (p @ u) - length p) (drop (length p) d) = u" by (simp add: d(2))
  have c: "length pre < length d \<and> 0 < n" "\<not> length (p @ u) < length p" using assms(1) by (auto simp: d(1))
  have "split_mp4 n d (length pre) = map_option ((#) u) (split_mp4 n d (length (p @ u)))"
    using c by (subst split_mp4.simps) (simp only: f r0 u option.case nat_int if_True if_False Let_def simp_thms)
  then have "split_mp4 n d (length pre) = (if tail = [] then Some (u # us) else None)"
    by (simp only: i) simp
  then show ?case by (simp only: d_def)
qed

lemma first_unit:
  assumes "0 < n" "n \<le> 4" "\<forall>u \<in> set us. length u < 256 ^ n" "us \<noteq> []"
  obtains r where "ff_avc_mp4_find_startcode (length_stream n us @ tail) 0 (int (length (length_stream n us @ tail))) n = Some r"
proof -
  obtain u us' where us: "us = u # us'" using assms(4) by (cases us) auto
  have "length_stream n us @ tail = [] @ be_bytes n (length u) @ u @ length_stream n us' @ tail"
    by (simp add: us length_stream_def)
  from next_unit [OF assms(1,2) _ this] show thesis using assms(3) us that by auto
qed

text \<open>
  An access unit in the length-prefixed form of MP4 files is cut into its units, whatever is in
  them, when they are shorter than the prefix can say.
\<close>

theorem length_stream_split:
  assumes "0 < n" "n \<le> 4" "\<forall>u \<in> set us. length u < 256 ^ n"
  shows "access_units al n (length_stream n us) = Some us"
proof (cases us)
  case Nil
  then show ?thesis using assms(1) by (simp add: access_units_def ff_avc_mp4_find_startcode_def length_stream_def)
next
  case (Cons u us')
  then have ne: "us \<noteq> []" by simp
  obtain r where "ff_avc_mp4_find_startcode (length_stream n us) 0 (int (length (length_stream n us))) n = Some r"
    by (rule first_unit [OF assms ne, of "[]"]) simp
  then show ?thesis using split_lengths_tail [OF assms, of "[]" "[]"] assms(1) by (simp add: access_units_def)
qed

theorem length_stream_split_witness:
  "access_units 0 2 (length_stream 2 [[0x67, 0, 0, 1], [], [0x68, 0]]) = Some [[0x67, 0, 0, 1], [], [0x68, 0]]"
  by (rule length_stream_split) simp_all

text \<open>
  Fewer bytes than a length prefix behind the last unit lead to undefined behaviour: the loop steps
  over the end of the data and sends a unit of negative size.
\<close>

theorem trailing_bytes_undefined:
  assumes "0 < n" "n \<le> 4" "\<forall>u \<in> set us. length u < 256 ^ n" "us \<noteq> []" "tail \<noteq> []" "length tail < n"
    and "nal_length_size s = n"
  shows "ff_rtp_send_h264_hevc al (length_stream n us @ tail) s = None"
proof -
  obtain r where "ff_avc_mp4_find_startcode (length_stream n us @ tail) 0 (int (length (length_stream n us @ tail))) n = Some r"
    by (rule first_unit [OF assms(1-4)])
  then have "access_units al n (length_stream n us @ tail) = None"
    using split_lengths_tail [OF assms(1-3,6), of "[]"] assms(1,5) by (simp add: access_units_def)
  then show ?thesis using assms(7) by (simp add: ff_rtp_send_h264_hevc_def)
qed

theorem trailing_bytes_undefined_witness:
  "\<forall>s :: RTPMuxContext. ff_rtp_send_h264_hevc 0 (length_stream 4 [[0x67, 1, 2]] @ [0, 0]) (s\<lparr>nal_length_size := 4\<rparr>) = None"
  by (intro allI trailing_bytes_undefined) simp_all

end
