(* ===== verification/RtpMux.thy ===== *)
theory RtpMux
  imports RtpEnc
begin

text \<open>
  The buffer of the RTP muxer of \<^verbatim>\<open>libavformat/rtpenc.c\<close>: it is allocated once with the size of a packet,
  and every packetiser collects its payload in it. The well-formedness of the context, that the
  header establishes it and that every operation keeps it.
\<close>

section \<open>Well-formedness\<close>

definition ilbc_frames_ok :: "RTPMuxContext \<Rightarrow> bool" where
  "ilbc_frames_ok s \<longleftrightarrow> (let a = nat (par_block_align (codecpar (m_st s))) in
     0 < max_frames_per_packet s \<and> int (max_frames_per_packet s * a) \<le> max_payload_size s
     \<and> num_frames s < max_frames_per_packet s \<and> (num_frames s = 0 \<or> length (buf s) = num_frames s * a))"

text \<open>\<open>P\<close> is the size of the allocated buffer.\<close>

definition fits :: "int \<Rightarrow> RTPMuxContext \<Rightarrow> bool" where
  "fits P s \<longleftrightarrow> 0 \<le> m_seq s \<and> m_seq s < 65536 \<and> 0 < max_payload_size s \<and> max_payload_size s + 12 \<le> P
     \<and> int (length (buf s)) \<le> max_payload_size s + 4
     \<and> (\<forall>p \<in> set (sent s). p ! 1 = RTCP_SR \<or> int (length p) \<le> P + 4)
     \<and> 0 \<le> par_nb_channels (codecpar (m_st s)) \<and> 0 \<le> par_bits_per_coded_sample (codecpar (m_st s))
     \<and> (mux_codec_id s = CODEC_ILBC \<longrightarrow> ilbc_frames_ok s)"

lemma fits_send:
  assumes "fits P s" "int (length p) \<le> max_payload_size s + 4"
  shows "fits P (ff_rtp_send_data p m s)"
  using assms by (auto simp: fits_def ff_rtp_send_data_def rtp_packet_fields mux_codec_id_def ilbc_frames_ok_def)

lemma send_keeps [simp]:
  "max_payload_size (ff_rtp_send_data p m s) = max_payload_size s" "buf (ff_rtp_send_data p m s) = buf s"
  "mux_codec_id (ff_rtp_send_data p m s) = mux_codec_id s" "m_st (ff_rtp_send_data p m s) = m_st s"
  "num_frames (ff_rtp_send_data p m s) = num_frames s" "m_flags (ff_rtp_send_data p m s) = m_flags s"
  "max_frames_per_packet (ff_rtp_send_data p m s) = max_frames_per_packet s"
  by (simp_all add: ff_rtp_send_data_def mux_codec_id_def)

text \<open>Timestamps and counters do not matter to it; a new buffer has to fit, and the iLBC
  packetiser is the only one that counts frames.\<close>

lemma fits_updates [simp]:
  "fits P (s\<lparr>m_timestamp := t\<rparr>) = fits P s" "fits P (s\<lparr>cur_timestamp := t\<rparr>) = fits P s"
  "fits P (s\<lparr>m_last_octet_count := n\<rparr>) = fits P s" "fits P (s\<lparr>first_packet := b\<rparr>) = fits P s"
  "fits P (s\<lparr>buffered_nals := k\<rparr>) = fits P s"
  by (simp_all add: fits_def mux_codec_id_def ilbc_frames_ok_def)

lemma fits_buf:
  "fits P s \<Longrightarrow> int (length b) \<le> max_payload_size s + 4 \<Longrightarrow> mux_codec_id s \<noteq> CODEC_ILBC \<Longrightarrow> fits P (s\<lparr>buf := b\<rparr>)"
  by (simp add: fits_def mux_codec_id_def)

lemma codec_updates [simp]:
  "mux_codec_id (s\<lparr>m_timestamp := t\<rparr>) = mux_codec_id s" "mux_codec_id (s\<lparr>cur_timestamp := t\<rparr>) = mux_codec_id s"
  "mux_codec_id (s\<lparr>buf := b\<rparr>) = mux_codec_id s" "mux_codec_id (s\<lparr>buffered_nals := k\<rparr>) = mux_codec_id s"
  "mux_codec_id (s\<lparr>num_frames := k\<rparr>) = mux_codec_id s"
  by (simp_all add: mux_codec_id_def)

section \<open>The packetisers\<close>

lemma samples_fit:
  "samples_loop mps bits data n s = Some t \<Longrightarrow> fits P s \<Longrightarrow> mux_codec_id s \<noteq> CODEC_ILBC \<Longrightarrow> mps \<le> max_payload_size s
   \<Longrightarrow> fits P t"
proof (induction mps bits data n s rule: samples_loop.induct)
  case (1 mps bits data n s)
  show ?case
  proof (cases "data = []")
    case True
    then show ?thesis using 1 by (subst (asm) (2) samples_loop.simps) simp
  next
    case False
    with 1(2) have m: "\<not> mps \<le> 0" by (subst (asm) samples_loop.simps) (simp split: if_splits)
    define s1 where "s1 = ff_rtp_send_data (take (nat mps) data) False
      (s\<lparr>buf := take (nat mps) data, m_timestamp := cur_timestamp s + word_of_int (n * 8 div bits)\<rparr>)"
    have l: "int (length (take (nat mps) data)) \<le> max_payload_size s + 4" using m 1(5) by simp
    have "fits P (s\<lparr>buf := take (nat mps) data\<rparr>)" by (rule fits_buf [OF 1(3) l 1(4)])
    then have f: "fits P s1" unfolding s1_def using l by (intro fits_send) simp_all
    have r: "samples_loop mps bits (drop (nat mps) data) (n + int (length (take (nat mps) data))) s1 = Some t"
      using 1(2) False m by (subst (asm) samples_loop.simps) (simp add: s1_def Let_def)
    show ?thesis
      by (rule 1(1) [OF False m refl, folded s1_def, OF r f]) (use 1(4,5) in \<open>simp_all add: s1_def\<close>)
  qed
qed

lemma audio_fit:
  "audio_fragments mps data n s = Some t \<Longrightarrow> fits P s \<Longrightarrow> mux_codec_id s \<noteq> CODEC_ILBC \<Longrightarrow> mps = max_payload_size s
   \<Longrightarrow> fits P t"
proof (induction mps data n s rule: audio_fragments.induct)
  case (1 mps data n s)
  show ?case
  proof (cases "data = []")
    case True
    then show ?thesis using 1 by (subst (asm) (2) audio_fragments.simps) simp
  next
    case False
    with 1(2) have m: "\<not> mps - 4 \<le> 0" by (subst (asm) audio_fragments.simps) (simp split: if_splits)
    define c where "c = take (nat (mps - 4)) data"
    define h where "h = [0, 0] @ AV_WB16 (of_nat n)"
    define s1 where "s1 = ff_rtp_send_data (h @ c) False (s\<lparr>buf := h\<rparr>)"
    have h: "length h = 4" by (simp add: h_def)
    have l: "int (length (h @ c)) \<le> max_payload_size s + 4" using m 1(5) h by (simp add: c_def)
    have "fits P (s\<lparr>buf := h\<rparr>)" using 1(3,4,5) m h by (intro fits_buf) simp_all
    then have f: "fits P s1" unfolding s1_def using l by (intro fits_send) simp_all
    have r: "audio_fragments mps (drop (nat (mps - 4)) data) (n + length c) s1 = Some t"
      using 1(2) False m by (subst (asm) audio_fragments.simps) (simp add: s1_def c_def h_def Let_def)
    show ?thesis
      by (rule 1(1) [OF False m refl refl, folded h_def c_def s1_def, OF r f]) (use 1(4,5) in \<open>simp_all add: s1_def\<close>)
  qed
qed

lemma mpegaudio_fit:
  assumes "rtp_send_mpegaudio data s = Some t" "fits P s" "mux_codec_id s \<noteq> CODEC_ILBC"
  shows "fits P t"
proof -
  define s1 where "s1 = (if int (length (buf s) + length data) > max_payload_size s \<and> length (buf s) > 4
    then (ff_rtp_send_data (buf s) False s)\<lparr>buf := take 4 (buf (ff_rtp_send_data (buf s) False s))\<rparr> else s)"
  define s2 where "s2 = (if length (buf s1) = 4 then s1\<lparr>m_timestamp := cur_timestamp s1\<rparr> else s1)"
  have b: "int (length (buf s)) \<le> max_payload_size s + 4" using assms(2) by (simp add: fits_def)
  have "fits P (ff_rtp_send_data (buf s) False s)" by (rule fits_send [OF assms(2) b])
  then have "fits P ((ff_rtp_send_data (buf s) False s)\<lparr>buf := take 4 (buf s)\<rparr>)"
    using assms(3) b by (intro fits_buf) simp_all
  then have 1: "fits P s1" "mux_codec_id s1 \<noteq> CODEC_ILBC" "max_payload_size s1 = max_payload_size s"
    using assms(2,3) by (simp_all add: s1_def)
  have small: "int (length (buf s1) + length data) \<le> max_payload_size s1 \<or> length (buf s1) \<le> 4"
    by (auto simp: s1_def)
  have 2: "fits P s2" "mux_codec_id s2 \<noteq> CODEC_ILBC" "max_payload_size s2 = max_payload_size s" "buf s2 = buf s1"
    using 1 by (simp_all add: s2_def)
  define s3 where "s3 = (if length (buf s2) = 4 then s2\<lparr>buf := replicate 4 0\<rparr> else s2)"
  have t: "Some t = (if int (length data) > max_payload_size s2 then audio_fragments (max_payload_size s2) data 0 s2
      else Some (s3\<lparr>buf := buf s3 @ data\<rparr>))"
    using assms(1) unfolding rtp_send_mpegaudio_def Let_def s1_def [symmetric] s2_def [symmetric] s3_def [symmetric]
    by (simp only:)
  show ?thesis
  proof (cases "int (length data) > max_payload_size s2")
    case True
    then show ?thesis using audio_fit [OF _ 2(1,2) refl] t by simp
  next
    case False
    have "length (buf s3) = length (buf s2)" "mux_codec_id s3 \<noteq> CODEC_ILBC" "max_payload_size s3 = max_payload_size s2"
      using 2 by (simp_all add: s3_def)
    moreover have "0 < max_payload_size s2" using 2(1) by (simp add: fits_def)
    then have "fits P s3" using 2 by (auto simp: s3_def intro!: fits_buf)
    ultimately have "fits P (s3\<lparr>buf := buf s3 @ data\<rparr>)"
      using small False 2 1(3) by (intro fits_buf) auto
    then show ?thesis using t False by simp
  qed
qed

lemma raw_fit: "rtp_send_raw data s = Some t \<Longrightarrow> fits P s \<Longrightarrow> fits P t"
proof (induction data s rule: rtp_send_raw.induct)
  case (1 data s)
  show ?case
  proof (cases "data = []")
    case True
    then show ?thesis using 1 by (subst (asm) (2) rtp_send_raw.simps) simp
  next
    case False
    with 1(2) have m: "\<not> max_payload_size s \<le> 0" by (subst (asm) rtp_send_raw.simps) (simp split: if_splits)
    define n where "n = nat (max_payload_size s)"
    define s1 where "s1 = ff_rtp_send_data (take n data) (length data \<le> n) (s\<lparr>m_timestamp := cur_timestamp s\<rparr>)"
    have f: "fits P s1" unfolding s1_def using 1(3) m by (intro fits_send) (simp_all add: n_def)
    have r: "rtp_send_raw (drop n data) s1 = Some t"
      using 1(2) False m by (subst (asm) rtp_send_raw.simps) (simp add: s1_def n_def Let_def)
    show ?thesis by (rule 1(1) [OF False m n_def, folded s1_def, OF r f])
  qed
qed

lemma mpegts_fit:
  "mpegts_loop data s = Some t \<Longrightarrow> fits P s \<Longrightarrow> mux_codec_id s \<noteq> CODEC_ILBC \<Longrightarrow> fits P t"
proof (induction data s rule: mpegts_loop.induct)
  case (1 data s)
  show ?case
  proof (cases "int (length data) < TS_PACKET_SIZE")
    case True
    then show ?thesis using 1 by (subst (asm) (2) mpegts_loop.simps) simp
  next
    case False
    define n where "n = nat (max_payload_size s - int (length (buf s)))"
    have n: "n \<noteq> 0" using 1(2) False by (subst (asm) mpegts_loop.simps) (simp add: n_def Let_def split: if_splits)
    define s1 where "s1 = s\<lparr>buf := buf s @ take n data\<rparr>"
    define s2 where "s2 = (if int (length (buf s1)) \<ge> max_payload_size s1 then (ff_rtp_send_data (buf s1) False s1)\<lparr>buf := []\<rparr> else s1)"
    have pos: "0 < max_payload_size s" using 1(3) by (simp add: fits_def)
    have l: "int (length (buf s @ take n data)) \<le> max_payload_size s + 4" using n by (simp add: n_def)
    have f1: "fits P s1" "mux_codec_id s1 \<noteq> CODEC_ILBC" unfolding s1_def using 1(3,4) l by (auto intro!: fits_buf)
    have "fits P (ff_rtp_send_data (buf s1) False s1)" using f1(1) l by (intro fits_send) (simp_all add: s1_def)
    then have f2: "fits P s2" "mux_codec_id s2 \<noteq> CODEC_ILBC"
      using f1 pos by (auto simp: s2_def s1_def intro!: fits_buf)
    have r: "mpegts_loop (drop n data) s2 = Some t"
      using 1(2) unfolding mpegts_loop.simps [of data s] Let_def n_def [symmetric] s1_def [symmetric] s2_def [symmetric]
      using False n by simp
    show ?thesis by (rule 1(1) [OF False n_def n s1_def s2_def r f2])
  qed
qed

lemma ilbc_flush_fit:
  assumes "fits P s" "mux_codec_id s = CODEC_ILBC"
  shows "fits P (ilbc_flush s) \<and> mux_codec_id (ilbc_flush s) = CODEC_ILBC \<and> num_frames (ilbc_flush s) = 0
    \<and> m_st (ilbc_flush s) = m_st s"
proof -
  have "fits P (ff_rtp_send_data (buf s) True s)" using assms(1) by (intro fits_send) (simp_all add: fits_def)
  then show ?thesis using assms(2) by (simp add: ilbc_flush_def fits_def ilbc_frames_ok_def mux_codec_id_def Let_def)
qed

lemma ilbc_fit:
  "fits P s \<Longrightarrow> mux_codec_id s = CODEC_ILBC \<Longrightarrow> frame_size = nat (par_block_align (codecpar (m_st s)))
   \<Longrightarrow> frames * frame_size \<le> length data \<Longrightarrow> fits P (ilbc_loop frames dur delay frame_size data s)"
proof (induction frames arbitrary: data s)
  case (Suc frames)
  define s1 where "s1 = (if num_frames s > 0
      \<and> av_compare_ts (uint (cur_timestamp s - m_timestamp s)) (st_time_base (m_st s)) delay (1, 1000000) \<ge> 0
    then ilbc_flush s else s)"
  define s2 where "s2 = (if num_frames s1 = 0 then s1\<lparr>buf := [], m_timestamp := cur_timestamp s1\<rparr> else s1)"
  define s3 where "s3 = s2\<lparr>num_frames := num_frames s2 + 1, buf := buf s2 @ take frame_size data,
    cur_timestamp := cur_timestamp s2 + word_of_int dur\<rparr>"
  define s4 where "s4 = (if num_frames s3 = max_frames_per_packet s3 then ilbc_flush s3 else s3)"
  have 1: "fits P s1" "mux_codec_id s1 = CODEC_ILBC" "m_st s1 = m_st s"
    using ilbc_flush_fit [OF Suc.prems(1,2)] Suc.prems(1,2) by (simp_all add: s1_def)
  have 2: "fits P s2" "mux_codec_id s2 = CODEC_ILBC" "m_st s2 = m_st s" "length (buf s2) = num_frames s2 * frame_size"
    using 1 Suc.prems(3) by (auto simp: s2_def fits_def mux_codec_id_def ilbc_frames_ok_def Let_def)
  define a where "a = num_frames s2 + 1"
  have l: "length (take frame_size data) = frame_size" using Suc.prems(4) by simp
  have i: "a \<le> max_frames_per_packet s2" "int (max_frames_per_packet s2 * frame_size) \<le> max_payload_size s2"
    using 2 Suc.prems(3) by (auto simp: fits_def ilbc_frames_ok_def a_def Let_def)
  have "a * frame_size \<le> max_frames_per_packet s2 * frame_size" using i(1) by simp
  then have "int (a * frame_size) \<le> int (max_frames_per_packet s2 * frame_size)" by (simp only: of_nat_le_iff)
  then have "int (a * frame_size) \<le> max_payload_size s2" using i(2) by linarith
  moreover have "length (buf s3) = a * frame_size" using 2(4) l by (simp add: s3_def a_def)
  ultimately have b: "length (buf s3) = a * frame_size" "int (a * frame_size) \<le> max_payload_size s2" by blast+
  have 3: "mux_codec_id s3 = CODEC_ILBC" "m_st s3 = m_st s" "max_payload_size s3 = max_payload_size s2" "num_frames s3 = a"
    "max_frames_per_packet s3 = max_frames_per_packet s2" "sent s3 = sent s2" "m_seq s3 = m_seq s2"
    using 2 by (simp_all add: s3_def mux_codec_id_def a_def)
  have nn: "0 \<le> par_nb_channels (codecpar (m_st s))" "0 \<le> par_bits_per_coded_sample (codecpar (m_st s))"
    using Suc.prems(1) by (simp_all add: fits_def)
  have 4: "fits P s4 \<and> mux_codec_id s4 = CODEC_ILBC \<and> m_st s4 = m_st s"
  proof (cases "a = max_frames_per_packet s2")
    case True
    have len: "int (length (buf s3)) \<le> max_payload_size s3 + 4" using b 3 by simp
    define q where "q = (ff_rtp_send_data (buf s3) True s3)\<lparr>num_frames := 0\<rparr>"
    have "fits P q"
      using 2(1) 3 len b i(2) True Suc.prems(3) 2(2) nn
      by (auto simp: q_def fits_def ff_rtp_send_data_def rtp_packet_fields ilbc_frames_ok_def mux_codec_id_def Let_def)
    moreover have "s4 = q" using True 3 by (simp add: s4_def q_def ilbc_flush_def)
    ultimately show ?thesis using 3 by (simp add: q_def)
  next
    case False
    then have "fits P s3"
      using 2(1,2) 3 b i Suc.prems(3) nn by (auto simp: fits_def ilbc_frames_ok_def Let_def)
    then show ?thesis using False 3 by (simp add: s4_def)
  qed
  have d: "frames * frame_size \<le> length (drop frame_size data)" using Suc.prems(4) by simp
  have "fits P (ilbc_loop frames dur delay frame_size (drop frame_size data) s4)"
    using 4 Suc.prems(3) d by (intro Suc.IH) simp_all
  moreover have "ilbc_loop (Suc frames) dur delay frame_size data s = ilbc_loop frames dur delay frame_size (drop frame_size data) s4"
    unfolding ilbc_loop.simps Let_def s1_def [symmetric] s2_def [symmetric] s3_def [symmetric] s4_def [symmetric] by (rule refl)
  ultimately show ?case by simp
qed simp

text \<open>The packetiser for H.264 and HEVC.\<close>

definition video :: "RTPMuxContext \<Rightarrow> bool" where
  "video s \<longleftrightarrow> mux_codec_id s \<noteq> CODEC_ILBC"

lemma flush_fit: "fits P s \<Longrightarrow> video s \<Longrightarrow> fits P (flush_buffered m s) \<and> video (flush_buffered m s)
    \<and> buf (flush_buffered m s) = [] \<and> max_payload_size (flush_buffered m s) = max_payload_size s"
proof -
  assume a: "fits P s" "video s"
  have b: "int (length (buf s)) \<le> max_payload_size s + 4" "0 < max_payload_size s" using a(1) by (simp_all add: fits_def)
  have "fits P (ff_rtp_send_data p m s)" if "length p \<le> length (buf s)" for p
    using b that by (intro fits_send [OF a(1)]) simp
  then show ?thesis
    using a b(2) by (auto simp: flush_buffered_def video_def Let_def intro!: fits_buf)
qed

lemma fragments_fit:
  "send_fragments hdr fu data m s = Some t \<Longrightarrow> fits P s \<Longrightarrow> video s \<Longrightarrow> fits P t \<and> video t"
proof (induction hdr fu data m s rule: send_fragments.induct)
  case (1 hdr fu data m s)
  define room where "room = max_payload_size s - int (length hdr) - 1"
  show ?case
  proof (cases "int (length data) > room")
    case True
    with 1(2) have r: "\<not> room \<le> 0" unfolding send_fragments.simps [of hdr fu data m s] room_def [symmetric] Let_def by (simp split: if_splits)
    define s1 where "s1 = ff_rtp_send_data (hdr @ [fu] @ take (nat room) data) False s"
    have f: "fits P s1" "video s1" unfolding s1_def using 1(3,4) r
      by (auto intro!: fits_send simp: room_def video_def)
    have n: "send_fragments hdr (fu AND 0x7f) (drop (nat room) data) m s1 = Some t"
      using 1(2) unfolding send_fragments.simps [of hdr fu data m s] room_def [symmetric] Let_def s1_def [symmetric] using True r by simp
    show ?thesis by (rule 1(1) [OF room_def True r, folded s1_def, OF n f])
  next
    case False
    then have "t = ff_rtp_send_data (hdr @ [fu OR 0x40] @ data) m s"
      using 1(2) unfolding send_fragments.simps [of hdr fu data m s] room_def [symmetric] Let_def by simp
    then show ?thesis using 1(3,4) False by (auto intro!: fits_send simp: room_def video_def)
  qed
qed

lemma nal_fit:
  assumes "nal_send nal m s = Some t" "fits P s" "video s"
  shows "fits P t \<and> video t"
proof (cases "int (length nal) \<le> max_payload_size s")
  case True
  define s1 where "s1 = (if int (length (buf s)) + 2 + int (length nal) > max_payload_size s then flush_buffered False s else s)"
  have 1: "fits P s1" "video s1" "max_payload_size s1 = max_payload_size s"
    using flush_fit [OF assms(2,3), of False] assms(2,3) by (simp_all add: s1_def)
  note f = flush_fit [OF 1(1,2), of False]
  have t: "t = send_small nal m s1" using assms(1) True by (simp add: nal_send_def s1_def Let_def)
  have agg: "fits P (aggregate_nal nal s1)" "video (aggregate_nal nal s1)"
    if "int (length (buf s1)) + 2 + (if mux_codec_id s1 = CODEC_H264 then 1 else 2) + int (length nal) \<le> max_payload_size s1"
    using 1(1,2) that
    by (auto simp: aggregate_nal_def video_def Let_def intro!: fits_buf split: if_splits)
  have alone: "fits P (ff_rtp_send_data nal m (flush_buffered False s1))" "video (ff_rtp_send_data nal m (flush_buffered False s1))"
    using f True 1(3) by (auto intro!: fits_send simp: video_def)
  show ?thesis using t agg alone by (simp add: send_small_def Let_def)
next
  case False
  note f = flush_fit [OF assms(2,3), of False]
  show ?thesis
    using assms(1) False f fragments_fit [of _ _ _ m "flush_buffered False s" t P]
    by (auto simp: nal_send_def fragment_nal_def Let_def split: if_splits)
qed

lemma nals_fit: "send_nals ns s = Some t \<Longrightarrow> fits P s \<Longrightarrow> video s \<Longrightarrow> fits P t \<and> video t"
proof (induction ns arbitrary: s)
  case (Cons n ns)
  obtain u where "nal_send n (ns = []) s = Some u" "send_nals ns u = Some t"
    using Cons.prems(1) by (auto simp: bind_eq_Some_conv)
  then show ?case using nal_fit [OF _ Cons.prems(2,3)] Cons.IH by blast
qed simp

lemma h264_fit:
  assumes "ff_rtp_send_h264_hevc al d s = Some t" "fits P s" "video s"
  shows "fits P t"
proof -
  obtain ns u where u: "send_nals ns (s\<lparr>m_timestamp := cur_timestamp s, buf := []\<rparr>) = Some u" "t = flush_buffered True u"
    using assms(1) by (auto simp: ff_rtp_send_h264_hevc_def bind_eq_Some_conv Let_def)
  have "fits P (s\<lparr>m_timestamp := cur_timestamp s, buf := []\<rparr>)" "video (s\<lparr>m_timestamp := cur_timestamp s, buf := []\<rparr>)"
    using assms(2,3) by (auto simp: video_def fits_def mux_codec_id_def)
  from nals_fit [OF u(1) this] show ?thesis using flush_fit u(2) by blast
qed

section \<open>The operations of the muxer\<close>

lemma samples_send_fit:
  assumes "rtp_send_samples data bits s = Some (r, t)" "fits P s" "video s" "0 \<le> bits"
  shows "fits P t"
proof -
  define a where "a = bits div gcd bits 8"
  have "0 \<le> a" using assms(4) by (simp add: a_def div_int_pos_iff)
  have le: "max_payload_size s div a * a \<le> max_payload_size s"
  proof (cases "a = 0")
    case True
    then show ?thesis using assms(2) by (simp add: fits_def)
  next
    case False
    with \<open>0 \<le> a\<close> have "0 \<le> max_payload_size s mod a" by simp
    then show ?thesis using div_mult_mod_eq [of "max_payload_size s" a] by linarith
  qed
  show ?thesis
    using assms(1-3) samples_fit [OF _ assms(2) _ le]
    by (auto simp: rtp_send_samples_def a_def [symmetric] video_def Let_def split: if_splits)
qed

lemma rtcp_fit: "fits P s \<Longrightarrow> fits P (rtcp_send_sr t bye s)"
  by (auto simp: fits_def rtcp_send_sr_def sender_report_def mux_codec_id_def ilbc_frames_ok_def Let_def)

text \<open>The packetisers of the other files keep the context well-formed, which is what their use asks for.\<close>

definition others_fit :: "int \<Rightarrow> (AVCodecID \<Rightarrow> bytes \<Rightarrow> RTPMuxContext \<Rightarrow> RTPMuxContext option) \<Rightarrow> bool" where
  "others_fit P other \<longleftrightarrow> (\<forall>c data s t. fits P s \<longrightarrow> other c data s = Some t \<longrightarrow> fits P t)"

lemma plain_Some: "plain_result r = Some (x, t) \<longleftrightarrow> x = Ok 0 \<and> r = Some t"
  by (cases r) (auto simp: plain_result_def)

lemma payload_fit:
  assumes "send_payload other al dur delay data s = Some (r, t)" "fits P s" "others_fit P other"
  shows "fits P t"
proof (cases "mux_codec_id s = CODEC_ILBC")
  case True
  then have "plain_result (rtp_send_ilbc dur delay data s) = Some (r, t)"
    using assms(1) by (simp add: send_payload_def mux_codec_id_def Let_def codec_ids CODEC_ILBC_def CODEC_PCM_U16LE_def
        CODEC_PCM_U16BE_def CODEC_PCM_S8_def CODEC_PCM_U8_def CODEC_PCM_S24BE_def CODEC_ADPCM_G726_def CODEC_ADPCM_G726LE_def)
  then have i: "rtp_send_ilbc dur delay data s = Some t" by (simp add: plain_Some)
  define a where "a = nat (par_block_align (codecpar (m_st s)))"
  have "length data div a * a \<le> length data" by (simp add: div_times_less_eq_dividend)
  then show ?thesis
    using i ilbc_fit [OF assms(2) True a_def] by (auto simp: rtp_send_ilbc_def a_def [symmetric] split: if_splits)
next
  case False
  then have v: "video s" "mux_codec_id s \<noteq> CODEC_ILBC" by (simp_all add: video_def)
  have nn: "0 \<le> par_nb_channels (codecpar (m_st s))" "0 \<le> par_bits_per_coded_sample (codecpar (m_st s))"
    using assms(2) by (simp_all add: fits_def)
  have samples: "rtp_send_samples data b s = Some (r, t) \<Longrightarrow> 0 \<le> b \<Longrightarrow> fits P t" for b
    using samples_send_fit assms(2) v(1) by blast
  have other: "other c data s = Some t \<Longrightarrow> fits P t" for c
    using assms(2,3) by (auto simp: others_fit_def)
  have ts: "rtp_send_mpegts_raw data s = Some t \<Longrightarrow> fits P t"
    using mpegts_fit [of data "s\<lparr>m_timestamp := cur_timestamp s\<rparr>" t P] assms(2) v(2) by (simp add: rtp_send_mpegts_raw_def)
  note each = mpegaudio_fit [OF _ assms(2) v(2)] h264_fit [OF _ assms(2) v(1)] raw_fit [OF _ assms(2)] ts other samples
  show ?thesis
    using assms(1,2) False nn
    by (auto simp: send_payload_def Let_def plain_Some mux_codec_id_def split: if_splits intro: each)
qed

lemma write_fit:
  assumes "rtp_write_packet other al dur delay t0 t1 data pts s = Some (r, t)" "fits P s" "others_fit P other"
  shows "fits P t"
proof -
  have "fits P (maybe_send_sr t0 t1 s)" using rtcp_fit [OF assms(2)] assms(2) by (simp add: maybe_send_sr_def Let_def)
  then show ?thesis using payload_fit [OF _ _ assms(3)] assms(1) by (auto simp: rtp_write_packet_def Let_def)
qed

text \<open>Opening: everything but the codec's own settings.\<close>

definition opened :: "int \<Rightarrow> RTPMuxContext \<Rightarrow> bool" where
  "opened P s \<longleftrightarrow> 0 \<le> m_seq s \<and> m_seq s < 65536 \<and> max_payload_size s = P - 12 \<and> buf s = [] \<and> sent s = []
     \<and> num_frames s = 0 \<and> 0 \<le> par_nb_channels (codecpar (m_st s)) \<and> 0 \<le> par_bits_per_coded_sample (codecpar (m_st s))"

lemma set_pts_keeps [simp]:
  "m_seq (mux_set_pts_info n s) = m_seq s" "max_payload_size (mux_set_pts_info n s) = max_payload_size s"
  "buf (mux_set_pts_info n s) = buf s" "sent (mux_set_pts_info n s) = sent s" "num_frames (mux_set_pts_info n s) = num_frames s"
  "codecpar (m_st (mux_set_pts_info n s)) = codecpar (m_st s)" "mux_codec_id (mux_set_pts_info n s) = mux_codec_id s"
  by (simp_all add: mux_set_pts_info_def mux_codec_id_def)

lemma ilbc_frames:
  assumes "a = 38 \<or> a = (50 :: int)" "188 \<le> m"
  shows "0 < nat (m div a)" "int (nat (m div a) * nat a) \<le> m"
proof -
  have "0 < a" "a \<le> m" using assms by auto
  then have d: "1 \<le> m div a" using zdiv_mono1 [of a m a] by simp
  then show "0 < nat (m div a)" by simp
  have "0 \<le> m mod a" using \<open>0 < a\<close> by simp
  then have "m div a * a \<le> m" using div_mult_mod_eq [of m a] by linarith
  then show "int (nat (m div a) * nat a) \<le> m" using d \<open>0 < a\<close> by simp
qed

lemma codec_fit:
  assumes "mux_codec E s = Ok t" "opened P s" "200 \<le> P"
  shows "fits P t"
proof (cases "par_codec_id (codecpar (m_st s)) = CODEC_ILBC")
  case True
  let ?a = "par_block_align (codecpar (m_st s))"
  have t: "t = s\<lparr>max_frames_per_packet := nat (max_payload_size s div ?a)\<rparr>" "?a = 38 \<or> ?a = 50"
    using assms(1) True by (auto simp: mux_codec_def Let_def codec_ids CODEC_ILBC_def CODEC_DIRAC_def CODEC_VORBIS_def
        CODEC_THEORA_def split: if_splits)
  have "188 \<le> max_payload_size s" using assms(2,3) by (simp add: opened_def)
  from ilbc_frames [OF t(2) this] show ?thesis
    using assms(2,3) by (simp add: t(1) fits_def opened_def ilbc_frames_ok_def)
next
  case False
  have ts: "max 1 (max_payload_size s div 188) * 188 \<le> P - 12"
    using assms(2,3) div_mult_mod_eq [of "max_payload_size s" 188] pos_mod_sign [of 188 "max_payload_size s"]
    by (auto simp: opened_def max_def)
  show ?thesis
    using assms False ts
    by (auto simp: mux_codec_def opened_def fits_def mux_codec_id_def TS_PACKET_SIZE_def Let_def
        mux_set_pts_info_def split: if_splits)
qed

lemma header_fit:
  assumes "rtp_write_header E s0 = Ok s" "P = mux_packet_size E" "200 \<le> P" "sent s0 = []" "num_frames s0 = 0"
    "0 \<le> par_nb_channels (codecpar (m_st s0))" "0 \<le> par_bits_per_coded_sample (codecpar (m_st s0))"
  shows "fits P s"
proof -
  define s1 where "s1 = mux_counters E (mux_payload_type E s0)"
  define s2 where "s2 = mux_set_pts_info (if par_codec_type (codecpar (m_st s1)) = AVMEDIA_TYPE_AUDIO
     then par_sample_rate (codecpar (m_st s1)) else 90000) (s1\<lparr>max_payload_size := mux_packet_size E - 12, buf := []\<rparr>)"
  have seed: "0 \<le> uint (x AND 0x0fff) \<and> uint (x AND 0x0fff) < 65536" for x :: u32
  proof -
    have "uint (x AND 0x0fff) \<le> uint (0x0fff :: u32)" by (metis uint_and word_and_le1 word_le_def)
    then show ?thesis by simp
  qed
  have o: "opened P s2"
    using assms(2-7) seed by (auto simp: opened_def s2_def s1_def mux_counters_def mux_payload_type_def Let_def)
  have "mux_codec E s2 = Ok s"
    using assms(1) by (auto simp: rtp_write_header_def s1_def s2_def Let_def split: if_splits)
  from codec_fit [OF this o assms(3)] show ?thesis .
qed

text \<open>A run of packets, each with the readings of the clock and the address of its data.\<close>

fun write_run :: "(AVCodecID \<Rightarrow> bytes \<Rightarrow> RTPMuxContext \<Rightarrow> RTPMuxContext option) \<Rightarrow> int \<Rightarrow> int
    \<Rightarrow> (nat \<times> int \<times> int \<times> bytes \<times> int) list \<Rightarrow> RTPMuxContext \<Rightarrow> RTPMuxContext option" where
  "write_run other dur delay [] s = Some s"
| "write_run other dur delay ((al, t0, t1, data, pts) # ps) s =
     (case rtp_write_packet other al dur delay t0 t1 data pts s of None \<Rightarrow> None
      | Some (r, s) \<Rightarrow> write_run other dur delay ps s)"

lemma run_fit: "write_run other dur delay ps s = Some t \<Longrightarrow> fits P s \<Longrightarrow> others_fit P other \<Longrightarrow> fits P t"
  by (induction other dur delay ps s rule: write_run.induct) (auto split: option.splits dest: write_fit)


definition example_env :: mux_env where
  "example_env = \<lparr>nb_streams = 1, opt_payload_type = None, rfc2190 = False, seed = (\<lambda>_. 4660), now = 1700000000000000,
     start_time_realtime = 0, bitexact = False, mtu_option = 0, pb_max_packet_size = 1200,
     above_experimental = False, malloc_ok = True\<rparr>"

definition closed_mux :: RTPMuxContext where
  "closed_mux = \<lparr>sent = [], m_st = \<lparr>st_index = 0, st_id = 0, st_time_base = (1, 90000), codecpar =
       \<lparr>par_codec_type = AVMEDIA_TYPE_AUDIO, par_codec_id = CODEC_MP2, par_sample_rate = 48000, par_nb_channels = 2,
        par_block_align = 0, par_bits_per_coded_sample = 0, par_extradata = [], par_width = 0, par_height = 0\<rparr>\<rparr>,
     m_payload_type = - 1, m_ssrc = 0, cname = None, m_seq = - 1, m_timestamp = 0, m_base_timestamp = 0,
     cur_timestamp = 0, max_payload_size = 0, num_frames = 0, m_last_rtcp_ntp_time = 0,
     m_first_rtcp_ntp_time = 0, packet_count = 0, m_octet_count = 0, m_last_octet_count = 0,
     first_packet = False, buf = [], max_frames_per_packet = 0, nal_length_size = 0, buffered_nals = 0,
     m_flags = {RTP_SKIP_RTCP}\<rparr>"

lemma example_open:
  "rtp_write_header example_env closed_mux = Ok (mux_set_pts_info 90000
     ((mux_set_pts_info 48000 ((mux_counters example_env (mux_payload_type example_env closed_mux))
        \<lparr>max_payload_size := 1188, buf := []\<rparr>))\<lparr>buf := replicate 4 0\<rparr>))"
  by (simp add: rtp_write_header_def mux_codec_def is_supported_def mux_packet_size_def example_env_def closed_mux_def
      mux_counters_def mux_payload_type_def mux_set_pts_info_def Let_def)

lemma example_write:
  "\<exists>s t. rtp_write_header example_env closed_mux = Ok s
     \<and> write_run (\<lambda>c d s. Some s) 0 0 [(0, 0, 0, [1, 2, 3], 0), (0, 0, 0, [4, 5], 1152)] s = Some t"
  unfolding example_open
  by (simp add: rtp_write_packet_def maybe_send_sr_def send_payload_def rtp_send_mpegaudio_def plain_result_def codec_ids
      CODEC_PCM_U16LE_def CODEC_PCM_U16BE_def CODEC_PCM_S8_def CODEC_PCM_U8_def CODEC_PCM_S24BE_def CODEC_ADPCM_G726_def
      CODEC_ADPCM_G726LE_def mux_set_pts_info_def mux_counters_def mux_payload_type_def closed_mux_def Let_def)


end
