(* ===== verification/RtpReports.thy ===== *)
theory RtpReports
  imports RtpEnc RtpOrder
begin

text \<open>
  RTCP and time: a sender report of \<^verbatim>\<open>rtpenc.c\<close> as \<^verbatim>\<open>rtpdec.c\<close> reads it, the numbers in the
  receiver reports, and the presentation times made from the timestamps of the packets.
\<close>

section \<open>Sender reports\<close>

definition rtcp_chunk :: "u8 \<Rightarrow> bytes \<Rightarrow> bool" where
  "rtcp_chunk ty c \<longleftrightarrow> 4 \<le> length c \<and> c ! 1 = ty \<and> length c = (unat (AV_RB16 c 2) + 1) * 4"

lemma AV_RB16_take: "k + 2 \<le> length c \<Longrightarrow> AV_RB16 (c @ d) k = AV_RB16 c k"
  by (simp add: AV_RB16_def nth_append)

lemma AV_RB32_take: "k + 4 \<le> length c \<Longrightarrow> AV_RB32 (c @ d) k = AV_RB32 c k"
  by (simp add: AV_RB32_def nth_append)

lemma AV_RB64_take: "k + 8 \<le> length c \<Longrightarrow> AV_RB64 (c @ d) k = AV_RB64 c k"
  by (simp add: AV_RB64_def AV_RB32_take)

text \<open>Chunk by chunk: a report is read, the end of the session ends, everything else is skipped.\<close>

lemma rtcp_skip:
  assumes "rtcp_chunk ty c" "ty \<noteq> RTCP_SR" "ty \<noteq> RTCP_BYE"
  shows "rtcp_parse_packet L (c @ d) s = rtcp_parse_packet L d s"
  using assms by (subst rtcp_parse_packet.simps) (auto simp: rtcp_chunk_def nth_append AV_RB16_take Let_def)

lemma rtcp_end: "length d < 4 \<Longrightarrow> rtcp_parse_packet L d s = (Err Minus_one, s)"
  by (subst rtcp_parse_packet.simps) simp

lemma rtcp_bye: "rtcp_chunk RTCP_BYE c \<Longrightarrow> rtcp_parse_packet L (c @ d) s = (Err (Lib_error (- 203)), s)"
  by (subst rtcp_parse_packet.simps) (auto simp: rtcp_chunk_def nth_append RTCP_SR_def RTCP_BYE_def Let_def)

lemma rtcp_report:
  assumes "rtcp_chunk RTCP_SR c" "20 \<le> length c"
  shows "rtcp_parse_packet L (c @ d) s = rtcp_parse_packet L d (rtcp_sender_report L c s)"
proof -
  have "rtcp_sender_report L (c @ d) s = rtcp_sender_report L c s"
    using assms(2) by (simp add: rtcp_sender_report_def AV_RB64_take AV_RB32_take)
  then show ?thesis
    using assms by (subst rtcp_parse_packet.simps) (auto simp: rtcp_chunk_def nth_append AV_RB16_take Let_def)
qed

lemma AV_RB16_cons2 [simp]: "AV_RB16 (a # b # AV_WB16 x @ ys) 2 = x"
  using AV_RB16_at [of "[a, b]" 2 x ys] by simp

lemma report_chunk: "rtcp_chunk RTCP_SR (sender_report t ts s)" "length (sender_report t ts s) = 28"
  by (simp_all add: rtcp_chunk_def sender_report_def)

text \<open>A CNAME chunk is padded to words, and its header says how long it is.\<close>

lemma pad_words:
  "(7 + n :: nat) + (if (7 + n) mod 4 = 0 then 0 else 4 - (7 + n) mod 4) = 4 * ((7 + n + 3) div 4)"
  by presburger

lemma cname_chunk:
  assumes "length name < 256"
  shows "rtcp_chunk RTCP_SDES ([b, RTCP_SDES] @ AV_WB16 (of_nat ((7 + length name + 3) div 4)) @ AV_WB32 ss
    @ [1, of_nat (length name)] @ name @ [0]
    @ replicate (if (7 + length name) mod 4 = 0 then 0 else 4 - (7 + length name) mod 4) 0)"
proof -
  define n where "n = length name"
  define p where "p = (if (7 + n) mod 4 = 0 then 0 else 4 - (7 + n) mod 4)"
  have p: "7 + n + p = 4 * ((7 + n + 3) div 4)" unfolding p_def by (rule pad_words)
  have "unat (of_nat ((7 + n + 3) div 4) :: u16) = (7 + n + 3) div 4"
    using assms by (simp add: n_def unsigned_of_nat take_bit_nat_eq_self)
  then show ?thesis
    unfolding n_def [symmetric] p_def [symmetric] using p by (simp add: rtcp_chunk_def n_def [symmetric])
qed

lemma mux_sdes_chunk: "rtcp_chunk RTCP_SDES (mux_sdes ss name)"
  unfolding mux_sdes_def Let_def by (rule cname_chunk) simp

lemma bye_chunk: "rtcp_chunk RTCP_BYE ([version_byte OR 1, RTCP_BYE] @ AV_WB16 1 @ AV_WB32 ss)"
  by (simp add: rtcp_chunk_def)

lemma report_fields:
  "AV_RB64 (sender_report t ts s) 8 = rb64 (word_of_int (c_div t 1000000)) (word_of_int (c_div (c_mod t 1000000 * 2 ^ 32) 1000000))"
  "AV_RB32 (sender_report t ts s) 16 = ts"
  by (simp_all add: sender_report_def AV_RB64_def AV_RB32_def AV_WB16_def AV_WB32_def)

text \<open>The NTP time on the wire.\<close>

definition wire_time :: "int \<Rightarrow> u64" where
  "wire_time t = rb64 (word_of_int (t div 1000000)) (word_of_int (t mod 1000000 * 2 ^ 32 div 1000000))"

lemma rb64_parts: "drop_bit 32 (rb64 hi lo) = ucast hi" "rb64 hi lo AND 0xFFFFFFFF = ucast lo"
proof -
  have m: "(0xFFFFFFFF :: u64) = mask 32" by (simp add: mask_eq_exp_minus_1)
  show "drop_bit 32 (rb64 hi lo) = ucast hi" by (rule bit_word_eqI) (auto simp: rb64_def bit_simps dest: bit_imp_le_length)
  show "rb64 hi lo AND 0xFFFFFFFF = ucast lo" unfolding m by (rule bit_word_eqI) (auto simp: rb64_def bit_simps dest: bit_imp_le_length)
qed

lemma div_bounds: "0 < b \<Longrightarrow> a div b * b \<le> a" "0 < b \<Longrightarrow> a < a div b * b + b" for a b :: int
  using div_mult_mod_eq [of a b] pos_mod_bound [of b a] pos_mod_sign [of b a] by linarith+

lemma microseconds:
  fixes u :: int
  assumes "0 \<le> u" "u < 1000000"
  shows "u * 4294967296 div 1000000 * 1000000 div 4294967295 \<in> {u - 1, u}"
    and "0 \<le> u * 4294967296 div 1000000" "u * 4294967296 div 1000000 < 4294967296"
proof -
  define f where "f = u * 4294967296 div 1000000"
  have f: "f * 1000000 \<le> u * 4294967296" "u * 4294967296 < f * 1000000 + 1000000"
    unfolding f_def by (rule div_bounds, simp)+
  define g where "g = f * 1000000 div 4294967295"
  have g: "g * 4294967295 \<le> f * 1000000" "f * 1000000 < g * 4294967295 + 4294967295"
    unfolding g_def by (rule div_bounds, simp)+
  have "g = u - 1 \<or> g = u" using f g assms by linarith
  then show "u * 4294967296 div 1000000 * 1000000 div 4294967295 \<in> {u - 1, u}" by (simp add: g_def f_def)
  show "0 \<le> u * 4294967296 div 1000000" "u * 4294967296 div 1000000 < 4294967296"
    using assms f unfolding f_def [symmetric] by linarith+
qed

lemma wire_time_read:
  assumes "0 \<le> t" "t < 4294967296000000"
  shows "uint (ff_parse_ntp_time (wire_time t)) \<in> {t - 1, t}"
proof -
  define u where "u = t mod 1000000"
  define f where "f = u * 4294967296 div 1000000"
  have u: "0 \<le> u" "u < 1000000" by (simp_all add: u_def)
  note m = microseconds [OF u, folded f_def]
  have sec: "0 \<le> t div 1000000" "t div 1000000 < 4294967296" using assms by auto
  have "uint (ucast (word_of_int f :: u32) :: u64) = f" "uint (ucast (word_of_int (t div 1000000) :: u32) :: u64) = t div 1000000"
    using m sec by (simp_all add: uint_up_ucast is_up uint_word_of_int)
  moreover have "wire_time t = rb64 (word_of_int (t div 1000000)) (word_of_int f)"
    by (simp add: wire_time_def f_def u_def)
  ultimately have "uint (ff_parse_ntp_time (wire_time t)) = (t div 1000000 * 1000000 + f * 1000000 div 4294967295)"
    using m sec
    by (simp add: ff_parse_ntp_time_def rb64_parts uint_word_ariths uint_div Let_def)
  moreover have "t = t div 1000000 * 1000000 + u" by (simp add: u_def)
  ultimately show ?thesis using m(1) by force
qed

text \<open>
  C30. A sender report arrives. The datagram that \<open>rtcp_send_sr\<close> writes, report, CNAME and end of session,
  is read to its end by the receiver: it has the report's timestamp and NTP time, which is the
  sender's time to the microsecond, the first report it gets is kept as the origin, and the end of
  the session is the result if there is one.
\<close>

theorem sender_report_received:
  fixes r r' :: "'p RTPDemuxContext"
  assumes "0 \<le> ntp_time" "ntp_time < 4294967296000000"
    and "sent (rtcp_send_sr ntp_time bye s) = sent s @ [d]" "rtcp_parse_packet L d r = (rv, r')"
  shows "rv = Err (if bye then Lib_error (- 203) else Minus_one)
    \<and> uint (ff_parse_ntp_time (last_rtcp_ntp_time r')) \<in> {ntp_time - 1, ntp_time}
    \<and> last_rtcp_timestamp r' = m_base_timestamp s
        + word_of_int (av_rescale_q (ntp_time - m_first_rtcp_ntp_time s) (1, 1000000) (st_time_base (m_st s)))
    \<and> last_rtcp_reception_time r' = L (lib_calls r)
    \<and> first_rtcp_ntp_time r' = (if first_rtcp_ntp_time r = NOPTS_U64 then last_rtcp_ntp_time r' else first_rtcp_ntp_time r)"
proof -
  define ts where "ts = word_of_int (av_rescale_q (ntp_time - m_first_rtcp_ntp_time s) (1, 1000000)
    (st_time_base (m_st s))) + m_base_timestamp s"
  define c where "c = sender_report ntp_time ts (s\<lparr>m_last_rtcp_ntp_time := ntp_time\<rparr>)"
  define n where "n = (case cname s of None \<Rightarrow> [] | Some name \<Rightarrow> mux_sdes (m_ssrc s) name)"
  define b where "b = (if bye then [version_byte OR 1, RTCP_BYE] @ AV_WB16 1 @ AV_WB32 (m_ssrc s) else [])"
  have d: "d = c @ n @ b" using assms(3)
    by (cases bye; cases "cname s") (simp_all add: rtcp_send_sr_def c_def n_def b_def ts_def Let_def)
  have bye: "rtcp_parse_packet L b x = (Err (if bye then Lib_error (- 203) else Minus_one), x)" for x :: "'p RTPDemuxContext"
    using rtcp_bye [OF bye_chunk, of L "m_ssrc s" "[]" x] rtcp_end [of "[]" L x] by (simp add: b_def)
  have name: "rtcp_parse_packet L (n @ b) x = rtcp_parse_packet L b x" for x :: "'p RTPDemuxContext"
  proof (cases "cname s")
    case (Some name)
    have "rtcp_parse_packet L (mux_sdes (m_ssrc s) name @ b) x = rtcp_parse_packet L b x"
      by (rule rtcp_skip [OF mux_sdes_chunk]) (simp_all add: RTCP_SDES_def RTCP_SR_def RTCP_BYE_def)
    then show ?thesis by (simp add: n_def Some)
  qed (simp add: n_def)
  have "rtcp_parse_packet L d r = (Err (if bye then Lib_error (- 203) else Minus_one), rtcp_sender_report L c r)"
  proof -
    have "rtcp_parse_packet L (c @ n @ b) r = rtcp_parse_packet L (n @ b) (rtcp_sender_report L c r)"
      unfolding c_def by (rule rtcp_report [OF report_chunk(1)]) (simp add: report_chunk(2))
    then show ?thesis by (simp only: d name bye)
  qed
  then have r: "rv = Err (if bye then Lib_error (- 203) else Minus_one)" "r' = rtcp_sender_report L c r" using assms(4) by simp_all
  have f: "AV_RB64 c 8 = wire_time ntp_time" "AV_RB32 c 16 = ts"
    using assms(1) by (simp_all add: c_def report_fields wire_time_def)
  have "last_rtcp_ntp_time r' = wire_time ntp_time" "last_rtcp_timestamp r' = ts" "last_rtcp_reception_time r' = L (lib_calls r)"
    "first_rtcp_ntp_time r' = (if first_rtcp_ntp_time r = NOPTS_U64 then wire_time ntp_time else first_rtcp_ntp_time r)"
    using f by (simp_all add: r(2) rtcp_sender_report_def lib_call_def Let_def)
  then show ?thesis using r(1) wire_time_read [OF assms(1,2)] by (simp add: ts_def)
qed

definition example_rtp_mux :: RTPMuxContext where
  "example_rtp_mux = \<lparr>sent = [], m_st = \<lparr>st_index = 0, st_id = 96, st_time_base = (1, 90000), codecpar = example_par\<rparr>,
     m_payload_type = 96, m_ssrc = 7, cname = None, m_seq = 101, m_timestamp = 0, m_base_timestamp = 0,
     cur_timestamp = 9000, max_payload_size = 12, num_frames = 0, m_last_rtcp_ntp_time = 0,
     m_first_rtcp_ntp_time = 0, packet_count = 0, m_octet_count = 0, m_last_octet_count = 0,
     first_packet = False, buf = [], max_frames_per_packet = 0, nal_length_size = 0, buffered_nals = 0,
     m_flags = {}\<rparr>"

theorem sender_report_received_witness:
  "\<exists>d. sent (rtcp_send_sr 3913056001234567 True example_rtp_mux) = [d]
    \<and> fst (rtcp_parse_packet (\<lambda>_. 5) d (idle_receiver ())) = Err (Lib_error (- 203))
    \<and> uint (ff_parse_ntp_time (last_rtcp_ntp_time (snd (rtcp_parse_packet (\<lambda>_. 5) d (idle_receiver ())))))
        \<in> {3913056001234566, 3913056001234567}"
proof -
  obtain d where d: "sent (rtcp_send_sr 3913056001234567 True example_rtp_mux) = [d]"
    by (simp add: rtcp_send_sr_def example_rtp_mux_def)
  then have e: "sent (rtcp_send_sr 3913056001234567 True example_rtp_mux) = sent example_rtp_mux @ [d]"
    by (simp add: example_rtp_mux_def)
  obtain rv r' where r: "rtcp_parse_packet (\<lambda>_. 5) d (idle_receiver ()) = (rv, r')" by fastforce
  show ?thesis using sender_report_received [OF _ _ e r] d r by simp
qed

section \<open>Counting the losses\<close>

text \<open>Packets that arrive in order, each with the distance of its number from that of the one before.\<close>

fun arrivals :: "nat list \<Rightarrow> RTPStatistics \<Rightarrow> RTPStatistics" where
  "arrivals [] s = s"
| "arrivals (d # ds) s = arrivals ds (snd (rtp_valid_packet_in_sequence (max_seq s + of_nat d) s))"

definition extended_max :: "RTPStatistics \<Rightarrow> u32" where
  "extended_max s = cycles s + ucast (max_seq s)"

lemma wrap_count:
  assumes "0 < d" "d < 3000"
  shows "(if m + of_nat d < m then 65536 else 0) + ucast (m + of_nat d :: u16) = (ucast m + of_nat d :: u32)"
proof -
  have u: "unat (m + of_nat d) = (unat m + d) mod 65536"
    using assms by (simp add: unat_word_ariths unsigned_of_nat take_bit_nat_eq_self)
  have c: "ucast (x :: u16) = (of_nat (unat x) :: u32)" for x by simp
  have m: "unat m < 65536" using unsigned_less [of m, where 'a = nat] by simp
  show ?thesis
  proof (cases "unat m + d < 65536")
    case True
    then have "\<not> m + of_nat d < m" using u by (simp add: word_less_nat_alt)
    moreover have "unat (m + of_nat d) = unat m + d" using True u by simp
    ultimately show ?thesis by (simp only: if_False c of_nat_add add_0)
  next
    case False
    then have e: "unat (m + of_nat d) + 65536 = unat m + d" using u m assms by (simp add: mod_if) linarith
    then have "m + of_nat d < m" using assms m by (simp add: word_less_nat_alt)
    moreover have "65536 + (of_nat (unat (m + of_nat d)) :: u32) = of_nat (unat m + d)"
      unfolding e [symmetric] by (simp only: of_nat_add of_nat_numeral add.commute)
    ultimately show ?thesis by (simp only: if_True c of_nat_add)
  qed
qed

lemma arrival_step:
  assumes "probation s = 0" "0 < d" "d < 3000" "s' = snd (rtp_valid_packet_in_sequence (max_seq s + of_nat d) s)"
  shows "extended_max s' = extended_max s + of_nat d" "received s' = received s + 1" "probation s' = 0"
    "base_seq s' = base_seq s" "expected_prior s' = expected_prior s" "received_prior s' = received_prior s"
proof -
  have d: "(of_nat d :: u16) < 3000"
    using assms by (simp add: word_less_nat_alt unsigned_of_nat take_bit_nat_eq_self)
  have e: "s' = s\<lparr>cycles := (if max_seq s + of_nat d < max_seq s then cycles s + 65536 else cycles s),
      max_seq := max_seq s + of_nat d, received := received s + 1\<rparr>"
    using assms(1,4) d by (simp add: rtp_valid_packet_in_sequence_def)
  show "extended_max s' = extended_max s + of_nat d"
    using wrap_count [OF assms(2,3), of "max_seq s"] by (simp add: e extended_max_def split: if_splits)
  show "received s' = received s + 1" "probation s' = 0"
    "base_seq s' = base_seq s" "expected_prior s' = expected_prior s" "received_prior s' = received_prior s"
    using assms(1) by (simp_all add: e)
qed

lemma arrivals_count:
  assumes "probation s = 0" "\<forall>d \<in> set ds. 0 < d \<and> d < 3000"
  shows "extended_max (arrivals ds s) = extended_max s + of_nat (sum_list ds) \<and> received (arrivals ds s) = received s + of_nat (length ds)
    \<and> probation (arrivals ds s) = 0 \<and> base_seq (arrivals ds s) = base_seq s
    \<and> expected_prior (arrivals ds s) = expected_prior s \<and> received_prior (arrivals ds s) = received_prior s"
  using assms
proof (induction ds arbitrary: s)
  case (Cons d ds)
  define s' where "s' = snd (rtp_valid_packet_in_sequence (max_seq s + of_nat d) s)"
  note st = arrival_step [OF Cons.prems(1) _ _ s'_def]
  show ?case using Cons.IH [of s'] Cons.prems st by (simp add: s'_def [symmetric] add.assoc)
qed simp

text \<open>The block of a report for statistics that say: \<open>n\<close> expected, \<open>k\<close> received, and at the last report \<open>n0\<close>
  and \<open>k0\<close>.\<close>

lemma rr_block_counts:
  assumes n: "extended_max s - base_seq s = of_nat n" "received s = of_nat k" "expected_prior s = of_nat n0"
      "received_prior s = of_nat k0"
    and le: "k \<le> n" "n < 16777216" "n0 < n" "k0 < k" "k - k0 \<le> n - n0"
  shows "rr_block s = ((push_bit 24 (of_nat (256 * (n - n0 - (k - k0)) div (n - n0))) OR of_nat (n - k), extended_max s),
     s\<lparr>expected_prior := of_nat n, received_prior := of_nat k\<rparr>)"
    and "256 * (n - n0 - (k - k0)) div (n - n0) < 256"
proof -
  define e where "e = n - n0"
  define l where "l = e - (k - k0)"
  have el: "0 < e" "l < e" "e < 16777216" using le by (auto simp: e_def l_def)
  have u: "unat (of_nat x :: u32) = x" if "x < 4294967296" for x
    using that by (simp add: unsigned_of_nat take_bit_nat_eq_self)
  have ei: "of_nat n - of_nat n0 = (of_nat e :: u32)" using le by (simp add: e_def of_nat_diff)
  have ri: "of_nat k - of_nat k0 = (of_nat (k - k0) :: u32)" using le by (simp add: of_nat_diff)
  have li: "of_nat e - of_nat (k - k0) = (of_nat l :: u32)" using le by (simp add: l_def e_def of_nat_diff)
  have lost: "min (of_nat n - of_nat k) 0xffffff = (of_nat (n - k) :: u32)"
  proof -
    have "of_nat n - of_nat k = (of_nat (n - k) :: u32)" using le by (simp add: of_nat_diff)
    moreover have "(of_nat (n - k) :: u32) \<le> 0xffffff" using le u [of "n - k"] by (simp add: word_le_nat_alt del: of_nat_diff)
    ultimately show ?thesis by (simp add: min_def del: of_nat_diff)
  qed
  have sl: "sint (of_nat l :: u32) = int l"
  proof -
    have w: "(of_nat l :: u32) = word_of_int (int l)" by simp
    show ?thesis unfolding w int_word_sint using el by simp
  qed
  show "256 * (n - n0 - (k - k0)) div (n - n0) < 256"
    using el unfolding e_def [symmetric] l_def [symmetric]
    by (simp add: less_mult_imp_div_less)
  have fr: "push_bit 8 (word_of_int (int l)) div of_nat e = (of_nat (256 * l div e) :: u32)"
  proof -
    have "push_bit 8 (word_of_int (int l) :: u32) = of_nat (256 * l)" by (simp add: push_bit_eq_mult)
    moreover have "(of_nat (256 * l) :: u32) div of_nat e = of_nat (256 * l div e)"
      using el u [of "256 * l"] u [of e] u [of "256 * l div e"] div_le_dividend [of "256 * l" e]
      by (simp add: word_unat_eq_iff unat_div)
    ultimately show ?thesis by simp
  qed
  have "(of_nat e :: u32) \<noteq> 0" 
  proof
    assume "(of_nat e :: u32) = 0"
    then have "unat (of_nat e :: u32) = 0" by (simp only: unat_0)
    then show False using u [of e] el by simp
  qed
  show "rr_block s = ((push_bit 24 (of_nat (256 * (n - n0 - (k - k0)) div (n - n0))) OR of_nat (n - k), extended_max s),
     s\<lparr>expected_prior := of_nat n, received_prior := of_nat k\<rparr>)"
    unfolding rr_block_def extended_max_def [symmetric] Let_def n ei ri li lost sl e_def [symmetric] l_def [symmetric]
    using fr \<open>(of_nat e :: u32) \<noteq> 0\<close> el by auto
qed

text \<open>The first packet in sequence ends the probation; then packets arrive, a report is made, and more
  packets arrive.\<close>

lemma probation_ends:
  assumes "probation s = 1" "uint sq = uint (max_seq s) + 1" "s' = snd (rtp_valid_packet_in_sequence sq s)"
  shows "extended_max s' = ucast sq" "extended_max s' - base_seq s' = 1" "received s' = 1" "probation s' = 0"
    "expected_prior s' = 0" "received_prior s' = 0"
  using assms by (simp_all add: rtp_valid_packet_in_sequence_def rtp_init_sequence_def extended_max_def Let_def)

lemma sum_ge_length: "\<forall>d \<in> set ds. 0 < d \<Longrightarrow> length ds \<le> sum_list ds" for ds :: "nat list"
  by (induction ds) fastforce+

text \<open>
  C20. The receiver reports count the losses. After the probation, when packets come in order with
  gaps of fewer than 3000 numbers, a report has the extended sequence number of the last packet,
  over all the times the 16 bits wrapped, the number of packets missing since the beginning, and
  the fraction in 256ths that is missing since the report before.
\<close>

theorem reports_count_losses:
  assumes "probation s0 = 1" "uint sq = uint (max_seq s0) + 1"
    "s1 = snd (rtp_valid_packet_in_sequence sq s0)"
    "\<forall>d \<in> set (ds @ es). 0 < d \<and> d < 3000" "es \<noteq> []" "sum_list (ds @ es) < 16777215"
    "((blk, ext), s2) = rr_block (arrivals ds s1)" "((blk', ext'), s3) = rr_block (arrivals es s2)"
  shows "ext' = ucast sq + of_nat (sum_list (ds @ es))
    \<and> blk' = push_bit 24 (of_nat (256 * (sum_list es - length es) div sum_list es))
        OR of_nat (sum_list (ds @ es) - length (ds @ es))
    \<and> 256 * (sum_list es - length es) div sum_list es < 256"
proof -
  note p = probation_ends [OF assms(1-3)]
  have pos: "\<forall>d \<in> set ds. 0 < d \<and> d < 3000" "\<forall>d \<in> set es. 0 < d \<and> d < 3000" using assms(4) by auto
  have le: "length ds \<le> sum_list ds" "length es \<le> sum_list es" using pos by (auto intro!: sum_ge_length)
  have es: "0 < length es" using assms(5) by simp
  define n0 where "n0 = Suc (sum_list ds)"
  define k0 where "k0 = Suc (length ds)"
  define a where "a = arrivals ds s1"
  note c1 = arrivals_count [OF p(4) pos(1), folded a_def]
  have s2: "s2 = a\<lparr>expected_prior := extended_max a - base_seq a, received_prior := received a\<rparr>"
    using assms(7) by (simp add: rr_block_def a_def [symmetric] extended_max_def Let_def)
  have q: "probation s2 = 0" using c1 s2 by simp
  define b where "b = arrivals es s2"
  note c2 = arrivals_count [OF q pos(2), folded b_def]
  have e: "extended_max s2 = extended_max a" "base_seq s2 = base_seq a" "received s2 = received a" by (simp_all add: s2 extended_max_def)
  have na: "extended_max a - base_seq a = of_nat n0" "received a = of_nat k0"
    using c1 p by (simp_all add: n0_def k0_def algebra_simps)
  have nb: "extended_max b - base_seq b = of_nat (n0 + sum_list es)" "received b = of_nat (k0 + length es)"
    "expected_prior b = of_nat n0" "received_prior b = of_nat k0"
    using c2 e na by (simp_all add: algebra_simps s2)
  note r = rr_block_counts [OF nb]
  have "rr_block b = ((push_bit 24 (of_nat (256 * (sum_list es - length es) div sum_list es)) OR of_nat (sum_list (ds @ es) - length (ds @ es)),
      extended_max b), b\<lparr>expected_prior := of_nat (n0 + sum_list es), received_prior := of_nat (k0 + length es)\<rparr>)"
    and f: "256 * (sum_list es - length es) div sum_list es < 256"
    using r le es assms(6) by (simp_all add: n0_def k0_def)
  then show ?thesis
    using assms(8) c1 c2 e p by (simp add: b_def [symmetric])
qed


theorem reports_count_losses_witness:
  "fst (rr_block (arrivals [2, 1, 1] (snd (rr_block (arrivals [1, 3, 10]
       (snd (rtp_valid_packet_in_sequence 65531 (rtp_init_statistics 65530))))))))
   = (push_bit 24 (of_nat (256 * (4 - 3) div 4)) OR of_nat (18 - 6), 65549)"
proof -
  define s1 where "s1 = snd (rtp_valid_packet_in_sequence 65531 (rtp_init_statistics 65530))"
  obtain blk ext s2 where r2: "((blk, ext), s2) = rr_block (arrivals [1, 3, 10] s1)" by (metis surj_pair)
  obtain blk' ext' s3 where r3: "((blk', ext'), s3) = rr_block (arrivals [2, 1, 1] s2)" by (metis surj_pair)
  have i: "probation (rtp_init_statistics 65530) = 1" "uint (65531 :: u16) = uint (max_seq (rtp_init_statistics 65530)) + 1"
    by (simp_all add: rtp_init_statistics_def)
  note t = reports_count_losses [OF i s1_def, where ds = "[1, 3, 10]" and es = "[2, 1, 1]", OF _ _ _ r2 r3]
  have "rr_block (arrivals [1, 3, 10] s1) = ((blk, ext), s2)" "rr_block (arrivals [2, 1, 1] s2) = ((blk', ext'), s3)"
    using r2 r3 by (simp_all only:)
  then show ?thesis using t by (simp only: s1_def [symmetric] snd_conv fst_conv) simp
qed

section \<open>Presentation times\<close>

text \<open>The times of packets whose timestamps follow each other by signed differences, when the time is
  not taken from a sender report.\<close>

fun pts_run :: "lib \<Rightarrow> u32 list \<Rightarrow> 'p RTPDemuxContext \<Rightarrow> int list \<times> 'p RTPDemuxContext" where
  "pts_run L [] s = ([], s)"
| "pts_run L (ts # tss) s =
     (let (pkt, s) = finalize_packet L (new_packet []) ts s; (r, s) = pts_run L tss s in (pkt_pts pkt # r, s))"

fun stamps :: "u32 \<Rightarrow> int list \<Rightarrow> u32 list" where
  "stamps t [] = []"
| "stamps t (d # ds) = (t + word_of_int d) # stamps (t + word_of_int d) ds"

fun totals :: "int \<Rightarrow> int list \<Rightarrow> int list" where
  "totals x [] = []"
| "totals x (d # ds) = (x + d) # totals (x + d) ds"

text \<open>Reports do not give the time: there is none yet, or the stream is the only one.\<close>

definition local_clock :: "'p RTPDemuxContext \<Rightarrow> bool" where
  "local_clock s \<longleftrightarrow> last_rtcp_ntp_time s = NOPTS_U64 \<or> ic_nb_streams s \<le> 1"

lemma finalize_local:
  assumes "local_clock s" "ts \<noteq> RTP_NOTS_VALUE" "finalize_packet L (new_packet []) ts s = (pkt, s')"
  shows "unwrapped_timestamp s' = unwrapped_timestamp (unwrap_timestamp ts s)" "timestamp s' = ts"
    "base_timestamp s' = base_timestamp (unwrap_timestamp ts s)" "range_start_offset s' = range_start_offset s"
    "local_clock s'" "pkt_pts pkt = unwrapped_timestamp s' + range_start_offset s - uint (base_timestamp s')"
  using assms
  by (auto simp: finalize_packet_def new_packet_def local_clock_def rtp_set_prft_def lib_call_def unwrap_timestamp_def Let_def
      split: if_splits)

lemma pts_run_follows:
  assumes "local_clock s" "timestamp s = t" "t \<noteq> 0" "base_timestamp s \<noteq> 0"
    "\<forall>d \<in> set ds. - (2 ^ 31) \<le> d \<and> d < 2 ^ 31" "\<forall>x \<in> set (stamps t ds). x \<noteq> 0 \<and> x \<noteq> RTP_NOTS_VALUE"
  shows "fst (pts_run L (stamps t ds) s)
    = totals (unwrapped_timestamp s + range_start_offset s - uint (base_timestamp s)) ds"
  using assms
proof (induction ds arbitrary: s t)
  case (Cons d ds)
  define ts where "ts = t + word_of_int d"
  obtain pkt s' where f: "finalize_packet L (new_packet []) ts s = (pkt, s')"
    by (cases "finalize_packet L (new_packet []) ts s")
  have ts: "ts \<noteq> 0" "ts \<noteq> RTP_NOTS_VALUE" using Cons.prems(6) by (simp_all add: ts_def)
  note l = finalize_local [OF Cons.prems(1) ts(2) f]
  have dt: "ts - t = word_of_int d" by (simp add: ts_def)
  have "sint (ts - t) = d"
    unfolding dt int_word_sint using Cons.prems(5) by simp
  then have u: "unwrapped_timestamp s' = unwrapped_timestamp s + d" "base_timestamp s' = base_timestamp s"
    using l(1,3) Cons.prems(2-4) by (simp_all add: unwrap_timestamp_def Let_def)
  have "fst (pts_run L (stamps ts ds) s') = totals (unwrapped_timestamp s' + range_start_offset s' - uint (base_timestamp s')) ds"
    using Cons.prems l(2,5) u ts by (intro Cons.IH) (simp_all add: ts_def)
  then show ?case
    using f l(4,6) u by (simp add: ts_def [symmetric] split_def Let_def algebra_simps)
qed simp

text \<open>
  C37. Presentation times go on where the 32 bits of the timestamp wrap. On a fresh context with a
  first timestamp other than 0, the first packet has the time of the start of the range, and the
  times of the packets after it differ by the signed differences of their timestamps, however
  often these wrap, as long as none of them is exactly 0.
\<close>

theorem pts_follow_timestamps:
  assumes "local_clock s" "timestamp s = 0" "base_timestamp s = 0" "unwrapped_timestamp s = 0"
    "t \<noteq> 0" "t \<noteq> RTP_NOTS_VALUE"
    "\<forall>d \<in> set ds. - (2 ^ 31) \<le> d \<and> d < 2 ^ 31" "\<forall>x \<in> set (stamps t ds). x \<noteq> 0 \<and> x \<noteq> RTP_NOTS_VALUE"
  shows "fst (pts_run L (t # stamps t ds) s) = range_start_offset s # totals (range_start_offset s) ds"
proof -
  obtain pkt s' where f: "finalize_packet L (new_packet []) t s = (pkt, s')"
    by (cases "finalize_packet L (new_packet []) t s")
  note l = finalize_local [OF assms(1,6) f]
  have u: "unwrapped_timestamp s' = uint t" "base_timestamp s' = t"
    using l(1,3) assms(2-4) by (simp_all add: unwrap_timestamp_def Let_def)
  have "fst (pts_run L (stamps t ds) s') = totals (unwrapped_timestamp s' + range_start_offset s' - uint (base_timestamp s')) ds"
    by (rule pts_run_follows [OF l(5,2) assms(5) _ assms(7,8)]) (simp add: u assms(5))
  then show ?thesis using f l(4,6) u by (simp add: split_def Let_def)
qed

theorem pts_follow_timestamps_witness:
  "fst (pts_run (\<lambda>_. 1) (4294967000 # stamps 4294967000 [3000, 3000, - 1500]) (idle_receiver ())) = [0, 3000, 6000, 4500]"
proof -
  have "fst (pts_run (\<lambda>_. 1) (4294967000 # stamps 4294967000 [3000, 3000, - 1500]) (idle_receiver ()))
      = range_start_offset (idle_receiver ()) # totals (range_start_offset (idle_receiver ())) [3000, 3000, - 1500]"
    by (rule pts_follow_timestamps) (simp_all add: local_clock_def idle_receiver_def RTP_NOTS_VALUE_def)
  then show ?thesis by (simp add: idle_receiver_def)
qed

text \<open>
  The timestamp 0 is taken for none. When the first packet of a stream has the timestamp 0, the
  second packet gets the same presentation time as the first, whatever its timestamp is, and all
  later times are off by that timestamp.
\<close>

theorem zero_timestamp_repeats:
  assumes "local_clock s" "timestamp s = 0" "base_timestamp s = 0" "unwrapped_timestamp s = 0"
    "t \<noteq> 0" "t \<noteq> RTP_NOTS_VALUE"
    "\<forall>d \<in> set ds. - (2 ^ 31) \<le> d \<and> d < 2 ^ 31" "\<forall>x \<in> set (stamps t ds). x \<noteq> 0 \<and> x \<noteq> RTP_NOTS_VALUE"
  shows "fst (pts_run L (0 # t # stamps t ds) s)
    = range_start_offset s # range_start_offset s # totals (range_start_offset s) ds"
proof -
  obtain p1 s1 where f1: "finalize_packet L (new_packet []) 0 s = (p1, s1)"
    by (cases "finalize_packet L (new_packet []) 0 s")
  have z: "(0 :: u32) \<noteq> RTP_NOTS_VALUE" by (simp add: RTP_NOTS_VALUE_def)
  note l1 = finalize_local [OF assms(1) z f1]
  have u1: "unwrapped_timestamp s1 = 0" "base_timestamp s1 = 0" "timestamp s1 = 0"
    using l1(1-3) assms(2-4) by (simp_all add: unwrap_timestamp_def Let_def)
  obtain p2 s2 where f2: "finalize_packet L (new_packet []) t s1 = (p2, s2)"
    by (cases "finalize_packet L (new_packet []) t s1")
  note l2 = finalize_local [OF l1(5) assms(6) f2]
  have u2: "unwrapped_timestamp s2 = uint t" "base_timestamp s2 = t"
    using l2(1,3) u1 by (simp_all add: unwrap_timestamp_def Let_def)
  have "fst (pts_run L (stamps t ds) s2) = totals (unwrapped_timestamp s2 + range_start_offset s2 - uint (base_timestamp s2)) ds"
    by (rule pts_run_follows [OF l2(5,2) assms(5) _ assms(7,8)]) (simp add: u2 assms(5))
  then show ?thesis using f1 f2 l1(4,6) l2(4,6) u1 u2 by (simp add: split_def Let_def)
qed

theorem zero_timestamp_repeats_witness:
  "fst (pts_run (\<lambda>_. 1) (0 # 3000 # stamps 3000 [3000, 3000]) (idle_receiver ())) = [0, 0, 3000, 6000]"
proof -
  have "fst (pts_run (\<lambda>_. 1) (0 # 3000 # stamps 3000 [3000, 3000]) (idle_receiver ()))
      = range_start_offset (idle_receiver ()) # range_start_offset (idle_receiver ())
        # totals (range_start_offset (idle_receiver ())) [3000, 3000]"
    by (rule zero_timestamp_repeats) (simp_all add: local_clock_def idle_receiver_def RTP_NOTS_VALUE_def)
  then show ?thesis by (simp add: idle_receiver_def)
qed

end
