(* ===== verification/RtpChain.thy ===== *)
theory RtpChain
  imports RtpH264 RtpReports
begin

text \<open>
  Both ends of the RTP stack together: the packetiser of \<^verbatim>\<open>rtpenc_h264_hevc.c\<close>, the packets of
  \<^verbatim>\<open>rtpenc.c\<close>, the reordering of \<^verbatim>\<open>rtpdec.c\<close> and the payload handler of \<^verbatim>\<open>rtpdec_h264.c\<close>. The units of an
  access unit come out as the same byte stream, whatever the order of the packets.
\<close>

section \<open>What a packetiser sends\<close>

text \<open>Payloads with their markers, sent one after the other.\<close>

fun emit :: "(bool \<times> bytes) list \<Rightarrow> RTPMuxContext \<Rightarrow> RTPMuxContext" where
  "emit [] s = s"
| "emit ((m, p) # ps) s = emit ps (ff_rtp_send_data p m s)"

lemma emit_append [simp]: "emit (ps @ qs) s = emit qs (emit ps s)"
  by (induction ps arbitrary: s) auto

lemma emit_fields [simp]:
  "m_st (emit ps s) = m_st s" "max_payload_size (emit ps s) = max_payload_size s"
  "m_flags (emit ps s) = m_flags s" "buf (emit ps s) = buf s" "buffered_nals (emit ps s) = buffered_nals s"
  "mux_codec_id (emit ps s) = mux_codec_id s" "m_payload_type (emit ps s) = m_payload_type s"
  "m_timestamp (emit ps s) = m_timestamp s" "m_ssrc (emit ps s) = m_ssrc s"
  by (induction ps s rule: emit.induct) (simp_all add: ff_rtp_send_data_def mux_codec_id_def)

lemma send_buf: "ff_rtp_send_data p m (s\<lparr>buf := b, buffered_nals := k\<rparr>)
    = (ff_rtp_send_data p m s)\<lparr>buf := b, buffered_nals := k\<rparr>"
  by (simp add: ff_rtp_send_data_def)

lemma emit_buf [simp]:
  "emit ps (s\<lparr>buf := b, buffered_nals := k\<rparr>) = (emit ps s)\<lparr>buf := b, buffered_nals := k\<rparr>"
  by (induction ps s rule: emit.induct) (simp_all add: send_buf)

lemma sent_emit:
  "sent (emit ps s) = sent s @ map (\<lambda>(k, m, p). rtp_packet (word_of_int (m_payload_type s)) m
     (word_of_int (m_seq s) + of_nat k) (m_timestamp s) (m_ssrc s) p) (enumerate 0 ps)"
proof (induction ps s rule: emit.induct)
  case (2 m p ps s)
  have "(word_of_int ((1 + m_seq s) mod 65536) :: u16) = word_of_int (1 + m_seq s)"
    unfolding word_of_int_eq_iff take_bit_eq_mod by simp
  then have w: "(word_of_int ((1 + m_seq s) mod 65536) :: u16) = 1 + word_of_int (m_seq s)"
    by simp
  show ?case
    using 2 by (simp add: ff_rtp_send_data_def w enumerate_Suc_eq map_map o_def case_prod_beta ac_simps)
qed simp


section \<open>The invariant of the buffer\<close>

text \<open>The units \<open>us\<close> wait in the buffer, framed as an aggregate.\<close>

definition waiting :: "bytes list \<Rightarrow> RTPMuxContext \<Rightarrow> bool" where
  "waiting us s \<longleftrightarrow> buf s = (if us = [] then [] else stap us) \<and> buffered_nals s = length us
     \<and> int (length (buf s)) \<le> max_payload_size s \<and> (\<forall>u \<in> set us. nal_ok u \<and> length u < 65536)"

text \<open>The payloads \<open>ps\<close> decode to \<open>d\<close>, fit the payload size, and only the last may have the marker.\<close>

definition decodes :: "int \<Rightarrow> (bool \<times> bytes) list \<Rightarrow> bytes \<Rightarrow> bool" where
  "decodes mps ps d \<longleftrightarrow> (\<forall>(m, p) \<in> set ps. h264_good p \<and> int (length p) \<le> mps)
     \<and> concat (map (\<lambda>(m, p). h264_data p) ps) = d"

lemma decodes_Nil [simp]: "decodes mps [] d \<longleftrightarrow> d = []"
  by (auto simp: decodes_def)

lemma decodes_append: "decodes mps ps d \<Longrightarrow> decodes mps qs e \<Longrightarrow> decodes mps (ps @ qs) (d @ e)"
  by (auto simp: decodes_def)

lemma stap_length: "length (stap us) = 1 + (\<Sum>u \<leftarrow> us. 2 + length u)"
  by (induction us) (simp_all add: stap_def)

lemma stap_snoc: "stap (us @ [n]) = stap us @ AV_WB16 (of_nat (length n)) @ n"
  by (simp add: stap_def)

text \<open>Flushing sends what waits, with the given marker.\<close>

lemma flush_waiting:
  assumes w: "waiting us s" and c: "mux_codec_id s = CODEC_H264"
  obtains ps where "flush_buffered m s = (emit ps s)\<lparr>buf := [], buffered_nals := 0\<rparr>"
    "decodes (max_payload_size s) ps (annexb us)" "map fst ps = (if us = [] then [] else [m])"
proof -
  consider "us = []" | n where "us = [n]" | "length us > 1"
    by (cases us; cases "tl us") auto
  then show thesis
  proof cases
    case 1
    then show thesis using w that [of "[]"] by (simp add: flush_buffered_def waiting_def)
  next
    case 2
    then have "buf s = 24 # AV_WB16 (of_nat (length n)) @ n" using w by (simp add: waiting_def stap_def)
    then have "drop 3 (buf s) = n" "length (buf s) = 3 + length n" by (simp_all add: AV_WB16_def)
    then have "flush_buffered m s = (emit [(m, n)] s)\<lparr>buf := [], buffered_nals := 0\<rparr>"
      "decodes (max_payload_size s) [(m, n)] (annexb us)"
      using 2 w c single_decodes [of n] by (auto simp: flush_buffered_def waiting_def decodes_def Let_def)
    then show thesis using 2 that [of "[(m, n)]"] by simp
  next
    case 3
    then have "us \<noteq> []" "buffered_nals s \<noteq> 1" "buf s \<noteq> []" using w by (auto simp: waiting_def stap_def)
    moreover have "h264_good (stap us) \<and> h264_data (stap us) = annexb us"
      using w by (intro stap_decodes) (auto simp: waiting_def nal_ok_def)
    ultimately have "flush_buffered m s = (emit [(m, stap us)] s)\<lparr>buf := [], buffered_nals := 0\<rparr>"
      "decodes (max_payload_size s) [(m, stap us)] (annexb us)"
      using w by (auto simp: flush_buffered_def waiting_def decodes_def Let_def)
    then show thesis using \<open>us \<noteq> []\<close> that [of "[(m, stap us)]"] by simp
  qed
qed

lemma waiting_flushed: "waiting [] ((emit ps s)\<lparr>buf := [], buffered_nals := 0\<rparr>) \<longleftrightarrow> 0 \<le> max_payload_size s"
  by (simp add: waiting_def)

section \<open>Fragments\<close>

lemma fragment_decodes:
  assumes "n < 0x80" "fu \<in> {(n AND 0x1f) OR 0x80, ((n AND 0x1f) OR 0x80) AND 0x7f}" "data \<noteq> []"
  shows "h264_good ([28 OR (n AND 0x60), fu] @ data)"
    and "h264_data ([28 OR (n AND 0x60), fu] @ data) = (if fu = (n AND 0x1f) OR 0x80 then start_sequence @ [n] else []) @ data"
    and "fu = ((n AND 0x1f) OR 0x80) AND 0x7f \<Longrightarrow>
      h264_good ([28 OR (n AND 0x60), fu OR 0x40] @ data) \<and> h264_data ([28 OR (n AND 0x60), fu OR 0x40] @ data) = data"
proof -
  note f = fu_ok_byte [OF assms(1), unfolded fu_ok_def list.pred_inject]
  have t: "payload_type_of ([28 OR (n AND 0x60), b] @ data) = 28" for b
    using f by (simp add: payload_type_of_def)
  have l: "3 \<le> length ([28 OR (n AND 0x60), b] @ data)" for b using assms(3) by (cases data) simp_all
  show "h264_good ([28 OR (n AND 0x60), fu] @ data)"
    using t l unfolding h264_good_def by blast
  show "h264_data ([28 OR (n AND 0x60), fu] @ data) = (if fu = (n AND 0x1f) OR 0x80 then start_sequence @ [n] else []) @ data"
    using t f assms(2) by (auto simp: h264_data_def)
  show "fu = ((n AND 0x1f) OR 0x80) AND 0x7f \<Longrightarrow>
      h264_good ([28 OR (n AND 0x60), fu OR 0x40] @ data) \<and> h264_data ([28 OR (n AND 0x60), fu OR 0x40] @ data) = data"
    using t [of "fu OR 0x40"] l [of "fu OR 0x40"] f by (auto simp: h264_data_def h264_good_def)
qed

text \<open>Only the last payload has the marker \<open>m\<close>.\<close>

definition marked :: "bool \<Rightarrow> (bool \<times> bytes) list \<Rightarrow> bool" where
  "marked m ps \<longleftrightarrow> (\<exists>qs p. ps = qs @ [(m, p)] \<and> (\<forall>x \<in> set qs. \<not> fst x))"

definition unmarked :: "(bool \<times> bytes) list \<Rightarrow> bool" where
  "unmarked ps \<longleftrightarrow> (\<forall>x \<in> set ps. \<not> fst x)"

lemma marked_last: "unmarked qs \<Longrightarrow> marked m (qs @ [(m, p)])"
  by (auto simp: marked_def unmarked_def)

lemma marked_append:
  assumes "unmarked qs" "marked m ps"
  shows "marked m (qs @ ps)"
proof -
  obtain rs p where "ps = rs @ [(m, p)]" "\<forall>x \<in> set rs. \<not> fst x" using assms(2) by (auto simp: marked_def)
  then have "qs @ ps = (qs @ rs) @ [(m, p)]" "unmarked (qs @ rs)" using assms(1) by (auto simp: unmarked_def)
  then show ?thesis using marked_last by metis
qed

lemma marked_Cons: "marked m ps \<Longrightarrow> marked m ((False, q) # ps)"
  using marked_append [of "[(False, q)]"] by (simp add: unmarked_def)

lemma unmarked_simps [simp]: "unmarked []" "unmarked (x # ps) \<longleftrightarrow> \<not> fst x \<and> unmarked ps"
  "unmarked (ps @ qs) \<longleftrightarrow> unmarked ps \<and> unmarked qs"
  by (auto simp: unmarked_def)

lemma marked_False: "marked False ps \<Longrightarrow> unmarked ps"
  by (auto simp: marked_def unmarked_def)

lemma fragments_decode:
  assumes "n < 0x80" "fu \<in> {(n AND 0x1f) OR 0x80, ((n AND 0x1f) OR 0x80) AND 0x7f}" "data \<noteq> []"
    "3 \<le> max_payload_size s"
    "fu = (n AND 0x1f) OR 0x80 \<Longrightarrow> int (length data) > max_payload_size s - 2"
  shows "\<exists>ps. send_fragments [28 OR (n AND 0x60)] fu data m s = Some (emit ps s) \<and> marked m ps
    \<and> decodes (max_payload_size s) ps ((if fu = (n AND 0x1f) OR 0x80 then start_sequence @ [n] else []) @ data)"
  using assms
proof (induction "length data" arbitrary: data fu s rule: less_induct)
  case less
  let ?h = "28 OR (n AND 0x60)" and ?room = "max_payload_size s - 2"
  let ?next = "((n AND 0x1f) OR 0x80) AND 0x7f"
  note f = fu_ok_byte [OF less.prems(1), unfolded fu_ok_def]
  have fn: "fu AND 0x7f = ?next" using less.prems(2) f by auto
  have ne: "?next \<noteq> (n AND 0x1f) OR 0x80" using f by metis
  show ?case
  proof (cases "int (length data) > ?room")
    case True
    let ?a = "take (nat ?room) data" and ?b = "drop (nat ?room) data"
    let ?s = "ff_rtp_send_data ([?h, fu] @ ?a) False s"
    have a: "?a \<noteq> []" "?b \<noteq> []" "int (length ?a) = ?room" using True less.prems(3,4) by auto
    have mp: "max_payload_size ?s = max_payload_size s" by (simp add: ff_rtp_send_data_def)
    have "\<exists>ps. send_fragments [?h] ?next ?b m ?s = Some (emit ps ?s) \<and> marked m ps
        \<and> decodes (max_payload_size ?s) ps ((if ?next = (n AND 0x1f) OR 0x80 then start_sequence @ [n] else []) @ ?b)"
      by (rule less.hyps) (use True less.prems(1,4) a(2) ne mp in auto)
    then obtain ps where i: "send_fragments [?h] ?next ?b m ?s = Some (emit ps ?s)" "marked m ps"
      "decodes (max_payload_size s) ps ?b"
      using ne mp by auto
    have "send_fragments [?h] fu data m s = Some (emit ((False, [?h, fu] @ ?a) # ps) s)"
      using True less.prems(4) fn i(1) by (subst send_fragments.simps) (simp add: Let_def)
    moreover have "decodes (max_payload_size s) [(False, [?h, fu] @ ?a)]
        ((if fu = (n AND 0x1f) OR 0x80 then start_sequence @ [n] else []) @ ?a)"
      using fragment_decodes(1,2) [OF less.prems(1,2) a(1)] a(3) by (simp add: decodes_def)
    from decodes_append [OF this i(3)]
    have "decodes (max_payload_size s) ((False, [?h, fu] @ ?a) # ps)
        ((if fu = (n AND 0x1f) OR 0x80 then start_sequence @ [n] else []) @ data)" by simp
    ultimately show ?thesis using marked_Cons [OF i(2)] by blast
  next
    case False
    then have fu: "fu = ?next" "fu \<noteq> (n AND 0x1f) OR 0x80" using less.prems(2,5) ne by auto
    have "send_fragments [?h] fu data m s = Some (emit [(m, [?h, fu OR 0x40] @ data)] s)"
      using False by (subst send_fragments.simps) (simp add: Let_def)
    moreover have "decodes (max_payload_size s) [(m, [?h, fu OR 0x40] @ data)] data"
      using fragment_decodes(3) [OF less.prems(1,2,3) fu(1)] False by (simp add: decodes_def)
    ultimately show ?thesis using fu(2) marked_last [of "[]" m] unmarked_simps(1) by fastforce
  qed
qed

section \<open>Sending units\<close>

definition sendable_nal :: "bytes \<Rightarrow> RTPMuxContext \<Rightarrow> bool" where
  "sendable_nal n s \<longleftrightarrow> nal_ok n \<and> (RTP_H264_MODE0 \<in> m_flags s \<longrightarrow> int (length n) \<le> max_payload_size s)"

definition after :: "(bool \<times> bytes) list \<Rightarrow> bytes list \<Rightarrow> RTPMuxContext \<Rightarrow> RTPMuxContext" where
  "after ps us s = (emit ps s)\<lparr>buf := (if us = [] then [] else stap us), buffered_nals := length us\<rparr>"

lemma after_Nil: "waiting us s \<Longrightarrow> after [] us s = s"
  by (simp add: after_def waiting_def)

lemma after_fields [simp]: "max_payload_size (after ps us s) = max_payload_size s"
  "mux_codec_id (after ps us s) = mux_codec_id s" "m_flags (after ps us s) = m_flags s"
  "buf (after ps us s) = (if us = [] then [] else stap us)" "buffered_nals (after ps us s) = length us"
  by (simp_all add: after_def mux_codec_id_def)

lemma after_after [simp]: "after qs vs (after ps us s) = after (ps @ qs) vs s"
  by (simp add: after_def)

lemma flush_after:
  assumes "waiting us s" "mux_codec_id s = CODEC_H264"
  obtains ps where "flush_buffered m s = after ps [] s" "decodes (max_payload_size s) ps (annexb us)"
    "map fst ps = (if us = [] then [] else [m])"
  using flush_waiting [OF assms] by (auto simp: after_def)

lemma send_after:
  "buf s = [] \<Longrightarrow> buffered_nals s = 0 \<Longrightarrow> ff_rtp_send_data p m s = after [(m, p)] [] s"
  by (simp add: after_def ff_rtp_send_data_def)

lemma flush_for:
  assumes w: "waiting us s" and c: "mux_codec_id s = CODEC_H264" and m: "0 \<le> max_payload_size s"
  obtains ps vs d where "(if P then flush_buffered False s else s) = after ps vs s" "waiting vs (after ps vs s)"
    "decodes (max_payload_size s) ps d" "d @ annexb vs = annexb us" "unmarked ps"
proof (cases P)
  case True
  obtain ps where f: "flush_buffered False s = after ps [] s" "decodes (max_payload_size s) ps (annexb us)"
    "map fst ps = (if us = [] then [] else [False])" by (rule flush_after [OF w c])
  have "unmarked ps" using f(3) by (auto simp: unmarked_def split: if_splits)
  then show thesis using True f m that [of ps "[]" "annexb us"] by (simp add: waiting_def)
next
  case False
  then show thesis using w that [of "[]" us "[]"] after_Nil [OF w] by simp
qed


lemma stap_more: "length (stap (vs @ [n])) = length (if vs = [] then [] else stap vs) + (if vs = [] then 1 else 0) + 2 + length n"
  by (simp add: stap_def)

lemma aggregate_after:
  assumes "mux_codec_id s = CODEC_H264"
  shows "aggregate_nal n (after ps vs s) = after ps (vs @ [n]) s"
proof (cases "vs = []")
  case True
  then show ?thesis using assms by (simp add: aggregate_nal_def) (simp add: after_def stap_def)
next
  case False
  then have "stap vs \<noteq> []" by (simp add: stap_def)
  with False show ?thesis using assms by (simp add: aggregate_nal_def) (simp add: after_def stap_snoc)
qed

lemma nal_send_decodes:
  assumes w: "waiting us s" and c: "mux_codec_id s = CODEC_H264" and n: "sendable_nal n s"
    and m: "3 \<le> max_payload_size s" "max_payload_size s < 65536"
  shows "\<exists>ps vs d. nal_send n mk s = Some (after ps vs s) \<and> waiting vs (after ps vs s)
    \<and> decodes (max_payload_size s) ps d \<and> d @ annexb vs = annexb us @ start_sequence @ n
    \<and> (if vs = [] then marked mk ps else unmarked ps)"
proof -
  have nk: "nal_ok n" "n \<noteq> []" using n by (auto simp: sendable_nal_def nal_ok_def)
  show ?thesis
  proof (cases "int (length n) \<le> max_payload_size s")
    case True
    let ?P = "int (length (buf s)) + 2 + int (length n) > max_payload_size s"
    obtain ps vs d where f: "(if ?P then flush_buffered False s else s) = after ps vs s" "waiting vs (after ps vs s)"
      "decodes (max_payload_size s) ps d" "d @ annexb vs = annexb us" "unmarked ps"
      by (rule flush_for [OF w c]) (use m in simp)
    let ?s = "after ps vs s"
    have e: "nal_send n mk s = (if int (length (buf ?s)) + 2 + 1 + int (length n) \<le> max_payload_size s
          \<and> RTP_H264_MODE0 \<notin> m_flags s
        then Some (aggregate_nal n ?s) else Some (ff_rtp_send_data n mk (flush_buffered False ?s)))"
      using True c unfolding nal_send_def Let_def f(1) by (simp add: send_small_def Let_def del: after_fields(4))
    show ?thesis
    proof (cases "int (length (buf ?s)) + 2 + 1 + int (length n) \<le> max_payload_size s \<and> RTP_H264_MODE0 \<notin> m_flags s")
      case agg: True
      have g: "aggregate_nal n ?s = after ps (vs @ [n]) s"
        using c by (rule aggregate_after)
      have "waiting (vs @ [n]) (after ps (vs @ [n]) s)"
        using f(2) agg nk m stap_more [of vs n] by (auto simp: waiting_def)
      then show ?thesis
        using e agg g f(3-5) by (intro exI [of _ ps] exI [of _ "vs @ [n]"] exI [of _ d]) (simp flip: append_assoc)
    next
      case sgl: False
      obtain qs where q: "flush_buffered False ?s = after qs [] ?s" "decodes (max_payload_size s) qs (annexb vs)"
        "map fst qs = (if vs = [] then [] else [False])"
        using flush_after [OF f(2), of False] c by (metis after_fields(1,2))
      have uq: "unmarked qs" using q(3) by (auto simp: unmarked_def split: if_splits)
      have "ff_rtp_send_data n mk (after qs [] ?s) = after (ps @ qs @ [(mk, n)]) [] s"
        by (subst send_after) simp_all
      then have "nal_send n mk s = Some (after (ps @ qs @ [(mk, n)]) [] s)"
        unfolding e if_not_P [OF sgl] q(1) by simp
      moreover have "decodes (max_payload_size s) [(mk, n)] (start_sequence @ n)"
        using single_decodes [OF nk(1)] True by (simp add: decodes_def)
      from decodes_append [OF f(3) decodes_append [OF q(2) this]]
      have "decodes (max_payload_size s) (ps @ qs @ [(mk, n)]) (annexb us @ start_sequence @ n)"
        using f(4) by (simp flip: append_assoc)
      moreover have "marked mk (ps @ qs @ [(mk, n)])"
        using f(5) uq by (intro marked_append marked_last) auto
      moreover have "waiting [] (after (ps @ qs @ [(mk, n)]) [] s)" using m by (simp add: waiting_def)
      ultimately show ?thesis
        by (intro exI [of _ "ps @ qs @ [(mk, n)]"] exI [of _ "[]"] exI [of _ "annexb us @ start_sequence @ n"]) simp
    qed
  next
    case False
    then have m0: "RTP_H264_MODE0 \<notin> m_flags s" using n by (auto simp: sendable_nal_def)
    obtain qs where q: "flush_buffered False s = after qs [] s" "decodes (max_payload_size s) qs (annexb us)"
      "map fst qs = (if us = [] then [] else [False])" by (rule flush_after [OF w c])
    have uq: "unmarked qs" using q(3) by (auto simp: unmarked_def split: if_splits)
    obtain b data where b: "n = b # data" using nk(2) by (cases n) auto
    let ?fu = "(b AND 0x1f) OR 0x80" and ?t = "after qs [] s"
    have d: "data \<noteq> []" "int (length data) > max_payload_size s - 2" using False m b by auto
    have "b < 0x80" using nk(1) b by (simp add: nal_ok_def)
    then have "\<exists>ps. send_fragments [28 OR (b AND 0x60)] ?fu data mk ?t = Some (emit ps ?t) \<and> marked mk ps
        \<and> decodes (max_payload_size ?t) ps ((if ?fu = (b AND 0x1f) OR 0x80 then start_sequence @ [b] else []) @ data)"
      by (rule fragments_decode) (use d m in auto)
    then obtain ps where p: "send_fragments [28 OR (b AND 0x60)] ?fu data mk ?t = Some (emit ps ?t)" "marked mk ps"
      "decodes (max_payload_size s) ps (start_sequence @ n)" using b by auto
    have "nal_send n mk s = Some (emit ps ?t)"
      using False c m0 q(1) p(1) b by (simp add: nal_send_def fragment_nal_def Let_def)
    moreover have "emit ps ?t = after (qs @ ps) [] s" by (simp add: after_def)
    moreover have "waiting [] (after (qs @ ps) [] s)" using m by (simp add: waiting_def)
    ultimately show ?thesis
      using decodes_append [OF q(2) p(3)] marked_append [OF uq p(2)]
      by (intro exI [of _ "qs @ ps"] exI [of _ "[]"] exI [of _ "annexb us @ start_sequence @ n"]) simp
  qed
qed


lemma send_nals_decodes:
  assumes "waiting us s" "mux_codec_id s = CODEC_H264" "\<forall>n \<in> set ns. sendable_nal n s"
    "3 \<le> max_payload_size s" "max_payload_size s < 65536"
  shows "\<exists>ps vs d. send_nals ns s = Some (after ps vs s) \<and> waiting vs (after ps vs s)
    \<and> decodes (max_payload_size s) ps d \<and> d @ annexb vs = annexb us @ annexb ns
    \<and> (if vs = [] \<and> ns \<noteq> [] then marked True ps else unmarked ps)"
  using assms
proof (induction ns arbitrary: us s)
  case Nil
  then show ?case
    by (intro exI [of _ "[]"] exI [of _ us]) (simp add: after_Nil)
next
  case (Cons n ns)
  have "sendable_nal n s" using Cons.prems(3) by simp
  from nal_send_decodes [OF Cons.prems(1,2) this Cons.prems(4,5), of "ns = []"]
  obtain ps vs d where n: "nal_send n (ns = []) s = Some (after ps vs s)" "waiting vs (after ps vs s)"
    "decodes (max_payload_size s) ps d" "d @ annexb vs = annexb us @ start_sequence @ n"
    "if vs = [] then marked (ns = []) ps else unmarked ps" by blast
  have "\<exists>qs ws e. send_nals ns (after ps vs s) = Some (after qs ws (after ps vs s)) \<and> waiting ws (after qs ws (after ps vs s))
    \<and> decodes (max_payload_size (after ps vs s)) qs e \<and> e @ annexb ws = annexb vs @ annexb ns
    \<and> (if ws = [] \<and> ns \<noteq> [] then marked True qs else unmarked qs)"
    by (rule Cons.IH [OF n(2)]) (use Cons.prems in \<open>auto simp: sendable_nal_def\<close>)
  then obtain qs ws e where q: "send_nals ns (after ps vs s) = Some (after (ps @ qs) ws s)"
    "waiting ws (after (ps @ qs) ws s)" "decodes (max_payload_size s) qs e" "e @ annexb ws = annexb vs @ annexb ns"
    "if ws = [] \<and> ns \<noteq> [] then marked True qs else unmarked qs" by auto
  have "send_nals (n # ns) s = Some (after (ps @ qs) ws s)" using n(1) q(1) by simp
  moreover have "(d @ e) @ annexb ws = annexb us @ annexb (n # ns)"
    using n(4) q(4) by (metis annexb_simps(2) append.assoc)
  moreover have "if ws = [] then marked True (ps @ qs) else unmarked (ps @ qs)" if "ns \<noteq> []"
  proof -
    have "unmarked ps" using that n(5) marked_False by (auto split: if_splits)
    then show ?thesis using q(5) that marked_append by (auto split: if_splits)
  qed
  ultimately have more: ?case if "ns \<noteq> []"
    using that q(2) decodes_append [OF n(3) q(3)] by (intro exI [of _ "ps @ qs"] exI [of _ ws] exI [of _ "d @ e"]) simp
  show ?case
  proof (cases "ns = []")
    case True
    then have "if vs = [] then marked True ps else unmarked ps" using n(5) by (auto split: if_splits)
    then show ?thesis
      using n True by (intro exI [of _ ps] exI [of _ vs] exI [of _ d]) simp
  qed (rule more)
qed


section \<open>An access unit\<close>

text \<open>What an access unit adds to \<open>sent\<close>: payloads that decode to its units.\<close>

lemma send_access_unit:
  assumes "mux_codec_id s = CODEC_H264" "access_units al (nal_length_size s) d = Some ns" "ns \<noteq> []"
    "\<forall>n \<in> set ns. sendable_nal n s" "3 \<le> max_payload_size s" "max_payload_size s < 65536"
    "buffered_nals s = 0"
  obtains ps s' where "ff_rtp_send_h264_hevc al d s = Some s'" "decodes (max_payload_size s) ps (annexb ns)"
    "marked True ps" "sent s' = sent s @ map (\<lambda>(k, m, p). rtp_packet (word_of_int (m_payload_type s)) m
     (word_of_int (m_seq s) + of_nat k) (cur_timestamp s) (m_ssrc s) p) (enumerate 0 ps)"
proof -
  let ?s = "s\<lparr>m_timestamp := cur_timestamp s, buf := []\<rparr>"
  have w: "waiting [] ?s" using assms(5,7) by (simp add: waiting_def)
  have c: "mux_codec_id ?s = CODEC_H264" using assms(1) by (simp add: mux_codec_id_def)
  have "\<exists>ps vs e. send_nals ns ?s = Some (after ps vs ?s) \<and> waiting vs (after ps vs ?s)
    \<and> decodes (max_payload_size ?s) ps e \<and> e @ annexb vs = annexb [] @ annexb ns
    \<and> (if vs = [] \<and> ns \<noteq> [] then marked True ps else unmarked ps)"
    by (rule send_nals_decodes [OF w c]) (use assms in \<open>auto simp: sendable_nal_def\<close>)
  then obtain ps vs e where p: "send_nals ns ?s = Some (after ps vs ?s)" "waiting vs (after ps vs ?s)"
    "decodes (max_payload_size s) ps e" "e @ annexb vs = annexb ns"
    "if vs = [] then marked True ps else unmarked ps" using assms(3) by auto
  have c2: "mux_codec_id (after ps vs ?s) = CODEC_H264" using c by simp
  obtain qs where q: "flush_buffered True (after ps vs ?s) = after qs [] (after ps vs ?s)"
    "decodes (max_payload_size (after ps vs ?s)) qs (annexb vs)" "map fst qs = (if vs = [] then [] else [True])"
    by (rule flush_after [OF p(2) c2])
  have "ff_rtp_send_h264_hevc al d s = Some (after (ps @ qs) [] ?s)"
    using assms(2) p(1) q(1) by (simp add: ff_rtp_send_h264_hevc_def Let_def)
  moreover have "decodes (max_payload_size s) (ps @ qs) (annexb ns)"
    using decodes_append [OF p(3), of qs "annexb vs"] q(2) p(4) by simp
  moreover have "marked True (ps @ qs)"
  proof (cases "vs = []")
    case True
    then show ?thesis using p(5) q(3) by simp
  next
    case False
    then obtain x where "qs = [(True, x)]" using q(3) by (cases qs) auto
    then show ?thesis using p(5) False marked_last by simp
  qed
  ultimately show thesis
    by (rule that) (simp add: after_def sent_emit del: emit_append)
qed

definition receiver_ready :: "u8 \<Rightarrow> PayloadContext RTPDemuxContext \<Rightarrow> bool" where
  "receiver_ready pt r \<longleftrightarrow> handler r = Some (ff_h264_dynamic_handler (\<lambda>_. True)) \<and> payload_type r = uint pt
     \<and> \<not> srtp_enabled r \<and> max_seq (statistics r) = seq r \<and> queue r = [] \<and> queue_len r = 0"

text \<open>
  C2. An access unit sent by the H.264 packetiser is received as the same NAL units. Whatever mixture of
  single units, aggregates and fragments the sizes lead to, and in whatever order the network
  delivers the packets, the payloads that come out of the receiver's reordering, put one after the
  other, are the units of the access unit, each behind a start code. The sequence numbers of the
  unit do not wrap and the unit has fewer packets than the queue has room for.
\<close>

theorem access_unit_roundtrip:
  fixes r :: "PayloadContext RTPDemuxContext"
  assumes sender: "mux_codec_id s = CODEC_H264" "access_units al (nal_length_size s) d = Some ns" "ns \<noteq> []"
      "\<forall>n \<in> set ns. sendable_nal n s" "3 \<le> max_payload_size s" "max_payload_size s < 65536" "buffered_nals s = 0"
      "ff_rtp_send_h264_hevc al d s = Some s'" "packets = drop (length (sent s)) (sent s')"
    and link: "pt = word_of_int (m_payload_type s)" "96 \<le> pt" "pt < 128" "word_of_int (m_seq s) = seq r + 1"
    and receiver: "receiver_ready pt r" "int (length packets) < queue_size r" "1 < queue_size r"
      "length packets < 32768" "0 < unat (seq r)" "unat (seq r) + length packets < 65536" "\<forall>n. L n \<noteq> 0"
    and order: "distinct ks" "set ks = {..<length packets}"
  shows "concat (map pkt_data (fst (receive_datagrams L C (map ((!) packets) ks) r))) = annexb ns"
proof -
  obtain ps s1 where p: "ff_rtp_send_h264_hevc al d s = Some s1" "decodes (max_payload_size s) ps (annexb ns)"
    "sent s1 = sent s @ map (\<lambda>(k, m, p). rtp_packet (word_of_int (m_payload_type s)) m
     (word_of_int (m_seq s) + of_nat k) (cur_timestamp s) (m_ssrc s) p) (enumerate 0 ps)"
    by (rule send_access_unit [OF sender(1-7)])
  let ?N = "length ps"
  define f where "f k = (fst (ps ! (k - 1)), cur_timestamp s, m_ssrc s, snd (ps ! (k - 1)))" for k
  have pk: "packets = map (\<lambda>(k, m, p). rtp_packet pt m (seq r + 1 + of_nat k) (cur_timestamp s) (m_ssrc s) p) (enumerate 0 ps)"
    using sender(8,9) p(1,3) link by simp
  then have N: "length packets = ?N" by simp
  have pays: "h264.payload_no f (Suc k) = snd (ps ! k)" for k
    by (simp add: h264.payload_no_def f_def)
  have good: "h264_good (snd x)" if "x \<in> set ps" for x using p(2) that by (auto simp: decodes_def)
  have run: "h264.run_ok pt (seq r) ?N f"
    unfolding h264.run_ok_def
  proof (intro conjI allI impI)
    fix k
    assume "1 \<le> k \<and> k \<le> ?N"
    then obtain j where "k = Suc j" "j < ?N" by (cases k) auto
    then show "h264_good (h264.payload_no f k)" using good pays by simp
  qed (use link receiver N in auto)
  have rd: "h264.ready pt r" "queue r = []"
    using receiver(1) by (simp_all add: h264.ready_def receiver_ready_def ff_h264_dynamic_handler_def)
  have at: "packets ! k = h264.packet_no pt (seq r) f (Suc k)" if "k < ?N" for k
    using that by (simp add: pk nth_enumerate_eq h264.packet_no_def f_def case_prod_beta ac_simps)
  have arr: "map ((!) packets) ks = map (h264.packet_no pt (seq r) f) (map Suc ks)"
    using at order(2) N by simp
  have ks: "distinct (map Suc ks)" "set (map Suc ks) = {1..?N}"
    using order N by (simp_all add: distinct_map image_Suc_lessThan)
  have qs: "int ?N < queue_size r" using receiver(2) N by simp
  obtain pkts r' where o: "receive_datagrams L C (map (h264.packet_no pt (seq r) f) (map Suc ks)) r = (pkts, r')"
    "map pkt_data pkts = map (\<lambda>k. h264_data (h264.payload_no f k)) [1..<Suc ?N]"
    by (rule h264.any_order [OF rd refl qs receiver(3) run receiver(7) ks])
  have "map pkt_data pkts = map (\<lambda>x. h264_data (snd x)) ps"
    unfolding o(2) by (rule nth_equalityI) (simp_all add: pays del: upt_Suc)
  then show ?thesis
    unfolding arr o(1) fst_conv using p(2) by (simp add: decodes_def case_prod_unfold)
qed


definition example_receiver :: "PayloadContext RTPDemuxContext" where
  "example_receiver = (idle_receiver \<lparr>profile_idc = 0, profile_iop = 0, level_idc = 0, packetization_mode = 1\<rparr>)
     \<lparr>handler := Some (ff_h264_dynamic_handler (\<lambda>_. True))\<rparr>"

text \<open>Two parameter sets that travel together and a slice in two fragments, received backwards.\<close>

definition example_unit :: bytes where
  "example_unit = [0, 0, 0, 1, 0x67, 1, 2, 0, 0, 1, 0x68, 3, 0, 0, 0, 1, 0x65, 4, 5, 6, 7, 8, 9, 10, 11, 12, 13, 14, 15, 16]"

definition example_nals :: "bytes list" where
  "example_nals = [[0x67, 1, 2], [0x68, 3], [0x65, 4, 5, 6, 7, 8, 9, 10, 11, 12, 13, 14, 15, 16]]"

lemma example_split: "access_units 0 0 example_unit = Some example_nals"
  by code_simp

lemma example_sent: "map_option (\<lambda>s. length (sent s)) (ff_rtp_send_h264_hevc 0 example_unit example_rtp_mux) = Some 3"
  by code_simp

theorem access_unit_roundtrip_witness:
  "\<exists>s'. ff_rtp_send_h264_hevc 0 example_unit example_rtp_mux = Some s'
    \<and> concat (map pkt_data (fst (receive_datagrams (\<lambda>_. 1) toy_crypto (map ((!) (sent s')) [2, 1, 0]) example_receiver)))
        = annexb example_nals"
proof -
  have k: "{2, Suc 0, 0} = {..<3}" by auto
  obtain s' where s: "ff_rtp_send_h264_hevc 0 example_unit example_rtp_mux = Some s'" "length (sent s') = 3"
    using example_sent by (cases "ff_rtp_send_h264_hevc 0 example_unit example_rtp_mux") auto
  have "concat (map pkt_data (fst (receive_datagrams (\<lambda>_. 1) toy_crypto (map ((!) (sent s')) [2, 1, 0]) example_receiver)))
        = annexb example_nals"
    by (rule access_unit_roundtrip [where s = example_rtp_mux and s' = s' and al = 0 and d = example_unit and pt = 96])
      (use s in \<open>simp_all add: example_rtp_mux_def example_split mux_codec_id_def example_par_def example_nals_def
        sendable_nal_def nal_ok_def receiver_ready_def example_receiver_def idle_receiver_def rtp_init_statistics_def k\<close>)
  then show ?thesis using s(1) by blast
qed

text \<open>
  An access unit goes out in packets of one timestamp with consecutive sequence numbers. None is
  larger than the payload size allows, and the marker is set in the last packet and in no other;
  an access unit always sends at least one packet.
\<close>

theorem access_unit_packets:
  assumes "mux_codec_id s = CODEC_H264" "access_units al (nal_length_size s) d = Some ns" "ns \<noteq> []"
    "\<forall>n \<in> set ns. sendable_nal n s" "3 \<le> max_payload_size s" "max_payload_size s < 65536"
    "buffered_nals s = 0"
  shows "\<exists>s' ps p. ff_rtp_send_h264_hevc al d s = Some s'
    \<and> sent s' = sent s @ map (\<lambda>(k, m, p). rtp_packet (word_of_int (m_payload_type s)) m
        (word_of_int (m_seq s) + of_nat k) (cur_timestamp s) (m_ssrc s) p)
        (enumerate 0 (map (Pair False) ps @ [(True, p)]))
    \<and> (\<forall>q \<in> set (ps @ [p]). int (length q) \<le> max_payload_size s)"
proof -
  obtain qs s' where q: "ff_rtp_send_h264_hevc al d s = Some s'" "decodes (max_payload_size s) qs (annexb ns)"
    "marked True qs" "sent s' = sent s @ map (\<lambda>(k, m, p). rtp_packet (word_of_int (m_payload_type s)) m
     (word_of_int (m_seq s) + of_nat k) (cur_timestamp s) (m_ssrc s) p) (enumerate 0 qs)"
    by (rule send_access_unit [OF assms])
  obtain us p where us: "qs = us @ [(True, p)]" "\<forall>x \<in> set us. \<not> fst x" using q(3) by (auto simp: marked_def)
  have "us = map (Pair False) (map snd us)" using us(2) by (induction us) auto
  then have e: "qs = map (Pair False) (map snd us) @ [(True, p)]" using us(1) by simp
  moreover have "\<forall>x \<in> set (map snd us @ [p]). int (length x) \<le> max_payload_size s"
    using q(2) us(1) by (auto simp: decodes_def)
  ultimately show ?thesis using q(1,4) by blast
qed

theorem access_unit_packets_witness:
  "\<exists>s' ps p. ff_rtp_send_h264_hevc 0 example_unit example_rtp_mux = Some s'
    \<and> sent s' = map (\<lambda>(k, m, p). rtp_packet 96 m (101 + of_nat k) 9000 7 p)
        (enumerate 0 (map (Pair False) ps @ [(True, p)]))
    \<and> (\<forall>q \<in> set (ps @ [p]). int (length q) \<le> 12)"
  using access_unit_packets [of example_rtp_mux 0 example_unit example_nals]
  by (simp add: example_rtp_mux_def example_split mux_codec_id_def example_par_def example_nals_def
        sendable_nal_def nal_ok_def)

end
