(* ===== verification/Base64.thy ===== *)
theory Base64
  imports Avc
begin

text \<open>
  \<^verbatim>\<open>libavutil/base64.c\<close>: encoding and decoding of Base64. The session description carries the
  parameter sets of H.264 and the keys of SRTP in it. Decoding undoes encoding, and how far the
  decoder may write.
\<close>

section \<open>Decoding\<close>

text \<open>The table of sextets; \<open>0xff\<close> marks a character that is not allowed, \<open>0xfe\<close> the end of the text
  and the padding.\<close>

definition map2_table :: "u8 list" where
  "map2_table = [0xfe] @ replicate 42 0xff @ [0x3e, 0xff, 0xff, 0xff, 0x3f] @ map of_nat [0x34..<0x3e]
     @ [0xff, 0xff, 0xff, 0xfe, 0xff, 0xff, 0xff] @ map of_nat [0..<26] @ replicate 6 0xff
     @ map of_nat [26..<52] @ replicate 133 0xff"

text \<open>What the table holds for the next character; a text ends in a zero byte.\<close>

definition sextet :: "string \<Rightarrow> u8" where
  "sextet s = (case s of [] \<Rightarrow> map2_table ! 0 | c # _ \<Rightarrow> map2_table ! of_char c)"

text \<open>\<open>BASE64_DEC_STEP\<close> from \<open>i\<close> on, \<open>n\<close> times: the value and the rest of the text, or where it stopped.\<close>

fun dec_steps :: "nat \<Rightarrow> nat \<Rightarrow> u32 \<Rightarrow> string \<Rightarrow> (nat \<times> u32 \<times> u8) + (u32 \<times> string)" where
  "dec_steps 0 i v s = Inr (v, s)"
| "dec_steps (Suc n) i v s =
     (let bits = sextet s
      in if bits AND 0x80 \<noteq> 0 then Inl (i, v, bits)
         else dec_steps n (i + 1) (if i = 0 then ucast bits else push_bit 6 v + ucast bits) (tl s))"

text \<open>The labels \<open>out3\<close> to \<open>out0\<close>, and the bytes of a complete group.\<close>

definition dec_out :: "nat \<Rightarrow> u32 \<Rightarrow> bytes" where
  "dec_out i v = (if i = 3 then [ucast (drop_bit 10 v), ucast (drop_bit 4 (push_bit 2 v))]
     else if i = 2 then [ucast (drop_bit 4 v)] else [])"

definition dec_group :: "u32 \<Rightarrow> bytes" where
  "dec_group v = [ucast (drop_bit 16 v), ucast (drop_bit 8 v), ucast v]"

fun validity_check :: "string \<Rightarrow> u8" where
  "validity_check [] = sextet []"
| "validity_check (c # s) = (let bits = sextet (c # s) in if bits AND 0x80 \<noteq> 0 then bits else validity_check s)"

text \<open>\<open>room\<close> is what is left of the output buffer. The result is what is written to it, which may be
  one byte more than there is room, and the mark at which the text ended.\<close>

fun dec_loop :: "nat \<Rightarrow> string \<Rightarrow> bytes \<times> u8" where
  "dec_loop room s =
     (if room = 0 then ([], validity_check s)
      else case dec_steps 4 0 0 s of
             Inl (i, v, bits) \<Rightarrow> (dec_out i v, bits)
           | Inr (v, s) \<Rightarrow>
               if room > 3 then (let (out, bits) = dec_loop (room - 3) s in (dec_group v @ out, bits))
               else (take room (dec_group v), validity_check s))"

declare dec_loop.simps [simp del]

definition av_base64_decode :: "string \<Rightarrow> nat \<Rightarrow> bytes res" where
  "av_base64_decode s out_size =
     (let (out, bits) = dec_loop out_size s in if bits AND 1 \<noteq> 0 then Err AVERROR_INVALIDDATA else Ok out)"

section \<open>Encoding\<close>

definition b64 :: string where
  "b64 = ''ABCDEFGHIJKLMNOPQRSTUVWXYZabcdefghijklmnopqrstuvwxyz0123456789+/''"

definition AV_BASE64_SIZE :: "nat \<Rightarrow> nat" where
  "AV_BASE64_SIZE x = (x + 2) div 3 * 4 + 1"

function enc_shift :: "u32 \<Rightarrow> int \<Rightarrow> string" where
  "enc_shift i_bits i_shift =
     (if i_shift > 0
      then b64 ! unat (drop_bit (nat i_shift) (push_bit 6 i_bits) AND 0x3f) # enc_shift i_bits (i_shift - 6)
      else [])"
  by pat_completeness auto
termination
  by (relation "measure (\<lambda>(i_bits, i_shift). nat i_shift)") auto

declare enc_shift.simps [simp del]

definition enc_tail :: "bytes \<Rightarrow> string" where
  "enc_tail bs =
     (let t = enc_shift (foldl (\<lambda>v b. push_bit 8 v + ucast b) 0 bs) (8 * int (length bs))
      in t @ replicate (if length t mod 4 = 0 then 0 else 4 - length t mod 4) (CHR ''=''))"

definition enc_group :: "u32 \<Rightarrow> string" where
  "enc_group v = map ((!) b64) [unat (drop_bit 26 v), unat (drop_bit 20 v AND 0x3f),
     unat (drop_bit 14 v AND 0x3f), unat (drop_bit 8 v AND 0x3f)]"

fun enc_loop :: "bytes \<Rightarrow> string" where
  "enc_loop bs =
     (if length bs > 3 then enc_group (AV_RB32 bs 0) @ enc_loop (drop 3 bs) else enc_tail bs)"

declare enc_loop.simps [simp del]

definition av_base64_encode :: "nat \<Rightarrow> bytes \<Rightarrow> string option" where
  "av_base64_encode out_size bs =
     (if length bs \<ge> (2 ^ 32 - 1) div 4 \<or> out_size < AV_BASE64_SIZE (length bs) then None
      else Some (enc_loop bs))"

section \<open>Decoding undoes encoding\<close>

text \<open>The characters of the alphabet stand for their place in it.\<close>

lemma b64_all: "list_all (\<lambda>k. sextet [b64 ! k] = of_nat k \<and> (of_nat k :: u8) AND 0x80 = 0) [0..<64]"
  by code_simp

lemma sextet_b64: "k < 64 \<Longrightarrow> sextet (b64 ! k # s) = of_nat k" "k < 64 \<Longrightarrow> (of_nat k :: u8) AND 0x80 = 0"
proof -
  assume "k < 64"
  then have "k \<in> set [0..<64]" by simp
  then have "sextet [b64 ! k] = of_nat k \<and> (of_nat k :: u8) AND 0x80 = 0"
    using b64_all unfolding list_all_iff by blast
  then show "sextet (b64 ! k # s) = of_nat k" "(of_nat k :: u8) AND 0x80 = 0" by (simp_all add: sextet_def)
qed

lemma sextet_end: "sextet [] = 0xfe" "sextet (CHR ''='' # s) = 0xfe"
  by (simp_all add: sextet_def) code_simp+

text \<open>Numbers of words.\<close>

lemma unat_drop: "unat (drop_bit n v) = unat v div 2 ^ n" for v :: "'a::len word"
  by (subst unat_drop_bit_eq) (rule drop_bit_eq_div)

lemma unat_low6: "unat (v AND 0x3f) = unat v mod 64" for v :: u32
proof -
  have "v AND 0x3f = v mod 64" using take_bit_eq_mod [of 6 v] by (simp add: take_bit_eq_mask mask_eq_exp_minus_1)
  then show ?thesis by (simp only: unat_mod) simp
qed

lemma sextet_word: "k < 64 \<Longrightarrow> ucast (of_nat k :: u8) = (of_nat k :: u32)"
  by (simp add: word_unat_eq_iff unsigned_of_nat unsigned_ucast_eq take_bit_nat_eq_self)

lemma push6: "push_bit 6 v = v * 64" for v :: u32
  by (simp add: push_bit_eq_mult)

definition quad :: "nat \<Rightarrow> nat \<Rightarrow> nat \<Rightarrow> nat \<Rightarrow> nat" where
  "quad k l m n = ((k * 64 + l) * 64 + m) * 64 + n"

lemma four_steps: "dec_steps 4 i v s = dec_steps (Suc (Suc (Suc (Suc 0)))) i v s"
  by (simp add: numeral_eq_Suc)

lemma dec_step:
  "k < 64 \<Longrightarrow> dec_steps (Suc n) i v (b64 ! k # s)
     = dec_steps n (Suc i) (if i = 0 then of_nat k else v * 64 + of_nat k) s"
  by (simp add: sextet_b64 sextet_word push6 Let_def)

lemma dec_stop:
  "dec_steps (Suc n) i v [] = Inl (i, v, 0xfe)" "dec_steps (Suc n) i v (CHR ''='' # s) = Inl (i, v, 0xfe)"
  by (simp_all add: sextet_end Let_def)

lemma dec_four:
  assumes "k < 64" "l < 64" "m < 64" "n < 64"
  shows "dec_steps 4 0 0 (b64 ! k # b64 ! l # b64 ! m # b64 ! n # s) = Inr (of_nat (quad k l m n), s)"
  unfolding four_steps using assms by (simp add: dec_step quad_def del: dec_steps.simps(2))

lemma dec_three:
  assumes "k < 64" "l < 64" "m < 64"
  shows "dec_steps 4 0 0 (b64 ! k # b64 ! l # b64 ! m # CHR ''='' # s) = Inl (3, of_nat ((k * 64 + l) * 64 + m), 0xfe)"
  unfolding four_steps using assms by (simp add: dec_step dec_stop numeral_3_eq_3 del: dec_steps.simps(2))

lemma dec_two:
  assumes "k < 64" "l < 64"
  shows "dec_steps 4 0 0 (b64 ! k # b64 ! l # CHR ''='' # s) = Inl (2, of_nat (k * 64 + l), 0xfe)"
  unfolding four_steps using assms by (simp add: dec_step dec_stop numeral_2_eq_2 del: dec_steps.simps(2))

lemma dec_none: "dec_steps 4 0 0 [] = Inl (0, 0, 0xfe)"
  by (simp add: four_steps dec_stop del: dec_steps.simps(2))

text \<open>The sextets of a number, and the bytes of a number.\<close>

lemma quad_sextets: "quad (x div 2 ^ 18) (x div 2 ^ 12 mod 64) (x div 2 ^ 6 mod 64) (x mod 64) = x"
proof -
  have "x div 2 ^ 18 = x div 2 ^ 12 div 64" "x div 2 ^ 12 = x div 2 ^ 6 div 64" "x div 2 ^ 6 = x div 64"
    by (simp_all add: div_mult2_eq [symmetric])
  then show ?thesis unfolding quad_def by presburger
qed

lemma byte_of_word:
  assumes "unat v div 2 ^ n mod 256 = unat b"
  shows "ucast (drop_bit n v) = (b :: u8)"
  using assms by (simp only: word_unat_eq_iff unsigned_ucast_eq unat_drop take_bit_eq_mod) simp

lemma unat_small: "x < 2 ^ 32 \<Longrightarrow> unat (of_nat x :: u32) = x"
  by (rule of_nat_inverse [OF refl]) simp

lemma byte_less: "unat b < 256" for b :: u8
  using unsigned_less [of b] by simp

lemma byte_parts:
  assumes "x = A * 65536 + B * 256 + C" "A < 256" "B < 256" "C < (256 :: nat)"
  shows "x div 2 ^ 16 mod 256 = A" "x div 2 ^ 8 mod 256 = B" "x div 2 ^ 0 mod 256 = C"
proof -
  have 1: "x div 65536 = A" using assms by (intro div_nat_eqI) auto
  have 2: "x div 256 = A * 256 + B" using assms by (intro div_nat_eqI) auto
  have "x mod 256 = C" using div_mult_mod_eq [of x 256] assms(1) 2 by linarith
  then show "x div 2 ^ 16 mod 256 = A" "x div 2 ^ 8 mod 256 = B" "x div 2 ^ 0 mod 256 = C"
    using 1 2 assms(2,3) by simp_all
qed

lemma group_bytes:
  fixes a b c :: u8
  assumes "x = unat a * 65536 + unat b * 256 + unat c"
  shows "dec_group (of_nat x) = [a, b, c]"
proof -
  note l = byte_less [of a] byte_less [of b] byte_less [of c]
  have "x < 2 ^ 32" using assms l by simp
  then have x: "unat (of_nat x :: u32) = x" by (rule unat_small)
  from byte_parts [OF assms l] have "ucast (drop_bit 16 (of_nat x :: u32)) = a" "ucast (drop_bit 8 (of_nat x :: u32)) = b"
    "ucast (drop_bit 0 (of_nat x :: u32)) = c"
    by (simp_all only: byte_of_word x)
  then show ?thesis by (simp add: dec_group_def)
qed

text \<open>A group of the encoder.\<close>

lemma enc_group_quad:
  "unat v div 256 = x \<Longrightarrow> enc_group v = map ((!) b64) [x div 2 ^ 18, x div 2 ^ 12 mod 64, x div 2 ^ 6 mod 64, x mod 64]"
  by (auto simp: enc_group_def unat_drop unat_low6 div_mult2_eq [symmetric])

lemma dec_enc_group:
  fixes a b c d :: u8
  assumes "x = unat a * 65536 + unat b * 256 + unat c"
  shows "dec_steps 4 0 0 (enc_group (AV_RB32 (a # b # c # d # bs) 0) @ s) = Inr (of_nat x, s)"
proof -
  have "AV_RB32 (a # b # c # d # bs) 0 = rb32 a b c d" by (simp add: AV_RB32_def)
  then have v: "unat (AV_RB32 (a # b # c # d # bs) 0) div 256 = x"
    using byte_less [of d] by (simp add: unat_rb32 assms)
  have "x div 2 ^ 18 < 64" using byte_less [of a] byte_less [of b] byte_less [of c] by (simp add: assms)
  from dec_four [OF this, of "x div 2 ^ 12 mod 64" "x div 2 ^ 6 mod 64" "x mod 64" s]
  have "dec_steps 4 0 0 (map ((!) b64) [x div 2 ^ 18, x div 2 ^ 12 mod 64, x div 2 ^ 6 mod 64, x mod 64] @ s)
      = Inr (of_nat x, s)" by (simp only: quad_sextets list.map append.simps mod_less_divisor zero_less_numeral)
  then show ?thesis by (simp only: enc_group_quad [OF v])
qed

text \<open>The tail of the encoder: one, two or three bytes.\<close>

lemma enc_shift_steps:
  "enc_shift v 8 = [b64 ! unat (drop_bit 8 (push_bit 6 v) AND 0x3f), b64 ! unat (drop_bit 2 (push_bit 6 v) AND 0x3f)]"
  "enc_shift v 16 = [b64 ! unat (drop_bit 16 (push_bit 6 v) AND 0x3f), b64 ! unat (drop_bit 10 (push_bit 6 v) AND 0x3f),
     b64 ! unat (drop_bit 4 (push_bit 6 v) AND 0x3f)]"
  "enc_shift v 24 = [b64 ! unat (drop_bit 24 (push_bit 6 v) AND 0x3f), b64 ! unat (drop_bit 18 (push_bit 6 v) AND 0x3f),
     b64 ! unat (drop_bit 12 (push_bit 6 v) AND 0x3f), b64 ! unat (drop_bit 6 (push_bit 6 v) AND 0x3f)]"
  by (simp_all add: enc_shift.simps)

lemma shifted_sextet:
  "unat v = x \<Longrightarrow> x < 2 ^ 24 \<Longrightarrow> unat (drop_bit n (push_bit 6 v) AND 0x3f) = x * 64 div 2 ^ n mod 64" for v :: u32
proof -
  assume a: "unat v = x" "x < 2 ^ 24"
  have "unat (push_bit 6 v) = x * 64"
    using a by (simp add: push_bit_eq_mult unat_word_ariths)
  then show ?thesis by (simp only: unat_low6 unat_drop)
qed

lemma joined:
  fixes a b c :: u8
  shows "unat (foldl (\<lambda>v b. push_bit 8 v + ucast b) 0 [a] :: u32) = unat a"
    and "unat (foldl (\<lambda>v b. push_bit 8 v + ucast b) 0 [a, b] :: u32) = unat a * 256 + unat b"
    and "unat (foldl (\<lambda>v b. push_bit 8 v + ucast b) 0 [a, b, c] :: u32) = unat a * 65536 + unat b * 256 + unat c"
proof -
  note l = byte_less [of a] byte_less [of b] byte_less [of c]
  have e: "foldl (\<lambda>v b. push_bit 8 v + ucast b) 0 [a] = (of_nat (unat a) :: u32)"
    "foldl (\<lambda>v b. push_bit 8 v + ucast b) 0 [a, b] = (of_nat (unat a * 256 + unat b) :: u32)"
    "foldl (\<lambda>v b. push_bit 8 v + ucast b) 0 [a, b, c] = (of_nat (unat a * 65536 + unat b * 256 + unat c) :: u32)"
    by (simp_all add: push_bit_eq_mult algebra_simps)
  show "unat (foldl (\<lambda>v b. push_bit 8 v + ucast b) 0 [a] :: u32) = unat a"
    unfolding e using l by (intro unat_small) simp
  show "unat (foldl (\<lambda>v b. push_bit 8 v + ucast b) 0 [a, b] :: u32) = unat a * 256 + unat b"
    unfolding e using l by (intro unat_small) simp
  show "unat (foldl (\<lambda>v b. push_bit 8 v + ucast b) 0 [a, b, c] :: u32) = unat a * 65536 + unat b * 256 + unat c"
    unfolding e using l by (intro unat_small) simp
qed

text \<open>What the tail is made of: the sextets of its one, two or three bytes as a number.\<close>

lemma two_copies: "replicate 2 x = [x, x]"
  by (simp add: numeral_2_eq_2)

lemma enc_tail_one:
  assumes "x = unat a"
  shows "enc_tail [a] = [b64 ! (x * 64 div 2 ^ 8 mod 64), b64 ! (x * 64 div 2 ^ 2 mod 64), CHR ''='', CHR ''='']"
proof -
  define v where "v = foldl (\<lambda>v b. push_bit 8 v + ucast b) (0 :: u32) [a]"
  have v: "unat v = x" unfolding v_def joined assms ..
  have l: "x < 2 ^ 24" using byte_less [of a] by (simp add: assms)
  have "enc_tail [a] = enc_shift v 8 @ ''==''"
    unfolding enc_tail_def v_def [symmetric] by (simp add: enc_shift_steps Let_def two_copies)
  then show ?thesis by (simp only: enc_shift_steps shifted_sextet [OF v l] append.simps)
qed

lemma enc_tail_two:
  assumes "x = unat a * 256 + unat b"
  shows "enc_tail [a, b] = [b64 ! (x * 64 div 2 ^ 16 mod 64), b64 ! (x * 64 div 2 ^ 10 mod 64),
    b64 ! (x * 64 div 2 ^ 4 mod 64), CHR ''='']"
proof -
  define v where "v = foldl (\<lambda>v b. push_bit 8 v + ucast b) (0 :: u32) [a, b]"
  have v: "unat v = x" unfolding v_def joined assms ..
  have l: "x < 2 ^ 24" using byte_less [of a] byte_less [of b] by (simp add: assms)
  have "enc_tail [a, b] = enc_shift v 16 @ ''=''"
    unfolding enc_tail_def v_def [symmetric] by (simp add: enc_shift_steps Let_def)
  then show ?thesis by (simp only: enc_shift_steps shifted_sextet [OF v l] append.simps)
qed

lemma enc_tail_three:
  assumes "x = unat a * 65536 + unat b * 256 + unat c"
  shows "enc_tail [a, b, c] = [b64 ! (x * 64 div 2 ^ 24 mod 64), b64 ! (x * 64 div 2 ^ 18 mod 64),
    b64 ! (x * 64 div 2 ^ 12 mod 64), b64 ! (x * 64 div 2 ^ 6 mod 64)]"
proof -
  define v where "v = foldl (\<lambda>v b. push_bit 8 v + ucast b) (0 :: u32) [a, b, c]"
  have v: "unat v = x" unfolding v_def joined assms ..
  have l: "x < 2 ^ 24" using byte_less [of a] byte_less [of b] byte_less [of c] by (simp add: assms)
  have "enc_tail [a, b, c] = enc_shift v 24"
    unfolding enc_tail_def v_def [symmetric] by (simp add: enc_shift_steps Let_def)
  then show ?thesis by (simp only: enc_shift_steps shifted_sextet [OF v l])
qed

text \<open>Both sides of it: the value the decoder has read when the text ends.\<close>

lemma sextets_one: "(x * 64 div 2 ^ 8 mod 64) * 64 + x * 64 div 2 ^ 2 mod 64 = x * 16" if "x < 256" for x :: nat
proof -
  have "x * 64 div 2 ^ 8 mod 64 = x div 4" using that by simp
  moreover have "x * 64 div 2 ^ 2 mod 64 = x mod 4 * 16"
    using mult_mod_right [of 16 x 4] by (simp add: mult.commute)
  moreover have "x div 4 * 4 + x mod 4 = x" by (rule div_mult_mod_eq)
  ultimately show ?thesis by linarith
qed

lemma sextets_two: "((x * 64 div 2 ^ 16 mod 64) * 64 + x * 64 div 2 ^ 10 mod 64) * 64 + x * 64 div 2 ^ 4 mod 64 = x * 4"
  if "x < 65536" for x :: nat
proof -
  have "x * 64 div 2 ^ 16 mod 64 = x div 1024" using that by simp
  moreover have "x * 64 div 2 ^ 10 = x div 16" by simp
  moreover have "x * 64 div 2 ^ 4 mod 64 = x mod 16 * 4"
    using mult_mod_right [of 4 x 16] by (simp add: mult.commute)
  moreover have "x div 1024 = x div 16 div 64" by (simp add: div_mult2_eq [symmetric])
  moreover have "x div 16 div 64 * 64 + x div 16 mod 64 = x div 16" "x div 16 * 16 + x mod 16 = x"
    by (rule div_mult_mod_eq)+
  ultimately have "((x * 64 div 2 ^ 16 mod 64) * 64 + x * 64 div 2 ^ 10 mod 64) * 64 + x * 64 div 2 ^ 4 mod 64
      = x div 16 * 64 + x mod 16 * 4" by simp
  then show ?thesis using div_mult_mod_eq [of x 16] by linarith
qed

lemma sextets_three: "quad (x * 64 div 2 ^ 24 mod 64) (x * 64 div 2 ^ 18 mod 64) (x * 64 div 2 ^ 12 mod 64)
    (x * 64 div 2 ^ 6 mod 64) = x" if "x < 2 ^ 24"
proof -
  have "x * 64 div 2 ^ 24 mod 64 = x div 2 ^ 18" using that by simp
  then show ?thesis using quad_sextets [of x] by simp
qed

lemma dec_tail_one: "dec_steps 4 0 0 (enc_tail [a]) = Inl (2, of_nat (unat a * 16), 0xfe)"
  unfolding enc_tail_one [OF refl] sextets_one [OF byte_less, symmetric]
  by (rule dec_two) simp_all

lemma dec_tail_two: "x = unat a * 256 + unat b \<Longrightarrow> dec_steps 4 0 0 (enc_tail [a, b]) = Inl (3, of_nat (x * 4), 0xfe)"
proof -
  assume x: "x = unat a * 256 + unat b"
  then have "x < 65536" using byte_less [of a] byte_less [of b] by simp
  note s = sextets_two [OF this, symmetric]
  show ?thesis unfolding enc_tail_two [OF x] by (subst s, rule dec_three) simp_all
qed

lemma dec_tail_three:
  "x = unat a * 65536 + unat b * 256 + unat c \<Longrightarrow> dec_steps 4 0 0 (enc_tail [a, b, c]) = Inr (of_nat x, [])"
proof -
  assume x: "x = unat a * 65536 + unat b * 256 + unat c"
  then have "x < 2 ^ 24" using byte_less [of a] byte_less [of b] byte_less [of c] by simp
  note s = sextets_three [OF this, symmetric]
  show ?thesis unfolding enc_tail_three [OF x] by (subst (5) s, rule dec_four) simp_all
qed

text \<open>Nothing follows a decoded tail, so the check of the rest finds the end of the text.\<close>

lemma dec_rest: "dec_loop n [] = ([], 0xfe)"
  by (simp add: dec_loop.simps dec_none dec_out_def sextet_end(1))

lemma tail_bytes:
  fixes a b :: u8
  shows "dec_out 2 (of_nat (unat a * 16)) = [a]"
    and "x = unat a * 256 + unat b \<Longrightarrow> dec_out 3 (of_nat (x * 4)) = [a, b]"
proof -
  note l = byte_less [of a] byte_less [of b]
  have "unat (of_nat (unat a * 16) :: u32) = unat a * 16" by (rule unat_small) (use l in simp)
  then have "ucast (drop_bit 4 (of_nat (unat a * 16) :: u32)) = a" by (intro byte_of_word) (use l in simp)
  then show "dec_out 2 (of_nat (unat a * 16)) = [a]" by (simp only: dec_out_def) simp
  assume x: "x = unat a * 256 + unat b"
  have u: "unat (of_nat (x * 4) :: u32) = x * 4" by (rule unat_small) (use l x in simp)
  have d: "x div 256 = unat a" using x l by (intro div_nat_eqI) auto
  have m: "x mod 256 = unat b" using x l by simp
  have "x * 4 div 2 ^ 10 = x div 256" by simp
  then have 1: "ucast (drop_bit 10 (of_nat (x * 4) :: u32)) = a" using d l by (intro byte_of_word) (simp only: u, simp)
  have "unat (push_bit 2 (of_nat (x * 4)) :: u32) = x * 16"
  proof -
    have "push_bit 2 (of_nat (x * 4)) = (of_nat (x * 16) :: u32)" by (simp add: push_bit_eq_mult)
    then show ?thesis using l x by (simp only:) (rule unat_small, simp)
  qed
  then have 2: "ucast (drop_bit 4 (push_bit 2 (of_nat (x * 4)) :: u32)) = b"
    using m by (intro byte_of_word) simp
  show "dec_out 3 (of_nat (x * 4)) = [a, b]" unfolding dec_out_def by (simp only: 1 2) simp
qed

lemma dec_enc: "length bs \<le> room \<Longrightarrow> dec_loop room (enc_loop bs) = (bs, 0xfe)"
proof (induction bs arbitrary: room rule: enc_loop.induct)
  case (1 bs)
  show ?case
  proof (cases "length bs > 3")
    case True
    then obtain a b c d r where bs: "bs = a # b # c # d # r"
      by (cases bs rule: remdups_adj.cases; cases "tl (tl bs)" rule: remdups_adj.cases) auto
    have i: "dec_loop (room - 3) (enc_loop (d # r)) = (d # r, 0xfe)"
      using 1(1) [OF True, of "room - 3"] 1(2) bs by simp
    have e: "enc_loop bs = enc_group (AV_RB32 bs 0) @ enc_loop (d # r)"
      using True by (subst enc_loop.simps) (simp add: bs)
    have room: "room \<noteq> 0" "room > 3" using 1(2) True by simp_all
    show ?thesis
      unfolding e dec_loop.simps [of room] unfolding bs dec_enc_group [OF refl] using room i
      by (simp only: sum.case prod.case if_True if_False Let_def group_bytes [OF refl]) simp
  next
    case False
    then have e: "enc_loop bs = enc_tail bs" by (subst enc_loop.simps) simp
    from False consider "bs = []" | a where "bs = [a]" | a b where "bs = [a, b]" | a b c where "bs = [a, b, c]"
      by (cases bs rule: remdups_adj.cases; cases "tl (tl bs)" rule: remdups_adj.cases) auto
    then show ?thesis
    proof cases
      case 1
      then show ?thesis unfolding e by (simp add: enc_tail_def enc_shift.simps dec_rest Let_def)
    next
      case (2 a)
      then show ?thesis using 1(2) unfolding e dec_loop.simps [of room] by (simp add: dec_tail_one tail_bytes(1) del: of_nat_mult)
    next
      case (3 a b)
      obtain x where x: "x = unat a * 256 + unat b" by simp
      show ?thesis using 1(2) 3 unfolding e dec_loop.simps [of room]
        by (simp add: dec_tail_two [OF x] tail_bytes(2) [OF x] del: of_nat_mult)
    next
      case (4 a b c)
      have room: "room \<noteq> 0" using 1(2) 4 by simp
      show ?thesis
        unfolding e dec_loop.simps [of room] unfolding 4 dec_tail_three [OF refl] using room 1(2) 4
        by (simp only: sum.case prod.case if_False Let_def group_bytes [OF refl] dec_rest validity_check.simps) (simp add: sextet_end(1))
    qed
  qed
qed

text \<open>The text itself: its characters, its length and its first character.\<close>

lemma b64_char: "k < 64 \<Longrightarrow> b64 ! k \<in> set b64"
  by (rule nth_mem) (simp add: b64_def)

lemma low6_less: "unat (v AND 0x3f) < 64" for v :: u32
  by (simp add: unat_low6)

lemma enc_shift_chars: "set (enc_shift v n) \<subseteq> set b64"
proof (induction v n rule: enc_shift.induct)
  case (1 v n)
  then show ?case using b64_char [OF low6_less] by (subst enc_shift.simps) auto
qed

lemma high6_less: "unat (drop_bit 26 v) < 64" for v :: u32
proof -
  have "unat v < 2 ^ 32" using unsigned_less [of v] by simp
  then show ?thesis by (simp only: unat_drop) simp
qed

lemma enc_group_chars: "set (enc_group v) \<subseteq> set b64" "length (enc_group v) = 4"
  using b64_char [OF low6_less] b64_char [OF high6_less] by (simp_all add: enc_group_def)

lemma enc_tail_chars: "set (enc_tail bs) \<subseteq> set b64 \<union> {CHR ''=''}"
  using enc_shift_chars by (fastforce simp: enc_tail_def Let_def)

lemma enc_chars: "set (enc_loop bs) \<subseteq> set b64 \<union> {CHR ''=''}"
proof (induction bs rule: enc_loop.induct)
  case (1 bs)
  show ?case
  proof (cases "length bs > 3")
    case True
    then show ?thesis using 1 enc_group_chars(1) by (subst enc_loop.simps) fastforce
  next
    case False
    then show ?thesis using enc_tail_chars by (subst enc_loop.simps) simp
  qed
qed

lemma short_cases:
  assumes "length bs \<le> 3"
  obtains "bs = []" | a where "bs = [a]" | a b where "bs = [a, b]" | a b c where "bs = [a, b, c]"
  using assms by (cases bs rule: remdups_adj.cases; cases "tl (tl bs)" rule: remdups_adj.cases) auto

lemma enc_length: "length (enc_loop bs) + 1 = AV_BASE64_SIZE (length bs)"
proof (induction bs rule: enc_loop.induct)
  case (1 bs)
  show ?case
  proof (cases "length bs > 3")
    case True
    then have "enc_loop bs = enc_group (AV_RB32 bs 0) @ enc_loop (drop 3 bs)" by (subst enc_loop.simps) simp
    moreover have "(length bs - 3 + 2) div 3 + 1 = (length bs + 2) div 3" using True by auto
    ultimately show ?thesis using 1 [OF True] True by (simp add: enc_group_chars(2) AV_BASE64_SIZE_def)
  next
    case False
    then have e: "enc_loop bs = enc_tail bs" by (subst enc_loop.simps) simp
    from False have "length bs \<le> 3" by simp
    then show ?thesis unfolding e
      by (cases bs rule: short_cases)
        (simp_all add: enc_tail_one [OF refl] enc_tail_two [OF refl] enc_tail_three [OF refl] AV_BASE64_SIZE_def enc_tail_def
          enc_shift.simps Let_def)
  qed
qed

lemma enc_first: "hd (enc_loop (a # bs)) = b64 ! (unat a div 4)"
proof (cases "length (a # bs) > 3")
  case True
  then obtain b c d r where bs: "bs = b # c # d # r"
    by (cases bs rule: remdups_adj.cases; cases "tl (tl bs)") auto
  let ?x = "unat a * 65536 + unat b * 256 + unat c"
  have "unat (AV_RB32 (a # bs) 0) div 256 = ?x" using byte_less [of d] by (simp add: bs AV_RB32_def unat_rb32)
  note g = enc_group_quad [OF this]
  have "?x div 65536 = unat a" using byte_less [of b] byte_less [of c] by (intro div_nat_eqI) auto
  then have "?x div 2 ^ 18 = unat a div 4" using div_mult2_eq [of ?x 65536 4] by simp
  then show ?thesis using True by (subst enc_loop.simps) (simp only: if_True g list.map append.simps list.sel)
next
  case False
  then have e: "enc_loop (a # bs) = enc_tail (a # bs)" by (subst enc_loop.simps) simp
  have l: "unat a div 4 < 64" using byte_less [of a] by simp
  from False consider "bs = []" | b where "bs = [b]" | b c where "bs = [b, c]"
    by (cases bs rule: remdups_adj.cases) auto
  then show ?thesis
  proof cases
    case 1
    then show ?thesis unfolding e using l by (simp add: enc_tail_one [OF refl])
  next
    case (2 b)
    have "(unat a * 256 + unat b) div 256 = unat a" using byte_less [of b] by (intro div_nat_eqI) auto
    then have "(unat a * 256 + unat b) * 64 div 2 ^ 16 = unat a div 4"
      using div_mult2_eq [of "unat a * 256 + unat b" 256 4] by simp
    then show ?thesis unfolding e using l by (simp only: 2 enc_tail_two [OF refl] list.sel mod_less)
  next
    case (3 b c)
    let ?x = "unat a * 65536 + unat b * 256 + unat c"
    have "?x div 65536 = unat a" using byte_less [of b] byte_less [of c] by (intro div_nat_eqI) auto
    then have "?x * 64 div 2 ^ 24 = unat a div 4" using div_mult2_eq [of ?x 65536 4] by simp
    then show ?thesis unfolding e using l by (simp only: 3 enc_tail_three [OF refl] list.sel mod_less)
  qed
qed

text \<open>
  C16. What was encoded in Base64 is decoded to the same bytes, for every sequence of bytes and every
  output buffer that has room for them.
\<close>

theorem base64_roundtrip:
  assumes "av_base64_encode out_size bs = Some t" "length bs \<le> n"
  shows "av_base64_decode t n = Ok bs"
  using assms dec_enc [OF assms(2)] by (auto simp: av_base64_encode_def av_base64_decode_def split: if_splits)

theorem base64_roundtrip_witness:
  "\<exists>t. av_base64_encode 9 [0x67, 0x42, 0, 0x1f] = Some t \<and> av_base64_decode t 16 = Ok [0x67, 0x42, 0, 0x1f]"
proof -
  have "av_base64_encode 9 [0x67, 0x42, 0, 0x1f] = Some (enc_loop [0x67, 0x42, 0, 0x1f])"
    by (simp add: av_base64_encode_def AV_BASE64_SIZE_def)
  from base64_roundtrip [OF this, of 16] this show ?thesis by simp
qed

text \<open>
  How far the decoder writes: never more than one byte beyond the buffer. The byte is written when the last
  group has three characters and the buffer has room for one byte of it.
\<close>

theorem decoder_writes:
  "length (fst (dec_loop n s)) \<le> n + 1"
proof (induction n s rule: dec_loop.induct)
  case (1 room s)
  have o: "length (dec_out i v) \<le> room + 1" if "room \<noteq> 0" for i v using that by (simp add: dec_out_def)
  show ?case
    using 1 o by (subst dec_loop.simps) (fastforce simp: dec_group_def split: sum.split prod.split)
qed

lemma decoder_overflow: "av_base64_decode ''AAA='' 1 = Ok [0, 0]"
  by code_simp

end
