(* ===== verification/H264Sdp.thy ===== *)
theory H264Sdp
  imports RtpH264 RtpUnits Base64
begin

text \<open>
  The H.264 parameters in a session description: what the sender writes
  (\<^verbatim>\<open>libavformat/sdp.c\<close>, \<^verbatim>\<open>ff_data_to_hex\<close> of \<^verbatim>\<open>utils.c\<close>,
  \<^verbatim>\<open>ff_avc_write_annexb_extradata\<close> of \<^verbatim>\<open>avc.c\<close>), and what the payload handler reads
  (\<^verbatim>\<open>rtpdec_h264.c\<close>, \<^verbatim>\<open>ff_parse_fmtp\<close> of \<^verbatim>\<open>rtpdec.c\<close>, the words of \<^verbatim>\<open>rtsp.c\<close>). The
  parameter sets of the sender arrive at the receiver. Strings have no NUL character; the
  position in a string is the rest of it.
\<close>

section \<open>Attributes and values\<close>

definition SPACE_CHARS :: string where
  "SPACE_CHARS = [CHR '' '', CHR 0x09, CHR 0x0D, CHR 0x0A]"

definition skip_spaces :: "string \<Rightarrow> string" where
  "skip_spaces p = dropWhile (\<lambda>c. c \<in> set SPACE_CHARS) p"

text \<open>One character \<open>c\<close> is skipped where it is the next.\<close>

definition skip_char :: "char \<Rightarrow> string \<Rightarrow> string" where
  "skip_char c p = (case p of [] \<Rightarrow> [] | x # r \<Rightarrow> if x = c then r else p)"

definition get_word_until_chars :: "nat \<Rightarrow> string \<Rightarrow> string \<Rightarrow> string \<times> string" where
  "get_word_until_chars buf_size sep p =
     (let p = skip_spaces p
      in (take (buf_size - 1) (takeWhile (\<lambda>c. c \<notin> set sep) p), dropWhile (\<lambda>c. c \<notin> set sep) p))"

definition get_word_sep :: "nat \<Rightarrow> string \<Rightarrow> string \<Rightarrow> string \<times> string" where
  "get_word_sep buf_size sep p = get_word_until_chars buf_size sep (skip_char (CHR ''/'') p)"

definition ff_rtsp_next_attr_and_value :: "nat \<Rightarrow> nat \<Rightarrow> string \<Rightarrow> (string \<times> string \<times> string) option" where
  "ff_rtsp_next_attr_and_value attr_size value_size p =
     (let p = skip_spaces p
      in if p = [] then None
         else
           let (attr, p) = get_word_sep attr_size ''='' p;
               p = skip_char (CHR ''='') p;
               (val, p) = get_word_sep value_size '';'' p
           in Some (attr, val, skip_char (CHR '';'') p))"

lemma word_lengths [simp]:
  "length (skip_spaces p) \<le> length p" "length (skip_char c p) \<le> length p"
  "length (snd (get_word_sep n sep p)) \<le> length p"
proof -
  show s: "length (skip_spaces p) \<le> length p" and c: "length (skip_char c p) \<le> length p" for p c
    by (auto simp: skip_spaces_def skip_char_def length_dropWhile_le split: list.split)
  have "length (snd (get_word_sep n sep p)) \<le> length (skip_spaces (skip_char (CHR ''/'') p))"
    by (simp add: get_word_sep_def get_word_until_chars_def length_dropWhile_le Let_def)
  also have "\<dots> \<le> length p" using s [of "skip_char (CHR ''/'') p"] c [of "CHR ''/''" p] by simp
  finally show "length (snd (get_word_sep n sep p)) \<le> length p" .
qed

text \<open>Every attribute takes at least one character.\<close>

lemma attr_progress:
  assumes "ff_rtsp_next_attr_and_value m n p = Some (a, v, q)"
  shows "length q < length p"
proof -
  define r where "r = skip_spaces p"
  define w where "w = snd (get_word_sep m ''='' r)"
  have q: "q = skip_char (CHR '';'') (snd (get_word_sep n '';'' (skip_char (CHR ''='') w)))" and r: "r \<noteq> []"
    using assms by (auto simp: ff_rtsp_next_attr_and_value_def r_def w_def Let_def split: if_splits prod.splits)
  then obtain c t where ct: "r = c # t" by (cases r) auto
  have "length (skip_char (CHR ''='') w) < length r"
  proof (cases "c = CHR ''='' \<or> c = CHR ''/''")
    case True
    then show ?thesis
    proof
      assume e: "c = CHR ''=''"
      then have "skip_spaces r = r" by (simp add: ct skip_spaces_def SPACE_CHARS_def)
      then show ?thesis by (simp add: w_def get_word_sep_def get_word_until_chars_def ct e skip_char_def Let_def)
    next
      assume e: "c = CHR ''/''"
      have "length w \<le> length t"
      proof -
        have "length w \<le> length (skip_spaces t)"
          by (simp add: w_def get_word_sep_def get_word_until_chars_def ct e skip_char_def Let_def length_dropWhile_le)
        also have "\<dots> \<le> length t" by simp
        finally show ?thesis .
      qed
      then show ?thesis using word_lengths(2) [of "CHR ''=''" w] by (simp del: word_lengths add: ct)
    qed
  next
    case False
    then have "length w \<le> length t"
    proof -
      have "c \<notin> set SPACE_CHARS" using hd_dropWhile [of "\<lambda>c. c \<in> set SPACE_CHARS" p] r ct by (simp add: r_def skip_spaces_def)
      with False show ?thesis
        by (simp add: w_def get_word_sep_def get_word_until_chars_def ct skip_char_def skip_spaces_def Let_def length_dropWhile_le)
    qed
    then show ?thesis using word_lengths(2) [of "CHR ''=''" w] by (simp del: word_lengths add: ct)
  qed
  moreover have "length q \<le> length (skip_char (CHR ''='') w)"
    unfolding q by (meson word_lengths(2,3) order_trans)
  moreover have "length r \<le> length p" by (simp add: r_def)
  ultimately show ?thesis by linarith
qed

text \<open>\<open>ff_parse_fmtp\<close> gives every attribute to \<open>parse\<close>; a missing feature is passed over. \<open>alloc\<close> tells
  whether the buffer for the value could be allocated.\<close>

function fmtp_loop :: "(string \<Rightarrow> string \<Rightarrow> 's \<Rightarrow> unit res \<times> 's) \<Rightarrow> nat \<Rightarrow> string \<Rightarrow> 's \<Rightarrow> unit res \<times> 's" where
  "fmtp_loop parse value_size p s =
     (case ff_rtsp_next_attr_and_value 256 value_size p of
        None \<Rightarrow> (Ok (), s)
      | Some (attr, val, q) \<Rightarrow>
          (case parse attr val s of
             (Inl e, s) \<Rightarrow> if e \<noteq> AVERROR_PATCHWELCOME then (Err e, s) else fmtp_loop parse value_size q s
           | (Inr _, s) \<Rightarrow> fmtp_loop parse value_size q s))"
  by pat_completeness auto
termination
  by (relation "measure (\<lambda>(parse, n, p, s). length p)") (auto dest: attr_progress)

declare fmtp_loop.simps [simp del]

definition ff_parse_fmtp :: "(string \<Rightarrow> string \<Rightarrow> 's \<Rightarrow> unit res \<times> 's) \<Rightarrow> bool \<Rightarrow> string \<Rightarrow> 's \<Rightarrow> unit res \<times> 's" where
  "ff_parse_fmtp parse alloc p s =
     (if \<not> alloc then (Err ENOMEM, s)
      else fmtp_loop parse (length p + 1)
        (dropWhile ((=) (CHR '' '')) (dropWhile ((\<noteq>) (CHR '' '')) (dropWhile ((=) (CHR '' '')) p))) s)"

section \<open>What the payload handler reads\<close>

text \<open>\<open>strtol\<close> with base 16 on two characters, where no digit can follow a prefix \<open>0x\<close>; \<open>atoi\<close> as long as the
  number fits an \<open>int\<close>.\<close>

definition isspace :: "char \<Rightarrow> bool" where
  "isspace c \<longleftrightarrow> (of_char c :: nat) \<in> {9, 10, 11, 12, 13, 32}"

definition signed_number :: "int \<Rightarrow> (char \<Rightarrow> bool) \<Rightarrow> string \<Rightarrow> int" where
  "signed_number base digit s =
     (let s = dropWhile isspace s;
          neg = (s \<noteq> [] \<and> hd s = CHR ''-'');
          s = (if s \<noteq> [] \<and> hd s \<in> {CHR ''-'', CHR ''+''} then tl s else s);
          n = foldl (\<lambda>v c. v * base + xdigit_to_int c) 0 (takeWhile digit s)
      in if neg then - n else n)"

definition strtol16 :: "string \<Rightarrow> int" where
  "strtol16 s = signed_number 16 (\<lambda>c. 0 \<le> xdigit_to_int c) s"

definition atoi :: "string \<Rightarrow> int" where
  "atoi s = signed_number 10 (\<lambda>c. 0 \<le> xdigit_to_int c \<and> xdigit_to_int c < 10) s"

definition parse_profile_level_id :: "string \<Rightarrow> PayloadContext \<Rightarrow> PayloadContext" where
  "parse_profile_level_id value ctx =
     ctx\<lparr>profile_idc := word_of_int (strtol16 (take 2 value)),
       profile_iop := word_of_int (strtol16 (take 2 (drop 2 value))),
       level_idc := word_of_int (strtol16 (take 2 (drop 4 value)))\<rparr>"

text \<open>\<open>mem\<close> tells whether a block of a size can be had. The text of a set is cut after 1023 characters; what is
  left of it is taken for the next set.\<close>

definition set_text :: "string \<Rightarrow> string" where
  "set_text value = take 1023 (takeWhile ((\<noteq>) (CHR '','')) value)"

function ff_h264_parse_sprop_parameter_sets :: "(nat \<Rightarrow> bool) \<Rightarrow> string \<Rightarrow> bytes \<Rightarrow> unit res \<times> bytes" where
  "ff_h264_parse_sprop_parameter_sets mem value data =
     (if value = [] then (Ok (), data)
      else
        let base64packet = set_text value;
            value = skip_char (CHR '','') (drop (length base64packet) value)
        in case av_base64_decode base64packet 1024 of
             Inr (b # bs) \<Rightarrow>
               if mem (length (b # bs) + 4 + length data + 64)
               then ff_h264_parse_sprop_parameter_sets mem value (data @ start_sequence @ b # bs)
               else (Err ENOMEM, data)
           | _ \<Rightarrow> ff_h264_parse_sprop_parameter_sets mem value data)"
  by pat_completeness auto
termination
proof -
  have "length (skip_char (CHR '','') (drop (length (set_text s)) s)) < length s" if ne: "s \<noteq> []" for s
  proof (cases "set_text s = []")
    case True
    then obtain t where "s = CHR '','' # t" using ne by (cases s) (auto simp: set_text_def split: if_splits)
    then show ?thesis unfolding True by (simp add: skip_char_def)
  next
    case False
    then have "length (drop (length (set_text s)) s) < length s" using ne by (cases s) auto
    then show ?thesis using word_lengths(2) [of "CHR '',''" "drop (length (set_text s)) s"] by (rule order_le_less_trans [rotated])
  qed
  then show ?thesis by (relation "measure (\<lambda>(mem, s, data). length s)") auto
qed

declare ff_h264_parse_sprop_parameter_sets.simps [simp del]

type_synonym sdp_state = "PayloadContext \<times> AVCodecParameters"

definition sdp_parse_fmtp_config_h264 ::
    "(nat \<Rightarrow> bool) \<Rightarrow> string \<Rightarrow> string \<Rightarrow> sdp_state \<Rightarrow> unit res \<times> sdp_state" where
  "sdp_parse_fmtp_config_h264 mem attr value s =
     (let (ctx, par) = s
      in if attr = ''packetization-mode'' then (Ok (), ctx\<lparr>packetization_mode := atoi value\<rparr>, par)
         else if attr = ''profile-level-id'' then
           (Ok (), if length value = 6 then parse_profile_level_id value ctx else ctx, par)
         else if attr = ''sprop-parameter-sets'' then
           if value = [] \<or> last value = CHR '','' then (Ok (), s)
           else case ff_h264_parse_sprop_parameter_sets mem value [] of
                  (r, data) \<Rightarrow> (r, ctx, par\<lparr>par_extradata := data\<rparr>)
         else (Ok (), s))"

text \<open>\<open>None\<close> is a read beyond the end of the text, which happens when it has no minus sign.\<close>

definition ff_h264_parse_framesize :: "string \<Rightarrow> AVCodecParameters \<Rightarrow> AVCodecParameters option" where
  "ff_h264_parse_framesize p par =
     (let p = dropWhile ((=) (CHR '' '')) (dropWhile ((\<noteq>) (CHR '' '')) (dropWhile ((=) (CHR '' '')) p));
          buf1 = take 49 (takeWhile ((\<noteq>) (CHR ''-'')) p);
          p = drop (length buf1) p
      in if p = [] then None else Some (par\<lparr>par_width := atoi buf1, par_height := atoi (tl p)\<rparr>))"

definition av_strstart :: "string \<Rightarrow> string \<Rightarrow> string option" where
  "av_strstart str pfx = (if take (length pfx) str = pfx then Some (drop (length pfx) str) else None)"

definition parse_h264_sdp_line ::
    "(nat \<Rightarrow> bool) \<Rightarrow> int \<Rightarrow> string \<Rightarrow> sdp_state \<Rightarrow> (unit res \<times> sdp_state) option" where
  "parse_h264_sdp_line mem idx line s =
     (if idx < 0 then Some (Ok (), s)
      else case av_strstart line ''framesize:'' of
             Some p \<Rightarrow> map_option (\<lambda>par. (Ok (), fst s, par)) (ff_h264_parse_framesize p (snd s))
           | None \<Rightarrow>
               (case av_strstart line ''fmtp:'' of
                  Some p \<Rightarrow> Some (ff_parse_fmtp (sdp_parse_fmtp_config_h264 mem) (mem (length p + 1)) p s)
                | None \<Rightarrow> Some (Ok (), s)))"

section \<open>What the sender writes\<close>

definition hex_table_uc :: string where "hex_table_uc = ''0123456789ABCDEF''"
definition hex_table_lc :: string where "hex_table_lc = ''0123456789abcdef''"

definition ff_data_to_hex :: "bytes \<Rightarrow> bool \<Rightarrow> string" where
  "ff_data_to_hex src lowercase =
     (let hex_table = (if lowercase then hex_table_lc else hex_table_uc)
      in concat (map (\<lambda>b. [hex_table ! unat (drop_bit 4 b), hex_table ! unat (b AND 0xf)]) src))"

text \<open>The first parameter sets of an \<open>avcC\<close> record as a byte stream. The result \<open>Ok None\<close> is success
  without a new buffer; \<open>alloc\<close> tells whether there is one.\<close>

definition ff_avc_write_annexb_extradata :: "bool \<Rightarrow> bytes \<Rightarrow> bytes option res" where
  "ff_avc_write_annexb_extradata alloc d =
     (if length d \<ge> 4 \<and> (take 4 d = [0, 0, 0, 1] \<or> take 3 d = [0, 0, 1]) then Ok None
      else if length d < 11 \<or> d ! 0 \<noteq> 1 then Err AVERROR_INVALIDDATA
      else
        let sps_size = unat (AV_RB16 d 6)
        in if 11 + sps_size > length d then Err AVERROR_INVALIDDATA
           else
             let pps_size = unat (AV_RB16 d (9 + sps_size))
             in if 11 + sps_size + pps_size > length d then Err AVERROR_INVALIDDATA
                else if \<not> alloc then Err ENOMEM
                else Ok (Some ([0, 0, 0, 1] @ take sps_size (drop 8 d)
                       @ [0, 0, 0, 1] @ take pps_size (drop (11 + sps_size) d))))"

definition MAX_EXTRADATA_SIZE :: nat where "MAX_EXTRADATA_SIZE = (2 ^ 31 - 1 - 10) div 2"
definition MAX_PSET_SIZE :: nat where "MAX_PSET_SIZE = 1024"
definition pset_string :: string where "pset_string = '';sprop-parameter-sets=''"
definition profile_string :: string where "profile_string = '';profile-level-id=''"

text \<open>The loop over the units: the text so far and the first parameter set. The type of an empty unit is read
  from the start code or the padding behind it, which is 0.\<close>

definition nal_type_of :: "bytes \<Rightarrow> u8" where
  "nal_type_of u = (case u of [] \<Rightarrow> 0 | b # _ \<Rightarrow> b AND 0x1f)"

fun psets_loop :: "bytes list \<Rightarrow> string \<Rightarrow> bytes option \<Rightarrow> (string \<times> bytes option) res" where
  "psets_loop [] p sps = Ok (p, sps)"
| "psets_loop (u # us) p sps =
     (if nal_type_of u \<noteq> 7 \<and> nal_type_of u \<noteq> 8 then psets_loop us p sps
      else
        let p = (if length p \<noteq> length pset_string then p @ '','' else p);
            sps = (if sps = None then Some u else sps)
        in case av_base64_encode (MAX_PSET_SIZE - length p) u of
             None \<Rightarrow> Err AVERROR_INVALIDDATA
           | Some t \<Rightarrow> psets_loop us (p @ t) sps)"

definition write_profile :: "string \<times> bytes option \<Rightarrow> string" where
  "write_profile r =
     (case r of
        (p, Some sps) \<Rightarrow>
          if length sps \<ge> 4 \<and> length p \<le> MAX_PSET_SIZE - length profile_string - 7
          then p @ profile_string @ ff_data_to_hex (take 3 (drop 1 sps)) False else p
      | (p, None) \<Rightarrow> p)"

text \<open>The units are cut like those of an access unit. \<open>None\<close> is undefined behaviour there, or a missing
  buffer; \<open>al\<close> is the address of the extradata modulo 4, the caller has tested that there is some.\<close>

definition psets_of :: "nat \<Rightarrow> bytes \<Rightarrow> string res option" where
  "psets_of al ext =
     map_option (\<lambda>us. map_sum id write_profile (psets_loop us pset_string None)) (access_units al 0 ext)"

definition extradata2psets :: "nat \<Rightarrow> bool \<Rightarrow> bytes \<Rightarrow> string res option" where
  "extradata2psets al alloc ext =
     (if length ext > MAX_EXTRADATA_SIZE then Some (Err AVERROR_INVALIDDATA)
      else if ext ! 0 = 1 then
        (case ff_avc_write_annexb_extradata alloc ext of
           Inl e \<Rightarrow> Some (Err e)
         | Inr None \<Rightarrow> None
         | Inr (Some out) \<Rightarrow> psets_of 0 out)
      else if \<not> alloc then Some (Err ENOMEM) else psets_of al ext)"

text \<open>The attributes of an H.264 stream, without the limit on the text; the receiver's handler gets the second
  line behind its \<open>a=\<close>.\<close>

definition h264_fmtp :: "int \<Rightarrow> int \<Rightarrow> string option \<Rightarrow> string" where
  "h264_fmtp pt mode conf =
     ''fmtp:'' @ fmt_d pt @ '' packetization-mode='' @ fmt_d mode
       @ (case conf of None \<Rightarrow> [] | Some c \<Rightarrow> c)"

definition h264_attributes :: "int \<Rightarrow> int \<Rightarrow> string option \<Rightarrow> string" where
  "h264_attributes pt mode conf =
     ''a=rtpmap:'' @ fmt_d pt @ '' H264/90000'' @ [CHR 0x0D, CHR 0x0A]
       @ ''a='' @ h264_fmtp pt mode conf @ [CHR 0x0D, CHR 0x0A]"

section \<open>The receiver reads what the sender wrote\<close>

text \<open>The alphabet has none of the characters with a meaning of their own.\<close>

lemma plain_chars: "c \<in> set b64 \<union> {CHR ''=''} \<Longrightarrow> c \<noteq> CHR '','' \<and> c \<noteq> CHR '';'' \<and> c \<notin> set SPACE_CHARS"
  by (auto simp: b64_def SPACE_CHARS_def)

lemma enc_plain: "c \<in> set (enc_loop u) \<Longrightarrow> c \<noteq> CHR '','' \<and> c \<noteq> CHR '';'' \<and> c \<notin> set SPACE_CHARS"
  using enc_chars plain_chars by blast

definition is_pset :: "bytes \<Rightarrow> bool" where
  "is_pset u \<longleftrightarrow> nal_type_of u = 7 \<or> nal_type_of u = 8"

lemma pset_nonempty: "is_pset u \<Longrightarrow> u \<noteq> []"
  by (auto simp: is_pset_def nal_type_of_def)

lemma slash_all: "list_all (\<lambda>k. (of_nat k AND 0x1f :: u8) = 7 \<or> (of_nat k AND 0x1f :: u8) = 8 \<longrightarrow> b64 ! (k div 4) \<noteq> CHR ''/'') [0..<256]"
  by code_simp

lemma pset_first:
  assumes "is_pset u"
  shows "enc_loop u \<noteq> []" "hd (enc_loop u) \<noteq> CHR ''/''"
proof -
  obtain a r where u: "u = a # r" using pset_nonempty [OF assms] by (cases u) auto
  have "unat a \<in> set [0..<256]" using byte_less [of a] by simp
  then have "(of_nat (unat a) AND 0x1f :: u8) = 7 \<or> (of_nat (unat a) AND 0x1f :: u8) = 8 \<longrightarrow> b64 ! (unat a div 4) \<noteq> CHR ''/''"
    using slash_all unfolding list_all_iff by blast
  then show "hd (enc_loop u) \<noteq> CHR ''/''" using assms by (auto simp: u enc_first is_pset_def nal_type_of_def)
  have "1 < AV_BASE64_SIZE (length u)" by (simp add: u AV_BASE64_SIZE_def)
  then show "enc_loop u \<noteq> []" using enc_length [of u] by auto
qed

text \<open>The text of the sets, and its parsing.\<close>

definition more_sets :: "bytes list \<Rightarrow> string" where
  "more_sets us = concat (map (\<lambda>u. CHR '','' # enc_loop u) us)"

lemma more_sets_simps [simp]: "more_sets [] = []" "more_sets (u # us) = CHR '','' # enc_loop u @ more_sets us"
  by (simp_all add: more_sets_def)

definition small_set :: "bytes \<Rightarrow> bool" where
  "small_set u \<longleftrightarrow> is_pset u \<and> AV_BASE64_SIZE (length u) \<le> 1024"

lemma set_decoded:
  assumes "small_set u"
  shows "av_base64_decode (enc_loop u) 1024 = Ok u"
proof -
  have "(length u + 2) div 3 * 4 \<le> 1023" using assms by (simp add: small_set_def AV_BASE64_SIZE_def)
  then have "length u \<le> 1024" by presburger
  then show ?thesis by (simp add: av_base64_decode_def dec_enc)
qed

lemma set_text_first:
  assumes "small_set u" "r = [] \<or> hd r = CHR '',''"
  shows "set_text (enc_loop u @ r) = enc_loop u"
proof -
  have "takeWhile ((\<noteq>) (CHR '','')) (enc_loop u @ r) = enc_loop u @ takeWhile ((\<noteq>) (CHR '','')) r"
    using enc_plain by (intro takeWhile_append2) metis
  moreover have "takeWhile ((\<noteq>) (CHR '','')) r = []" using assms(2) by (cases r) auto
  moreover have "length (enc_loop u) \<le> 1023" using enc_length [of u] assms(1) by (simp add: small_set_def)
  ultimately show ?thesis by (simp add: set_text_def)
qed

lemma sprop_first:
  assumes "small_set u" "r = [] \<or> hd r = CHR '',''"
  shows "ff_h264_parse_sprop_parameter_sets (\<lambda>_. True) (enc_loop u @ r) data
    = ff_h264_parse_sprop_parameter_sets (\<lambda>_. True) (skip_char (CHR '','') r) (data @ start_sequence @ u)"
proof -
  have p: "is_pset u" using assms(1) by (simp add: small_set_def)
  obtain b bs where u: "u = b # bs" using pset_nonempty [OF p] by (cases u) auto
  have d: "drop (length (enc_loop u)) (enc_loop u @ r) = r" by simp
  have ne: "enc_loop u @ r \<noteq> []" using pset_first(1) [OF p] by simp
  show ?thesis
    unfolding ff_h264_parse_sprop_parameter_sets.simps [of "\<lambda>_. True" "enc_loop u @ r"] if_not_P [OF ne]
      set_text_first [OF assms] set_decoded [OF assms(1)] Let_def d
    by (simp add: u)
qed

lemma sprop_all:
  "list_all small_set (u # us) \<Longrightarrow> ff_h264_parse_sprop_parameter_sets (\<lambda>_. True) (enc_loop u @ more_sets us) data
    = (Ok (), data @ annexb (u # us))"
proof (induction us arbitrary: u data)
  case Nil
  then show ?case using sprop_first [of u "[]" data]
    by (simp add: skip_char_def ff_h264_parse_sprop_parameter_sets.simps [of "\<lambda>_. True" "[]"])
next
  case (Cons v us)
  then show ?case using sprop_first [of u "more_sets (v # us)" data] by (simp add: skip_char_def)
qed

text \<open>The text the sender makes.\<close>

lemma psets_step:
  "\<not> is_pset u \<Longrightarrow> psets_loop (u # us) p sps = psets_loop us p sps"
  "is_pset u \<Longrightarrow> p' = (if length p \<noteq> length pset_string then p @ '','' else p)
     \<Longrightarrow> av_base64_encode (MAX_PSET_SIZE - length p') u = Some t
     \<Longrightarrow> psets_loop (u # us) p sps = psets_loop us (p' @ t) (if sps = None then Some u else sps)"
  by (auto simp: is_pset_def Let_def)

lemma psets_more:
  assumes "length pset_string < length p" "length p + sum_list (map (\<lambda>u. AV_BASE64_SIZE (length u)) (filter is_pset us)) \<le> 1023"
  shows "psets_loop us p (Some s) = Ok (p @ more_sets (filter is_pset us), Some s)"
  using assms
proof (induction us arbitrary: p)
  case (Cons u us)
  show ?case
  proof (cases "is_pset u")
    case True
    have l: "length (enc_loop u) + 1 = AV_BASE64_SIZE (length u)" by (rule enc_length)
    have "length u < (2 ^ 32 - 1) div 4" using Cons.prems(2) True by (simp add: AV_BASE64_SIZE_def)
    then have e: "av_base64_encode (MAX_PSET_SIZE - length (p @ '','')) u = Some (enc_loop u)"
      using Cons.prems(2) True by (simp add: av_base64_encode_def MAX_PSET_SIZE_def)
    have "psets_loop us (p @ '','' @ enc_loop u) (Some s) = Ok ((p @ '','' @ enc_loop u) @ more_sets (filter is_pset us), Some s)"
      using Cons.prems True l by (intro Cons.IH) simp_all
    then show ?thesis using True Cons.prems(1) psets_step(2) [OF True _ e, of p us "Some s"] by simp
  qed (use Cons in \<open>simp add: psets_step(1) del: psets_loop.simps\<close>)
qed simp

lemma psets_first:
  assumes "filter is_pset us = u # r" "sum_list (map (\<lambda>u. AV_BASE64_SIZE (length u)) (u # r)) \<le> 977"
  shows "psets_loop us pset_string None = Ok (pset_string @ enc_loop u @ more_sets r, Some u)"
  using assms(1)
proof (induction us)
  case (Cons v us)
  show ?case
  proof (cases "is_pset v")
    case True
    then have v: "v = u" "r = filter is_pset us" using Cons.prems by simp_all
    have l: "length (enc_loop u) + 1 = AV_BASE64_SIZE (length u)" by (rule enc_length)
    have ps: "length pset_string = 22" by (simp add: pset_string_def)
    have "length u < (2 ^ 32 - 1) div 4" using assms(2) by (simp add: AV_BASE64_SIZE_def)
    then have e: "av_base64_encode (MAX_PSET_SIZE - length pset_string) u = Some (enc_loop u)"
      using assms(2) ps by (simp add: av_base64_encode_def MAX_PSET_SIZE_def)
    have "0 < length (enc_loop u)" using pset_first(1) [of u] True v by simp
    then have "psets_loop us (pset_string @ enc_loop u) (Some u) = Ok ((pset_string @ enc_loop u) @ more_sets (filter is_pset us), Some u)"
      using assms(2) l v ps by (intro psets_more) simp_all
    then show ?thesis using psets_step(2) [OF _ _ e, of pset_string us None] True by (simp add: v)
  qed (use Cons in \<open>simp add: psets_step(1) del: psets_loop.simps\<close>)
qed simp

text \<open>An attribute with its value.\<close>

definition word_start :: "string \<Rightarrow> bool" where
  "word_start p \<longleftrightarrow> p \<noteq> [] \<and> hd p \<noteq> CHR ''/'' \<and> hd p \<notin> set SPACE_CHARS"

lemma word_starts [simp]: "word_start p \<Longrightarrow> skip_spaces p = p" "word_start p \<Longrightarrow> skip_char (CHR ''/'') p = p"
  "word_start p \<Longrightarrow> word_start (p @ q)"
  by (cases p; simp add: word_start_def skip_spaces_def skip_char_def)+

lemma get_word:
  assumes "word_start w" "\<forall>c \<in> set w. c \<notin> set sep" "length w < n" "r = [] \<or> hd r \<in> set sep"
  shows "get_word_sep n sep (w @ r) = (w, r)"
proof -
  have "takeWhile (\<lambda>c. c \<notin> set sep) (w @ r) = w" "dropWhile (\<lambda>c. c \<notin> set sep) (w @ r) = r"
    using assms(2,4) by (cases r; simp add: takeWhile_append dropWhile_append)+
  then show ?thesis using assms(1,3) by (simp add: get_word_sep_def get_word_until_chars_def Let_def)
qed

lemma next_attr:
  assumes "word_start a" "CHR ''='' \<notin> set a" "length a < m" "word_start v" "CHR '';'' \<notin> set v" "length v < n"
    "r = [] \<or> hd r = CHR '';''"
  shows "ff_rtsp_next_attr_and_value m n (a @ CHR ''='' # v @ r) = Some (a, v, skip_char (CHR '';'') r)"
proof -
  have a: "get_word_sep m ''='' (a @ CHR ''='' # v @ r) = (a, CHR ''='' # v @ r)"
    by (rule get_word) (use assms in auto)
  have v: "get_word_sep n '';'' (v @ r) = (v, r)" by (rule get_word) (use assms in auto)
  have "a \<noteq> []" using assms(1) by (simp add: word_start_def)
  then show ?thesis
    using assms(1) by (simp add: ff_rtsp_next_attr_and_value_def a v skip_char_def Let_def)
qed

lemma fmtp_step:
  assumes "ff_rtsp_next_attr_and_value 256 n p = Some (a, v, q)" "parse a v s = (Ok (), s')"
  shows "fmtp_loop parse n p s = fmtp_loop parse n q s'"
  using assms by (subst fmtp_loop.simps) simp

lemma fmtp_end: "fmtp_loop parse n [] s = (Ok (), s)"
  by (subst fmtp_loop.simps) (simp add: ff_rtsp_next_attr_and_value_def skip_spaces_def)

text \<open>The profile in hexadecimal.\<close>

lemma hex_digit:
  assumes "d < 16"
  shows "xdigit_to_int (hex_table_uc ! d) = int d" "\<not> isspace (hex_table_uc ! d)"
    "hex_table_uc ! d \<notin> set ''-+;/''" "hex_table_uc ! d \<notin> set SPACE_CHARS"
proof -
  have "d \<in> {0, 1, 2, 3, 4, 5, 6, 7, 8, 9, 10, 11, 12, 13, 14, 15}"
    using assms by (simp only: insert_iff empty_iff) presburger
  then show "xdigit_to_int (hex_table_uc ! d) = int d" "\<not> isspace (hex_table_uc ! d)"
    "hex_table_uc ! d \<notin> set ''-+;/''" "hex_table_uc ! d \<notin> set SPACE_CHARS"
    by (auto simp: hex_table_uc_def xdigit_to_int_def av_tolower_def isspace_def SPACE_CHARS_def)
qed

lemma strtol16_byte:
  "word_of_int (strtol16 [hex_table_uc ! unat (drop_bit 4 b), hex_table_uc ! unat (b AND 0xf)]) = b" for b :: u8
proof -
  note h = hex_digit [OF nibble_bounds(1) [of b]] and l = hex_digit [OF nibble_bounds(2) [of b]]
  have "strtol16 [hex_table_uc ! unat (drop_bit 4 b), hex_table_uc ! unat (b AND 0xf)]
      = int (unat (drop_bit 4 b)) * 16 + int (unat (b AND 0xf))"
    using h l by (simp add: strtol16_def signed_number_def Let_def)
  then have "word_of_int (strtol16 [hex_table_uc ! unat (drop_bit 4 b), hex_table_uc ! unat (b AND 0xf)])
      = drop_bit 4 b * 16 + (b AND 0xf)" by simp
  then show ?thesis by (simp only: nibbles)
qed

lemma profile_read:
  "parse_profile_level_id (ff_data_to_hex [a, b, c] False) ctx = ctx\<lparr>profile_idc := a, profile_iop := b, level_idc := c\<rparr>"
  by (simp add: parse_profile_level_id_def ff_data_to_hex_def strtol16_byte)

text \<open>Numbers have no space in them.\<close>

lemma digit_no_space: "d < 16 \<Longrightarrow> digit_char d \<noteq> CHR '' ''"
  using all_digits [of d] by (auto simp: xdigit_to_int_def av_tolower_def)

lemma nat_string_no_space: "CHR '' '' \<notin> set (nat_string b n) \<and> nat_string b n \<noteq> []"
  by (induction b n rule: nat_string.induct) (subst (1 2) nat_string.simps, auto simp: digit_no_space dest: sym)

lemma fmt_d_no_space: "CHR '' '' \<notin> set (fmt_d n)" "fmt_d n \<noteq> []"
  using nat_string_no_space by (simp_all add: fmt_d_def)

text \<open>The value of the parameter sets.\<close>

definition sets_value :: "bytes list \<Rightarrow> string" where
  "sets_value us = enc_loop (hd us) @ more_sets (tl us)"

lemma sets_value_word:
  assumes "is_pset u"
  shows "word_start (sets_value (u # us))" "CHR '';'' \<notin> set (sets_value (u # us))"
proof -
  obtain c t where e: "enc_loop u = c # t" using pset_first(1) [OF assms] by (cases "enc_loop u") auto
  then have "c \<notin> set SPACE_CHARS" using enc_plain [of c u] by simp
  then show "word_start (sets_value (u # us))"
    using pset_first(2) [OF assms] e by (simp add: word_start_def sets_value_def)
  show "CHR '';'' \<notin> set (sets_value (u # us))"
  proof
    assume "CHR '';'' \<in> set (sets_value (u # us))"
    then obtain v where "CHR '';'' \<in> set (enc_loop v)" by (auto simp: sets_value_def more_sets_def split: if_splits)
    then show False using enc_plain by blast
  qed
qed

lemma sets_value_last: "list_all is_pset (u # us) \<Longrightarrow> last (sets_value (u # us)) \<noteq> CHR '',''"
proof (induction us arbitrary: u)
  case Nil
  then have "last (enc_loop u) \<in> set (enc_loop u)" using pset_first(1) [of u] by simp
  then show ?case using enc_plain [of "last (enc_loop u)" u] by (simp add: sets_value_def)
next
  case (Cons v us)
  have "enc_loop v \<noteq> []" using Cons.prems pset_first(1) [of v] by simp
  then have "last (sets_value (u # v # us)) = last (sets_value (v # us))" by (simp add: sets_value_def)
  then show ?case using Cons.IH [of v] Cons.prems by simp
qed

text \<open>The three attributes of the sender.\<close>

lemma mode_text:
  assumes "mode \<in> {0, 1 :: int}"
  shows "word_start (fmt_d mode)" "CHR '';'' \<notin> set (fmt_d mode)" "atoi (fmt_d mode) = mode"
proof -
  have "fmt_d 0 = ''0''" "fmt_d 1 = ''1''"
    by (simp_all add: fmt_d_def nat_string.simps [of 10 0] nat_string.simps [of 10 1] nat_string.simps [of 10 "Suc 0"]
        digit_char_def)
  then show "word_start (fmt_d mode)" "CHR '';'' \<notin> set (fmt_d mode)" "atoi (fmt_d mode) = mode"
    using assms by (auto simp: word_start_def SPACE_CHARS_def atoi_def signed_number_def isspace_def xdigit_to_int_def
        av_tolower_def)
qed

lemma hex_text:
  "word_start (ff_data_to_hex [a, b, c] False)" "CHR '';'' \<notin> set (ff_data_to_hex [a, b, c] False)"
  "length (ff_data_to_hex [a, b, c] False) = 6"
proof -
  have x: "hex_table_uc ! d \<noteq> CHR '';''" "CHR '';'' \<noteq> hex_table_uc ! d" "hex_table_uc ! d \<noteq> CHR ''/''"
    "hex_table_uc ! d \<notin> set SPACE_CHARS" if "d < 16" for d
    using hex_digit(3,4) [OF that] by auto
  show "word_start (ff_data_to_hex [a, b, c] False)" "CHR '';'' \<notin> set (ff_data_to_hex [a, b, c] False)"
    "length (ff_data_to_hex [a, b, c] False) = 6"
    by (simp_all add: ff_data_to_hex_def word_start_def x nibble_bounds del: bit_0_eq)
qed

lemma h264_attributes_read:
  assumes "list_all small_set (u # r)" "mode \<in> {0, 1}" "u = h # a # b # c # t"
  defines "p \<equiv> ''packetization-mode'' @ CHR ''='' # fmt_d mode @ CHR '';'' # ''sprop-parameter-sets'' @ CHR ''='' # sets_value (u # r)
      @ CHR '';'' # ''profile-level-id'' @ CHR ''='' # ff_data_to_hex [a, b, c] False"
  assumes "length p < n"
  shows "fmtp_loop (sdp_parse_fmtp_config_h264 (\<lambda>_. True)) n p (ctx, par) =
    (Ok (), ctx\<lparr>packetization_mode := mode, profile_idc := a, profile_iop := b, level_idc := c\<rparr>,
     par\<lparr>par_extradata := annexb (u # r)\<rparr>)"
proof -
  let ?parse = "sdp_parse_fmtp_config_h264 (\<lambda>_. True)"
  let ?H = "''profile-level-id'' @ CHR ''='' # ff_data_to_hex [a, b, c] False"
  let ?S = "''sprop-parameter-sets'' @ CHR ''='' # sets_value (u # r) @ CHR '';'' # ?H"
  have ps: "list_all is_pset (u # r)" using assms(1) by (auto simp: small_set_def list_all_iff)
  then have u: "is_pset u" by simp
  have ne: "sets_value (u # r) \<noteq> []" using sets_value_word(1) [OF u, of r] by (simp add: word_start_def)
  have 1: "ff_rtsp_next_attr_and_value 256 n p = Some (''packetization-mode'', fmt_d mode, ?S)"
    using next_attr [of "''packetization-mode''" 256 "fmt_d mode" n "CHR '';'' # ?S"] mode_text [OF assms(2)] assms(5)
    by (simp add: p_def word_start_def SPACE_CHARS_def skip_char_def)
  have 2: "ff_rtsp_next_attr_and_value 256 n ?S = Some (''sprop-parameter-sets'', sets_value (u # r), ?H)"
    using next_attr [of "''sprop-parameter-sets''" 256 "sets_value (u # r)" n "CHR '';'' # ?H"] sets_value_word [OF u, of r] assms(5)
    by (simp add: p_def word_start_def SPACE_CHARS_def skip_char_def)
  have 3: "ff_rtsp_next_attr_and_value 256 n ?H = Some (''profile-level-id'', ff_data_to_hex [a, b, c] False, [])"
    using next_attr [of "''profile-level-id''" 256 "ff_data_to_hex [a, b, c] False" n "[]"] hex_text [of a b c] assms(5)
    by (simp add: p_def word_start_def SPACE_CHARS_def skip_char_def)
  have s1: "?parse ''packetization-mode'' (fmt_d mode) (ctx, par) = (Ok (), ctx\<lparr>packetization_mode := mode\<rparr>, par)" for ctx par
    using mode_text(3) [OF assms(2)] by (simp add: sdp_parse_fmtp_config_h264_def)
  have s2: "?parse ''sprop-parameter-sets'' (sets_value (u # r)) (ctx, par) = (Ok (), ctx, par\<lparr>par_extradata := annexb (u # r)\<rparr>)" for ctx par
    using ne sets_value_last [OF ps] sprop_all [OF assms(1), of "[]"]
    by (auto simp: sdp_parse_fmtp_config_h264_def sets_value_def)
  have s3: "?parse ''profile-level-id'' (ff_data_to_hex [a, b, c] False) (ctx, par)
      = (Ok (), ctx\<lparr>profile_idc := a, profile_iop := b, level_idc := c\<rparr>, par)" for ctx par
    by (simp add: sdp_parse_fmtp_config_h264_def hex_text(3) profile_read)
  note step = fmtp_step [where parse = ?parse]
  show ?thesis unfolding step [OF 1 s1] step [OF 2 s2] step [OF 3 s3] fmtp_end by simp
qed

text \<open>The extradata: a byte stream, or the \<open>avcC\<close> record of one set of each kind.\<close>

definition avcc_record :: "bytes \<Rightarrow> bytes \<Rightarrow> bytes \<Rightarrow> bytes" where
  "avcc_record h sps pps = 1 # h @ AV_WB16 (of_nat (length sps)) @ sps @ [1] @ AV_WB16 (of_nat (length pps)) @ pps"

lemma avcc_converted:
  assumes "length h = 5" "length sps < 65536" "length pps < 65536"
  shows "ff_avc_write_annexb_extradata True (avcc_record h sps pps) = Ok (Some (byte_stream [(True, sps), (True, pps)]))"
proof -
  let ?d = "avcc_record h sps pps"
  obtain a b c d e where h: "h = [a, b, c, d, e]" using assms(1) by (auto simp: length_Suc_conv numeral_eq_Suc)
  have s: "unat (AV_RB16 ?d 6) = length sps" using assms(2) AV_RB16_at [of "1 # h" 6 "of_nat (length sps)" "sps @ [1] @ AV_WB16 (of_nat (length pps)) @ pps"]
    by (simp add: avcc_record_def h unsigned_of_nat take_bit_nat_eq_self)
  have p: "unat (AV_RB16 ?d (9 + length sps)) = length pps"
    using assms(3) AV_RB16_at [of "1 # h @ AV_WB16 (of_nat (length sps)) @ sps @ [1]" "9 + length sps" "of_nat (length pps)" pps]
    by (simp add: avcc_record_def h unsigned_of_nat take_bit_nat_eq_self)
  define q where "q = 1 # h @ AV_WB16 (of_nat (length sps)) @ sps @ [1] @ AV_WB16 (of_nat (length pps))"
  have q: "?d = q @ pps" "length q = 11 + length sps" by (simp_all add: avcc_record_def q_def h)
  have "drop (11 + length sps) ?d = pps" unfolding q(1) using q(2) by simp
  then have t: "take (length sps) (drop 8 ?d) = sps" "take (length pps) (drop (11 + length sps) ?d) = pps"
    by (simp_all add: avcc_record_def h AV_WB16_def)
  have "length ?d = 11 + length sps + length pps" by (simp add: avcc_record_def h)
  then show ?thesis using s p t
    by (simp add: ff_avc_write_annexb_extradata_def start_code_def Let_def) (simp add: avcc_record_def h)
qed

definition carries_units :: "bytes \<Rightarrow> (bool \<times> bytes) list \<Rightarrow> bool" where
  "carries_units ext ns \<longleftrightarrow> ext = byte_stream ns
     \<or> (\<exists>h sps pps. length h = 5 \<and> length sps < 65536 \<and> length pps < 65536 \<and> ns = [(True, sps), (True, pps)]
          \<and> ext = avcc_record h sps pps)"

lemma psets_of_stream:
  assumes "\<forall>(z, n) \<in> set ns. n \<noteq> [] \<and> clean n" "filter is_pset (map snd ns) = u # r" "4 \<le> length u"
    "sum_list (map (\<lambda>u. AV_BASE64_SIZE (length u)) (u # r)) \<le> 977"
  shows "psets_of al (byte_stream ns)
    = Some (Ok (pset_string @ sets_value (u # r) @ profile_string @ ff_data_to_hex (take 3 (drop 1 u)) False))"
proof -
  have more: "length (more_sets r) = sum_list (map (\<lambda>u. AV_BASE64_SIZE (length u)) r)" for r
    by (induction r) (use enc_length in \<open>simp_all add: add.commute\<close>)
  have "length (pset_string @ enc_loop u @ more_sets r) + 1 = 22 + sum_list (map (\<lambda>u. AV_BASE64_SIZE (length u)) (u # r))"
    using enc_length [of u] by (simp add: more pset_string_def)
  then have "length (pset_string @ enc_loop u @ more_sets r) \<le> MAX_PSET_SIZE - length profile_string - 7"
    using assms(4) by (simp add: MAX_PSET_SIZE_def profile_string_def del: length_append)
  then show ?thesis
    using assms(3) unfolding psets_of_def access_units_stream [OF assms(1)] option.map psets_first [OF assms(2,4)] map_sum.simps
    by (simp add: write_profile_def sets_value_def del: length_append)
qed

lemma extradata_written:
  assumes "carries_units ext ns" "ns \<noteq> []" "\<forall>(z, n) \<in> set ns. n \<noteq> [] \<and> clean n" "length ext \<le> MAX_EXTRADATA_SIZE"
  shows "\<exists>al'. extradata2psets al True ext = psets_of al' (byte_stream ns)"
proof -
  from assms(1) consider "ext = byte_stream ns" | h sps pps where "length h = 5" "length sps < 65536" "length pps < 65536"
      "ns = [(True, sps), (True, pps)]" "ext = avcc_record h sps pps"
    unfolding carries_units_def by blast
  then show ?thesis
  proof cases
    case 1
    then have "ext ! 0 = 0" using assms(2) by (cases ns rule: byte_stream.cases) (auto simp: start_code_def)
    then show ?thesis using 1 assms(4) by (auto simp: extradata2psets_def)
  next
    case 2
    have "ext ! 0 = 1" by (simp add: 2(5) avcc_record_def)
    then show ?thesis using avcc_converted [OF 2(1-3)] 2(4,5) assms(4) by (auto simp: extradata2psets_def)
  qed
qed

lemma stripped_fmtp:
  "ff_parse_fmtp parse True (fmt_d pt @ CHR '' '' # c # p) s = fmtp_loop parse (length (fmt_d pt @ CHR '' '' # c # p) + 1) (c # p) s"
  if "c \<noteq> CHR '' ''"
proof -
  obtain d t where f: "fmt_d pt = d # t" "d \<noteq> CHR '' ''" "CHR '' '' \<notin> set t"
    using fmt_d_no_space [of pt] by (cases "fmt_d pt") auto
  have "dropWhile ((\<noteq>) (CHR '' '')) (t @ CHR '' '' # c # p) = CHR '' '' # c # p"
    using f(3) by (subst dropWhile_append2) auto
  then show ?thesis using that f(2) by (simp add: ff_parse_fmtp_def f(1))
qed

text \<open>
  C15. The parameter sets of an H.264 stream arrive at the receiver through the session description. For
  extradata in either form, byte stream or \<open>avcC\<close> record, whose sets fit the text, the sender writes the
  attribute, and the handler that reads it has the same sets behind start codes as its extradata,
  the packetization mode, and the profile and level from the first set.
\<close>

theorem parameter_sets_arrive:
  assumes "carries_units ext ns" "\<forall>(z, n) \<in> set ns. n \<noteq> [] \<and> clean n" "length ext \<le> MAX_EXTRADATA_SIZE"
    and "filter is_pset (map snd ns) = u # r" "u = h # a # b # c # t"
    and "sum_list (map (\<lambda>u. AV_BASE64_SIZE (length u)) (u # r)) \<le> 977" "mode \<in> {0, 1}" "0 \<le> idx"
  shows "\<exists>conf. extradata2psets al True ext = Some (Ok conf)
    \<and> parse_h264_sdp_line (\<lambda>_. True) idx (h264_fmtp pt mode (Some conf)) (ctx, par)
      = Some (Ok (), ctx\<lparr>packetization_mode := mode, profile_idc := a, profile_iop := b, level_idc := c\<rparr>,
          par\<lparr>par_extradata := annexb (u # r)\<rparr>)"
proof -
  define conf where "conf = pset_string @ sets_value (u # r) @ profile_string @ ff_data_to_hex [a, b, c] False"
  have ne: "ns \<noteq> []" using assms(4) by auto
  obtain al' where "extradata2psets al True ext = psets_of al' (byte_stream ns)"
    using extradata_written [OF assms(1) ne assms(2,3)] by blast
  then have e: "extradata2psets al True ext = Some (Ok conf)"
    using psets_of_stream [OF assms(2,4) _ assms(6)] by (simp add: conf_def assms(5))
  have ps: "list_all is_pset (u # r)" using assms(4) by (metis list_all_iff set_filter mem_Collect_eq)
  have "AV_BASE64_SIZE (length v) \<le> 977" if "v \<in> set (u # r)" for v
    using member_le_sum_list [of "AV_BASE64_SIZE (length v)" "map (\<lambda>u. AV_BASE64_SIZE (length u)) (u # r)"] that assms(6)
    by fastforce
  then have small: "list_all small_set (u # r)" using ps by (fastforce simp: small_set_def list_all_iff)
  let ?p = "''packetization-mode'' @ CHR ''='' # fmt_d mode @ CHR '';'' # ''sprop-parameter-sets'' @ CHR ''='' # sets_value (u # r)
      @ CHR '';'' # ''profile-level-id'' @ CHR ''='' # ff_data_to_hex [a, b, c] False"
  have line: "h264_fmtp pt mode (Some conf) = ''fmtp:'' @ fmt_d pt @ CHR '' '' # ?p"
    by (simp add: h264_fmtp_def conf_def pset_string_def profile_string_def)
  have "ff_parse_fmtp (sdp_parse_fmtp_config_h264 (\<lambda>_. True)) True (fmt_d pt @ CHR '' '' # ?p) (ctx, par)
      = (Ok (), ctx\<lparr>packetization_mode := mode, profile_idc := a, profile_iop := b, level_idc := c\<rparr>,
          par\<lparr>par_extradata := annexb (u # r)\<rparr>)"
    using stripped_fmtp [of "CHR ''p''" "sdp_parse_fmtp_config_h264 (\<lambda>_. True)" pt "tl ?p" "(ctx, par)"]
      h264_attributes_read [OF small assms(7,5), of "length (fmt_d pt @ CHR '' '' # ?p) + 1" ctx par]
    by simp
  then have "parse_h264_sdp_line (\<lambda>_. True) idx (h264_fmtp pt mode (Some conf)) (ctx, par)
      = Some (Ok (), ctx\<lparr>packetization_mode := mode, profile_idc := a, profile_iop := b, level_idc := c\<rparr>,
          par\<lparr>par_extradata := annexb (u # r)\<rparr>)"
    unfolding line using assms(8) by (simp add: parse_h264_sdp_line_def av_strstart_def)
  with e show ?thesis by blast
qed

definition example_sets :: "(bool \<times> bytes) list" where
  "example_sets = [(True, [0x67, 0x42, 0, 0x1f, 0xe9]), (False, [0x06, 5, 1]), (False, [0x68, 0xce, 0x3c])]"

definition example_h264_par :: AVCodecParameters where
  "example_h264_par = \<lparr>par_codec_type = AVMEDIA_TYPE_VIDEO, par_codec_id = CODEC_H264, par_sample_rate = 0, par_nb_channels = 0,
     par_block_align = 0, par_bits_per_coded_sample = 0, par_extradata = [], par_width = 0, par_height = 0\<rparr>"

theorem parameter_sets_arrive_witness:
  "\<exists>conf. parse_h264_sdp_line (\<lambda>_. True) 0 (h264_fmtp 96 1 (Some conf))
      (\<lparr>profile_idc = 0, profile_iop = 0, level_idc = 0, packetization_mode = 0\<rparr>, example_h264_par)
    = Some (Ok (), \<lparr>profile_idc = 0x42, profile_iop = 0, level_idc = 0x1f, packetization_mode = 1\<rparr>,
        example_h264_par\<lparr>par_extradata := [0, 0, 0, 1, 0x67, 0x42, 0, 0x1f, 0xe9, 0, 0, 0, 1, 0x68, 0xce, 0x3c]\<rparr>)"
proof -
  have c: "\<forall>(z, n) \<in> set example_sets. n \<noteq> [] \<and> clean n"
    unfolding list_all_iff [symmetric] by code_simp
  have u: "carries_units (byte_stream example_sets) example_sets" by (simp add: carries_units_def)
  have l: "length (byte_stream example_sets) \<le> MAX_EXTRADATA_SIZE"
    by (simp add: example_sets_def start_code_def MAX_EXTRADATA_SIZE_def)
  have f: "filter is_pset (map snd example_sets) = [0x67, 0x42, 0, 0x1f, 0xe9] # [[0x68, 0xce, 0x3c]]"
    by (simp add: example_sets_def is_pset_def nal_type_of_def)
  show ?thesis
    using parameter_sets_arrive [OF u c l f refl, of 1 0 0 96
        "\<lparr>profile_idc = 0, profile_iop = 0, level_idc = 0, packetization_mode = 0\<rparr>" example_h264_par]
    by (simp add: AV_BASE64_SIZE_def start_sequence_def)
      (elim exE conjE, rule exI, assumption)
qed

text \<open>A set whose text is longer than 1023 characters is taken for two sets, with a start code in the middle; a size
  without a minus sign is read beyond the end of the text.\<close>

lemma framesize_without_minus: "parse_h264_sdp_line mem 0 ''framesize:96 320'' s = None"
  by (simp add: parse_h264_sdp_line_def av_strstart_def ff_h264_parse_framesize_def)

end
