(* ===== verification/Signal.thy ===== *)
theory Signal
  imports P2P_Types
begin

text \<open>
  The signalling protocol of \<^verbatim>\<open>libavformat/p2p_signal.c\<close>: message types and their wire
  names, the JSON object a message is sent as, the message read back from such an object,
  the dispatch to the installed handler, and the release of a message.

  cJSON is not under \<^verbatim>\<open>src/\<close>: an object is the list of its members in the order they were
  added, \<open>cJSON_PrintUnformatted\<close> and \<open>cJSON_Parse\<close> are the parameters \<open>pr\<close> and \<open>ps\<close>. Of
  its documented behaviour the model uses that adding a NULL string adds nothing, that
  \<open>cJSON_GetObjectItem\<close> finds the first member whose name agrees up to case, and that
  \<open>valueint\<close> is the number clamped to the range of \<open>int\<close>.
\<close>

section \<open>Messages\<close>

datatype P2PMessageType =
    P2P_MSG_JOIN_ROOM | P2P_MSG_LEAVE_ROOM | P2P_MSG_ROOM_JOINED | P2P_MSG_ROOM_LEFT
  | P2P_MSG_CONNECT_REQUEST | P2P_MSG_OFFER | P2P_MSG_ANSWER | P2P_MSG_CANDIDATE
  | P2P_MSG_PROBE_REQUEST | P2P_MSG_PROBE_RESPONSE | P2P_MSG_STREAM_REQUEST
  | P2P_MSG_STREAM_READY | P2P_MSG_ERROR | P2P_MSG_UNKNOWN

text \<open>
  The payload union, one constructor per member; \<open>offer\<close> and \<open>answer\<close> are one constructor,
  their members have the same layout and the code writes either through the other. A NULL
  pointer is \<open>None\<close>. The zeroed union is the member of the message's own type, all NULL.
\<close>

datatype payload =
    P_none
  | P_join_room "string option" "string option" "string option"
  | P_room_joined "string option" "string option" "string option"
  | P_connect_request "string option"
  | P_description "string option"
  | P_candidate "string option" "string option"
  | P_probe_request "string option" int int int
  | P_probe_response "string option" "string option" int u32
  | P_error "string option" "string option"
  | P_stream_request "string option"
  | P_stream_ready "string option"

record P2PSignalMessage =
  mtype :: P2PMessageType
  sender_id :: "string option"
  receiver_id :: "string option"
  payload :: payload

fun zero_payload :: "P2PMessageType \<Rightarrow> payload" where
  "zero_payload P2P_MSG_JOIN_ROOM = P_join_room None None None"
| "zero_payload P2P_MSG_ROOM_JOINED = P_room_joined None None None"
| "zero_payload P2P_MSG_CONNECT_REQUEST = P_connect_request None"
| "zero_payload P2P_MSG_OFFER = P_description None"
| "zero_payload P2P_MSG_ANSWER = P_description None"
| "zero_payload P2P_MSG_CANDIDATE = P_candidate None None"
| "zero_payload P2P_MSG_PROBE_REQUEST = P_probe_request None 0 0 0"
| "zero_payload P2P_MSG_PROBE_RESPONSE = P_probe_response None None 0 0"
| "zero_payload P2P_MSG_ERROR = P_error None None"
| "zero_payload P2P_MSG_STREAM_REQUEST = P_stream_request None"
| "zero_payload P2P_MSG_STREAM_READY = P_stream_ready None"
| "zero_payload _ = P_none"

definition p2p_create_signal_message ::
    "P2PMessageType \<Rightarrow> string option \<Rightarrow> string option \<Rightarrow> P2PSignalMessage" where
  "p2p_create_signal_message ty sid rid =
     \<lparr>mtype = ty, sender_id = sid, receiver_id = rid, payload = zero_payload ty\<rparr>"

fun p2p_message_type_to_string :: "P2PMessageType \<Rightarrow> string" where
  "p2p_message_type_to_string P2P_MSG_JOIN_ROOM = ''join_room''"
| "p2p_message_type_to_string P2P_MSG_LEAVE_ROOM = ''leave_room''"
| "p2p_message_type_to_string P2P_MSG_ROOM_JOINED = ''room_joined''"
| "p2p_message_type_to_string P2P_MSG_ROOM_LEFT = ''room_left''"
| "p2p_message_type_to_string P2P_MSG_CONNECT_REQUEST = ''connect_request''"
| "p2p_message_type_to_string P2P_MSG_OFFER = ''offer''"
| "p2p_message_type_to_string P2P_MSG_ANSWER = ''answer''"
| "p2p_message_type_to_string P2P_MSG_CANDIDATE = ''candidate''"
| "p2p_message_type_to_string P2P_MSG_PROBE_REQUEST = ''probe_request''"
| "p2p_message_type_to_string P2P_MSG_PROBE_RESPONSE = ''probe_response''"
| "p2p_message_type_to_string P2P_MSG_STREAM_REQUEST = ''stream_request''"
| "p2p_message_type_to_string P2P_MSG_STREAM_READY = ''stream_ready''"
| "p2p_message_type_to_string P2P_MSG_ERROR = ''error''"
| "p2p_message_type_to_string P2P_MSG_UNKNOWN = ''unknown''"

definition p2p_string_to_message_type :: "string option \<Rightarrow> P2PMessageType" where
  "p2p_string_to_message_type type_str =
     (case type_str of None \<Rightarrow> P2P_MSG_ERROR
      | Some s \<Rightarrow>
          if s = ''join_room'' then P2P_MSG_JOIN_ROOM
          else if s = ''leave_room'' then P2P_MSG_LEAVE_ROOM
          else if s = ''room_joined'' then P2P_MSG_ROOM_JOINED
          else if s = ''room_left'' then P2P_MSG_ROOM_LEFT
          else if s = ''connect_request'' then P2P_MSG_CONNECT_REQUEST
          else if s = ''offer'' then P2P_MSG_OFFER
          else if s = ''answer'' then P2P_MSG_ANSWER
          else if s = ''candidate'' then P2P_MSG_CANDIDATE
          else if s = ''probe_request'' then P2P_MSG_PROBE_REQUEST
          else if s = ''probe_response'' then P2P_MSG_PROBE_RESPONSE
          else if s = ''stream_request'' then P2P_MSG_STREAM_REQUEST
          else if s = ''stream_ready'' then P2P_MSG_STREAM_READY
          else if s = ''error'' then P2P_MSG_ERROR
          else P2P_MSG_ERROR)"

section \<open>JSON\<close>

datatype json =
    JObject "(string \<times> json) list" | JString string | JNumber int | JOther

definition ascii_lower :: "char \<Rightarrow> char" where
  "ascii_lower c =
     (let n = (of_char c :: nat) in if 65 \<le> n \<and> n \<le> 90 then char_of (n + 32) else c)"

definition lower :: "string \<Rightarrow> string" where
  "lower s = map ascii_lower s"

definition cJSON_AddStringToObject :: "string \<Rightarrow> string option \<Rightarrow> (string \<times> json) list
    \<Rightarrow> (string \<times> json) list" where
  "cJSON_AddStringToObject name s ms =
     (case s of None \<Rightarrow> ms | Some v \<Rightarrow> ms @ [(name, JString v)])"

definition cJSON_AddNumberToObject :: "string \<Rightarrow> int \<Rightarrow> (string \<times> json) list
    \<Rightarrow> (string \<times> json) list" where
  "cJSON_AddNumberToObject name n ms = ms @ [(name, JNumber n)]"

definition cJSON_GetObjectItem :: "json \<Rightarrow> string \<Rightarrow> json option" where
  "cJSON_GetObjectItem j name =
     (case j of
        JObject ms \<Rightarrow>
          map_option snd (find (\<lambda>m. lower (fst m) = lower name) ms)
      | _ \<Rightarrow> None)"

text \<open>\<open>cJSON_IsString(item) ? item->valuestring : NULL\<close>, and the same for \<open>valueint\<close>.\<close>

definition string_item :: "json \<Rightarrow> string \<Rightarrow> string option" where
  "string_item j name =
     (case cJSON_GetObjectItem j name of Some (JString s) \<Rightarrow> Some s | _ \<Rightarrow> None)"

definition clamp_int :: "int \<Rightarrow> int" where
  "clamp_int n = max (- (2 ^ 31)) (min (2 ^ 31 - 1) n)"

definition int_item :: "json \<Rightarrow> string \<Rightarrow> int option" where
  "int_item j name =
     (case cJSON_GetObjectItem j name of Some (JNumber n) \<Rightarrow> Some (clamp_int n) | _ \<Rightarrow> None)"

section \<open>Sending\<close>

definition payload_members :: "P2PSignalMessage \<Rightarrow> (string \<times> json) list \<Rightarrow> (string \<times> json) list" where
  "payload_members msg ms =
     (case (mtype msg, payload msg) of
        (P2P_MSG_JOIN_ROOM, P_join_room room role caps) \<Rightarrow>
          (let ms = cJSON_AddStringToObject ''room_id'' room ms;
               ms = cJSON_AddStringToObject ''role'' role ms
           in if caps \<noteq> None then cJSON_AddStringToObject ''capabilities'' caps ms else ms)
      | (P2P_MSG_ROOM_JOINED, P_room_joined room role lid) \<Rightarrow>
          (let ms = cJSON_AddStringToObject ''room_id'' room ms;
               ms = cJSON_AddStringToObject ''role'' role ms
           in if lid \<noteq> None then cJSON_AddStringToObject ''local_id'' lid ms else ms)
      | (P2P_MSG_CONNECT_REQUEST, P_connect_request target) \<Rightarrow>
          cJSON_AddStringToObject ''target_id'' target ms
      | (P2P_MSG_OFFER, P_description d) \<Rightarrow> cJSON_AddStringToObject ''description'' d ms
      | (P2P_MSG_ANSWER, P_description d) \<Rightarrow> cJSON_AddStringToObject ''description'' d ms
      | (P2P_MSG_CANDIDATE, P_candidate c m) \<Rightarrow>
          cJSON_AddStringToObject ''mid'' m (cJSON_AddStringToObject ''candidate'' c ms)
      | (P2P_MSG_PROBE_REQUEST, P_probe_request pid psize n t) \<Rightarrow>
          (let ms = cJSON_AddStringToObject ''probe_id'' pid ms;
               ms = cJSON_AddNumberToObject ''packet_size'' psize ms;
               ms = cJSON_AddNumberToObject ''expected_packets'' n ms
           in cJSON_AddNumberToObject ''timeout_ms'' t ms)
      | (P2P_MSG_PROBE_RESPONSE, P_probe_response pid st ts crc) \<Rightarrow>
          (let ms = cJSON_AddStringToObject ''probe_id'' pid ms;
               ms = cJSON_AddStringToObject ''status'' st ms;
               ms = cJSON_AddNumberToObject ''timestamp'' ts ms
           in cJSON_AddNumberToObject ''crc'' (uint crc) ms)
      | (P2P_MSG_ERROR, P_error code m) \<Rightarrow>
          cJSON_AddStringToObject ''error_msg'' m (cJSON_AddStringToObject ''error_code'' code ms)
      | _ \<Rightarrow> ms)"

definition p2p_signal_json :: "P2PSignalMessage \<Rightarrow> json" where
  "p2p_signal_json msg =
     JObject (payload_members msg
       (cJSON_AddStringToObject ''receiver_id'' (receiver_id msg)
         (cJSON_AddStringToObject ''sender_id'' (sender_id msg)
           (cJSON_AddStringToObject ''type'' (Some (p2p_message_type_to_string (mtype msg))) []))))"

text \<open>The result is what \<open>rtcSendMessage\<close> returns; a NULL message is \<open>None\<close>.\<close>

definition p2p_send_signal_message ::
    "ext \<Rightarrow> (json \<Rightarrow> string) \<Rightarrow> P2PSignalMessage option \<Rightarrow> 'a world_scheme
       \<Rightarrow> int res \<times> 'a world_scheme" where
  "p2p_send_signal_message E pr msg w =
     (case msg of None \<Rightarrow> (Err EINVAL, w)
      | Some m \<Rightarrow>
          let (ret, w) = ext_int E (RtcSendMessage (web_socket w) (text_bytes (pr (p2p_signal_json m)))) w
          in (if ret < 0 then Err (Lib_error ret) else Ok ret, w))"

section \<open>Receiving\<close>

definition payload_of_json :: "P2PMessageType \<Rightarrow> json \<Rightarrow> payload" where
  "payload_of_json ty j =
     (case ty of
        P2P_MSG_JOIN_ROOM \<Rightarrow>
          P_join_room (string_item j ''room_id'') (string_item j ''role'') (string_item j ''capabilities'')
      | P2P_MSG_ROOM_JOINED \<Rightarrow>
          P_room_joined (string_item j ''room_id'') (string_item j ''role'') (string_item j ''local_id'')
      | P2P_MSG_CONNECT_REQUEST \<Rightarrow> P_connect_request (string_item j ''target_id'')
      | P2P_MSG_OFFER \<Rightarrow> P_description (string_item j ''description'')
      | P2P_MSG_ANSWER \<Rightarrow> P_description (string_item j ''description'')
      | P2P_MSG_CANDIDATE \<Rightarrow> P_candidate (string_item j ''candidate'') (string_item j ''mid'')
      | P2P_MSG_PROBE_REQUEST \<Rightarrow>
          P_probe_request (string_item j ''probe_id'')
            (case int_item j ''packet_size'' of None \<Rightarrow> 0 | Some n \<Rightarrow> n)
            (case int_item j ''expected_packets'' of None \<Rightarrow> 0 | Some n \<Rightarrow> n)
            (case int_item j ''timeout_ms'' of None \<Rightarrow> 0 | Some n \<Rightarrow> n)
      | P2P_MSG_PROBE_RESPONSE \<Rightarrow>
          P_probe_response (string_item j ''probe_id'') (string_item j ''status'')
            (case int_item j ''timestamp'' of None \<Rightarrow> 0 | Some n \<Rightarrow> n)
            (case int_item j ''crc'' of None \<Rightarrow> 0 | Some n \<Rightarrow> word_of_int n)
      | P2P_MSG_STREAM_REQUEST \<Rightarrow> P_stream_request (string_item j ''stream_id'')
      | P2P_MSG_STREAM_READY \<Rightarrow> P_stream_ready (string_item j ''stream_id'')
      | _ \<Rightarrow> zero_payload ty)"

definition p2p_signal_of_json :: "json \<Rightarrow> P2PSignalMessage option" where
  "p2p_signal_of_json j =
     (case cJSON_GetObjectItem j ''type'' of
        Some (JString s) \<Rightarrow>
          (let ty = p2p_string_to_message_type (Some s)
           in Some ((p2p_create_signal_message ty (string_item j ''sender_id'')
                 (string_item j ''receiver_id''))\<lparr>payload := payload_of_json ty j\<rparr>))
      | _ \<Rightarrow> None)"

text \<open>
  The entry point of received text: the message is built and handed to the installed
  \<open>on_ws_messaged\<close>, whose return value is the result; without a handler it is 0.
\<close>

definition p2p_handle_signal_message ::
    "(string \<Rightarrow> json option) \<Rightarrow> (P2PSignalMessage \<Rightarrow> 'a world_scheme \<Rightarrow> int res \<times> 'a world_scheme)
       \<Rightarrow> string option \<Rightarrow> 'a world_scheme \<Rightarrow> int res \<times> 'a world_scheme" where
  "p2p_handle_signal_message ps on_ws_messaged message w =
     (case message of None \<Rightarrow> (Err EINVAL, w)
      | Some t \<Rightarrow> (case ps t of None \<Rightarrow> (Err EINVAL, w)
          | Some j \<Rightarrow> (case p2p_signal_of_json j of None \<Rightarrow> (Err EINVAL, w)
              | Some msg \<Rightarrow> if signal_callbacks w then on_ws_messaged msg w else (Ok 0, w))))"

section \<open>Releasing a message\<close>

text \<open>The strings a message owns, and those that \<open>p2p_free_signal_message\<close> frees.\<close>

fun payload_strings :: "payload \<Rightarrow> string option list" where
  "payload_strings P_none = []"
| "payload_strings (P_join_room a b c) = [a, b, c]"
| "payload_strings (P_room_joined a b c) = [a, b, c]"
| "payload_strings (P_connect_request a) = [a]"
| "payload_strings (P_description a) = [a]"
| "payload_strings (P_candidate a b) = [a, b]"
| "payload_strings (P_probe_request a _ _ _) = [a]"
| "payload_strings (P_probe_response a b _ _) = [a, b]"
| "payload_strings (P_error a b) = [a, b]"
| "payload_strings (P_stream_request a) = [a]"
| "payload_strings (P_stream_ready a) = [a]"

definition owned_strings :: "P2PSignalMessage \<Rightarrow> string list" where
  "owned_strings m =
     map the (filter (\<lambda>p. p \<noteq> None) ([sender_id m, receiver_id m] @ payload_strings (payload m)))"

definition p2p_free_signal_message :: "P2PSignalMessage option \<Rightarrow> string list" where
  "p2p_free_signal_message msg =
     (case msg of None \<Rightarrow> []
      | Some m \<Rightarrow>
          (let frees = (\<lambda>ps. map the (filter (\<lambda>p. p \<noteq> None) ps))
           in frees [sender_id m] @ frees [receiver_id m] @
              (case (mtype m, payload m) of
                 (P2P_MSG_OFFER, P_description d) \<Rightarrow> frees [d]
               | (P2P_MSG_ANSWER, P_description d) \<Rightarrow> frees [d]
               | (P2P_MSG_CANDIDATE, P_candidate c md) \<Rightarrow> frees [c, md]
               | (P2P_MSG_PROBE_REQUEST, P_probe_request pid _ _ _) \<Rightarrow> frees [pid]
               | (P2P_MSG_PROBE_RESPONSE, P_probe_response pid st _ _) \<Rightarrow> frees [pid, st]
               | (P2P_MSG_ROOM_JOINED, P_room_joined room role lid) \<Rightarrow> frees [room, role, lid]
               | (P2P_MSG_CONNECT_REQUEST, P_connect_request t) \<Rightarrow> frees [t]
               | (P2P_MSG_STREAM_REQUEST, P_stream_request s) \<Rightarrow> frees [s]
               | (P2P_MSG_STREAM_READY, P_stream_ready s) \<Rightarrow> frees [s]
               | _ \<Rightarrow> [])))"

text \<open>The installation of the handlers; the callbacks struct is allocated on first use.\<close>

definition p2p_set_signal_message_handler ::
    "ext \<Rightarrow> 'a world_scheme \<Rightarrow> int res \<times> 'a world_scheme" where
  "p2p_set_signal_message_handler E w =
     (if signal_callbacks w then (Ok 0, w)
      else (let (r, w) = ext_int E Av_mallocz w
            in if r = 0 then (Err ENOMEM, w) else (Ok 0, w\<lparr>signal_callbacks := True\<rparr>)))"

section \<open>Messages that fit their type\<close>

definition payload_fits :: "P2PMessageType \<Rightarrow> payload \<Rightarrow> bool" where
  "payload_fits ty p =
     (case p of
        P_none \<Rightarrow> ty \<in> {P2P_MSG_LEAVE_ROOM, P2P_MSG_ROOM_LEFT, P2P_MSG_UNKNOWN}
      | P_join_room _ _ _ \<Rightarrow> ty = P2P_MSG_JOIN_ROOM
      | P_room_joined _ _ _ \<Rightarrow> ty = P2P_MSG_ROOM_JOINED
      | P_connect_request _ \<Rightarrow> ty = P2P_MSG_CONNECT_REQUEST
      | P_description _ \<Rightarrow> ty \<in> {P2P_MSG_OFFER, P2P_MSG_ANSWER}
      | P_candidate _ _ \<Rightarrow> ty = P2P_MSG_CANDIDATE
      | P_probe_request _ _ _ _ \<Rightarrow> ty = P2P_MSG_PROBE_REQUEST
      | P_probe_response _ _ _ _ \<Rightarrow> ty = P2P_MSG_PROBE_RESPONSE
      | P_error _ _ \<Rightarrow> ty = P2P_MSG_ERROR
      | P_stream_request _ \<Rightarrow> ty = P2P_MSG_STREAM_REQUEST
      | P_stream_ready _ \<Rightarrow> ty = P2P_MSG_STREAM_READY)"

definition fits_int :: "payload \<Rightarrow> bool" where
  "fits_int p =
     (case p of
        P_probe_request _ a b c \<Rightarrow> clamp_int a = a \<and> clamp_int b = b \<and> clamp_int c = c
      | P_probe_response _ _ ts crc \<Rightarrow> clamp_int ts = ts \<and> clamp_int (uint crc) = uint crc
      | _ \<Rightarrow> True)"

text \<open>The member names of the protocol are lower case, so looking them up compares them as they are.\<close>

lemma lower_names:
  "lower ''type'' = ''type''"
  "lower ''sender_id'' = ''sender_id''"
  "lower ''receiver_id'' = ''receiver_id''"
  "lower ''room_id'' = ''room_id''"
  "lower ''role'' = ''role''"
  "lower ''capabilities'' = ''capabilities''"
  "lower ''local_id'' = ''local_id''"
  "lower ''target_id'' = ''target_id''"
  "lower ''description'' = ''description''"
  "lower ''candidate'' = ''candidate''"
  "lower ''mid'' = ''mid''"
  "lower ''probe_id'' = ''probe_id''"
  "lower ''packet_size'' = ''packet_size''"
  "lower ''expected_packets'' = ''expected_packets''"
  "lower ''timeout_ms'' = ''timeout_ms''"
  "lower ''status'' = ''status''"
  "lower ''timestamp'' = ''timestamp''"
  "lower ''crc'' = ''crc''"
  "lower ''stream_id'' = ''stream_id''"
  "lower ''error_code'' = ''error_code''"
  "lower ''error_msg'' = ''error_msg''"
  unfolding lower_def by code_simp+

abbreviation named :: "string \<Rightarrow> string \<times> json \<Rightarrow> bool" where
  "named l \<equiv> \<lambda>m. lower (fst m) = l"

lemma find_append:
  "find P (xs @ ys) = (case find P xs of None \<Rightarrow> find P ys | Some x \<Rightarrow> Some x)"
  by (induction xs) auto

lemma find_add_string [simp]:
  "find (named l) (cJSON_AddStringToObject name v ms) =
     (case find (named l) ms of
        Some m \<Rightarrow> Some m
      | None \<Rightarrow> if lower name = l then map_option (\<lambda>s. (name, JString s)) v else None)"
  by (cases v) (simp_all add: cJSON_AddStringToObject_def find_snoc split: option.splits)

lemma find_add_number [simp]:
  "find (named l) (cJSON_AddNumberToObject name n ms) =
     (case find (named l) ms of
        Some m \<Rightarrow> Some m
      | None \<Rightarrow> if lower name = l then Some (name, JNumber n) else None)"
  by (simp add: cJSON_AddNumberToObject_def find_snoc split: option.splits)

definition header_members :: "P2PSignalMessage \<Rightarrow> (string \<times> json) list" where
  "header_members m =
     cJSON_AddStringToObject ''receiver_id'' (receiver_id m)
       (cJSON_AddStringToObject ''sender_id'' (sender_id m)
         (cJSON_AddStringToObject ''type'' (Some (p2p_message_type_to_string (mtype m))) []))"

lemma payload_members_append:
  assumes "payload_fits (mtype m) (payload m)"
  shows "payload_members m ms = ms @ payload_members m []"
  using assms
  by (cases "payload m")
    (auto simp: payload_fits_def payload_members_def cJSON_AddStringToObject_def
      cJSON_AddNumberToObject_def Let_def split: option.splits)

lemma signal_json_split:
  assumes "payload_fits (mtype m) (payload m)"
  shows "p2p_signal_json m = JObject (header_members m @ payload_members m [])"
  unfolding p2p_signal_json_def header_members_def [symmetric] json.inject
  by (rule payload_members_append [OF assms])

lemma header_not_in_payload:
  assumes "payload_fits (mtype m) (payload m)"
  shows "find (named ''type'') (payload_members m []) = None"
    and "find (named ''sender_id'') (payload_members m []) = None"
    and "find (named ''receiver_id'') (payload_members m []) = None"
  using assms
  by (cases "payload m"; auto simp: payload_fits_def payload_members_def Let_def lower_names)+

lemma find_header:
  "find (named l) (header_members m) =
     (if l = ''type'' then Some (''type'', JString (p2p_message_type_to_string (mtype m)))
      else if l = ''sender_id'' then map_option (\<lambda>s. (''sender_id'', JString s)) (sender_id m)
      else if l = ''receiver_id'' then map_option (\<lambda>s. (''receiver_id'', JString s)) (receiver_id m)
      else None)"
  by (simp add: header_members_def lower_names split: option.splits)

lemma string_item_payload:
  assumes "payload_fits (mtype m) (payload m)"
    and "lower l = l" "l \<noteq> ''type''" "l \<noteq> ''sender_id''" "l \<noteq> ''receiver_id''"
  shows "string_item (p2p_signal_json m) l =
      (case find (named l) (payload_members m []) of Some (_, JString s) \<Rightarrow> Some s | _ \<Rightarrow> None)"
    and "int_item (p2p_signal_json m) l =
      (case find (named l) (payload_members m []) of Some (_, JNumber n) \<Rightarrow> Some (clamp_int n) | _ \<Rightarrow> None)"
  using assms(2-)
  by (simp_all add: signal_json_split [OF assms(1)] string_item_def int_item_def
      cJSON_GetObjectItem_def find_append find_header split: option.splits prod.splits)

lemma header_items:
  assumes "payload_fits (mtype m) (payload m)"
  shows "cJSON_GetObjectItem (p2p_signal_json m) ''type'' = Some (JString (p2p_message_type_to_string (mtype m)))"
    and "string_item (p2p_signal_json m) ''sender_id'' = sender_id m"
    and "string_item (p2p_signal_json m) ''receiver_id'' = receiver_id m"
  by (simp_all add: signal_json_split [OF assms] string_item_def cJSON_GetObjectItem_def find_append
      find_header header_not_in_payload [OF assms] lower_names split: option.splits)

lemma message_type_string:
  "p2p_string_to_message_type (Some (p2p_message_type_to_string t)) =
     (if t = P2P_MSG_UNKNOWN then P2P_MSG_ERROR else t)"
  by (cases t) (simp_all add: p2p_string_to_message_type_def)

lemma payload_of_signal_json:
  assumes "payload_fits (mtype m) (payload m)" "fits_int (payload m)"
    and "mtype m \<notin> {P2P_MSG_STREAM_REQUEST, P2P_MSG_STREAM_READY, P2P_MSG_ERROR}"
  shows "payload_of_json (mtype m) (p2p_signal_json m) = payload m"
proof -
  note items = string_item_payload [OF assms(1)] lower_names
  show ?thesis
  proof (cases "payload m")
    case (P_join_room a b c)
    with assms have ty: "mtype m = P2P_MSG_JOIN_ROOM" by (simp add: payload_fits_def)
    show ?thesis
      unfolding ty payload_of_json_def
      by (cases a; cases b; cases c) (simp_all add: items payload_members_def ty P_join_room)
  next
    case (P_room_joined a b c)
    with assms have ty: "mtype m = P2P_MSG_ROOM_JOINED" by (simp add: payload_fits_def)
    show ?thesis
      unfolding ty payload_of_json_def
      by (cases a; cases b; cases c) (simp_all add: items payload_members_def ty P_room_joined)
  next
    case (P_connect_request a)
    with assms have ty: "mtype m = P2P_MSG_CONNECT_REQUEST" by (simp add: payload_fits_def)
    show ?thesis
      unfolding ty payload_of_json_def
      by (cases a) (simp_all add: items payload_members_def ty P_connect_request)
  next
    case (P_description a)
    with assms consider "mtype m = P2P_MSG_OFFER" | "mtype m = P2P_MSG_ANSWER"
      by (auto simp: payload_fits_def)
    then show ?thesis
      unfolding payload_of_json_def
      by cases (cases a; simp add: items payload_members_def P_description)+
  next
    case (P_candidate a b)
    with assms have ty: "mtype m = P2P_MSG_CANDIDATE" by (simp add: payload_fits_def)
    show ?thesis
      unfolding ty payload_of_json_def
      by (cases a; cases b) (simp_all add: items payload_members_def ty P_candidate)
  next
    case (P_probe_request a n1 n2 n3)
    with assms have ty: "mtype m = P2P_MSG_PROBE_REQUEST" by (simp add: payload_fits_def)
    show ?thesis
      using assms(2) unfolding ty payload_of_json_def
      by (cases a) (simp_all add: items payload_members_def ty P_probe_request fits_int_def)
  next
    case (P_probe_response a b n1 n2)
    with assms have ty: "mtype m = P2P_MSG_PROBE_RESPONSE" by (simp add: payload_fits_def)
    show ?thesis
      using assms(2) unfolding ty payload_of_json_def
      by (cases a; cases b) (simp_all add: items payload_members_def ty P_probe_response fits_int_def)
  next
    case P_none
    with assms show ?thesis by (auto simp: payload_fits_def payload_of_json_def)
  qed (use assms in \<open>auto simp: payload_fits_def\<close>)
qed

lemma signal_of_json_fields:
  assumes "payload_fits (mtype m) (payload m)" "mtype m \<noteq> P2P_MSG_UNKNOWN"
  shows "p2p_signal_of_json (p2p_signal_json m) =
     Some (m\<lparr>payload := payload_of_json (mtype m) (p2p_signal_json m)\<rparr>)"
  using assms(2)
  by (simp add: p2p_signal_of_json_def header_items [OF assms(1)] message_type_string
      p2p_create_signal_message_def Let_def)

section \<open>Properties\<close>

text \<open>C13. A message that fits its type and whose numbers fit an \<open>int\<close> survives the wire:
  sending hands one text to the signalling socket, and when cJSON parses that text back to
  the object it printed, the receiving side calls its handler on exactly the message sent.
  Stream and error messages are excluded, their payload is not transported.\<close>

theorem signal_transport:
  assumes "payload_fits (mtype m) (payload m)" and "fits_int (payload m)"
    and "mtype m \<notin> {P2P_MSG_STREAM_REQUEST, P2P_MSG_STREAM_READY, P2P_MSG_ERROR, P2P_MSG_UNKNOWN}"
    and "ps (pr (p2p_signal_json m)) = Some (p2p_signal_json m)"
    and "signal_callbacks v"
  shows "\<exists>t. calls (snd (p2p_send_signal_message E pr (Some m) w))
                = calls w @ [RtcSendMessage (web_socket w) (text_bytes t)]
           \<and> p2p_handle_signal_message ps handler (Some t) v = handler m v"
proof (intro exI conjI)
  have "p2p_signal_of_json (p2p_signal_json m) = Some m"
    using signal_of_json_fields [OF assms(1)] payload_of_signal_json [OF assms(1,2)] assms(3)
    by simp
  then show "p2p_handle_signal_message ps handler (Some (pr (p2p_signal_json m))) v = handler m v"
    using assms(4,5) by (simp add: p2p_handle_signal_message_def)
qed (simp add: p2p_send_signal_message_def ext_int_def Let_def)

definition example_candidate :: P2PSignalMessage where
  "example_candidate = \<lparr>mtype = P2P_MSG_CANDIDATE, sender_id = Some ''s1'', receiver_id = Some ''r1'',
     payload = P_candidate (Some ''udp'') (Some ''0'')\<rparr>"

definition empty_world :: world where
  "empty_world = \<lparr>calls = [], nodes = Map.empty, tracks = Map.empty, next_addr = 1, streams = [],
     local_id = None, web_socket = 7, web_socket_connected = 1, web_socket_server = None,
     room_info_room_id = None, peer_connection_node_caches = [], selected_node = None,
     signal_callbacks = True, config = []\<rparr>"

theorem signal_transport_witness:
  "\<exists>t. calls (snd (p2p_send_signal_message (\<lambda>_ _. (0, [])) (\<lambda>_. ''x'') (Some example_candidate) empty_world))
         = [RtcSendMessage 7 (text_bytes t)]
     \<and> p2p_handle_signal_message (\<lambda>_. Some (p2p_signal_json example_candidate))
          (\<lambda>m w. (Ok (if m = example_candidate then 5 else 6), w)) (Some t) empty_world
       = (Ok 5, empty_world)"
  using signal_transport [of example_candidate "\<lambda>_. Some (p2p_signal_json example_candidate)"
      "\<lambda>_. ''x''" empty_world "\<lambda>_ _. (0, [])" empty_world
      "\<lambda>m w. (Ok (if m = example_candidate then 5 else 6), w)"]
  by (simp add: example_candidate_def payload_fits_def fits_int_def empty_world_def)

text \<open>The stream id of a stream request or a stream-ready message is never put on the
  wire: whatever id is sent, the message read back from the printed object has none.\<close>

theorem stream_id_not_transported:
  assumes "payload m \<in> {P_stream_request sid, P_stream_ready sid}"
    and "payload_fits (mtype m) (payload m)"
  shows "p2p_signal_of_json (p2p_signal_json m) = Some (m\<lparr>payload := zero_payload (mtype m)\<rparr>)"
proof -
  have ty: "mtype m \<in> {P2P_MSG_STREAM_REQUEST, P2P_MSG_STREAM_READY}"
    using assms by (auto simp: payload_fits_def)
  then have "payload_of_json (mtype m) (p2p_signal_json m) = zero_payload (mtype m)"
    by (auto simp: payload_of_json_def string_item_payload [OF assms(2)] lower_names
        payload_members_def)
  with signal_of_json_fields [OF assms(2)] ty show ?thesis by auto
qed

theorem stream_id_not_transported_witness:
  "p2p_signal_of_json (p2p_signal_json \<lparr>mtype = P2P_MSG_STREAM_REQUEST, sender_id = Some ''a'',
       receiver_id = Some ''b'', payload = P_stream_request (Some ''main_stream'')\<rparr>)
   = Some \<lparr>mtype = P2P_MSG_STREAM_REQUEST, sender_id = Some ''a'', receiver_id = Some ''b'',
       payload = P_stream_request None\<rparr>"
  using stream_id_not_transported [of "\<lparr>mtype = P2P_MSG_STREAM_REQUEST, sender_id = Some ''a'',
       receiver_id = Some ''b'', payload = P_stream_request (Some ''main_stream'')\<rparr>" "Some ''main_stream''"]
  by (simp add: payload_fits_def)

text \<open>A probe response whose CRC does not fit an \<open>int\<close> is damaged by the wire: the
  reader takes the clamped \<open>valueint\<close>, so every such CRC arrives as \<open>0x7fffffff\<close>.\<close>

theorem wide_crc_is_clamped:
  assumes "payload m = P_probe_response pid st ts crc" and "mtype m = P2P_MSG_PROBE_RESPONSE"
    and "2 ^ 31 \<le> uint crc" and "clamp_int ts = ts"
  shows "p2p_signal_of_json (p2p_signal_json m)
     = Some (m\<lparr>payload := P_probe_response pid st ts 0x7fffffff\<rparr>)"
proof -
  have fit: "payload_fits (mtype m) (payload m)" using assms by (simp add: payload_fits_def)
  have "clamp_int (uint crc) = 0x7fffffff" using assms(3) by (simp add: clamp_int_def)
  then have "payload_of_json (mtype m) (p2p_signal_json m) = P_probe_response pid st ts 0x7fffffff"
    unfolding assms(2) payload_of_json_def using assms(1,2,4)
    by (cases pid; cases st) (simp_all add: string_item_payload [OF fit] lower_names payload_members_def)
  with signal_of_json_fields [OF fit] assms(2) show ?thesis by simp
qed

theorem wide_crc_is_clamped_witness:
  "p2p_signal_of_json (p2p_signal_json \<lparr>mtype = P2P_MSG_PROBE_RESPONSE, sender_id = None,
       receiver_id = None, payload = P_probe_response None None 3 0xdeadbeef\<rparr>)
   = Some \<lparr>mtype = P2P_MSG_PROBE_RESPONSE, sender_id = None,
       receiver_id = None, payload = P_probe_response None None 3 0x7fffffff\<rparr>"
  using wide_crc_is_clamped [where m = "\<lparr>mtype = P2P_MSG_PROBE_RESPONSE, sender_id = None,
       receiver_id = None, payload = P_probe_response None None 3 0xdeadbeef\<rparr>" and crc = "0xdeadbeef"]
  by (simp add: clamp_int_def)

text \<open>Releasing a message frees each string it owns exactly once, except for join-room
  and error messages, of which only the two ids are freed: their payload strings leak.\<close>

theorem free_signal_message_frees:
  assumes "payload_fits (mtype m) (payload m)"
  shows "p2p_free_signal_message (Some m) =
    (if mtype m \<in> {P2P_MSG_JOIN_ROOM, P2P_MSG_ERROR}
     then owned_strings (m\<lparr>payload := P_none\<rparr>) else owned_strings m)"
  using assms
  by (cases "payload m")
    (auto simp: p2p_free_signal_message_def owned_strings_def payload_fits_def Let_def)

theorem free_signal_message_frees_witness:
  "p2p_free_signal_message (Some example_candidate) = [''s1'', ''r1'', ''udp'', ''0'']"
  using free_signal_message_frees [of example_candidate]
  by (simp add: example_candidate_def payload_fits_def owned_strings_def)

end
