(* ===== verification/Crc.thy ===== *)
theory Crc
  imports Prelude
begin

text \<open>
  The CRC of \<^verbatim>\<open>libavutil/crc.c\<close>, which protects the probe packets: table generation
  (\<open>av_crc_init\<close>), the tables by id (\<open>av_crc_get_table\<close>) and the checksum loop (\<open>av_crc\<close>)
  with its four-bytes-at-a-time path. The lemmas show that this loop computes the
  bit-serial CRC for every alignment of the buffer.
\<close>

section \<open>Table generation\<close>

definition av_bswap32 :: "u32 \<Rightarrow> u32" where
  "av_bswap32 x = rb32 (ucast x) (ucast (drop_bit 8 x)) (ucast (drop_bit 16 x)) (ucast (drop_bit 24 x))"

text \<open>One bit of the table loops: reflected (\<open>le\<close>) and most significant bit first.\<close>

definition le_step :: "u32 \<Rightarrow> u32 \<Rightarrow> u32" where
  "le_step poly c = drop_bit 1 c XOR (poly AND (- (c AND 1)))"

definition be_step :: "u32 \<Rightarrow> u32 \<Rightarrow> u32" where
  "be_step poly c = push_bit 1 c XOR (poly AND signed_drop_bit 31 c)"

definition crc_entry :: "bool \<Rightarrow> nat \<Rightarrow> u32 \<Rightarrow> u32 \<Rightarrow> u32" where
  "crc_entry le bits poly i =
     (if le then ((le_step poly) ^^ 8) i
      else av_bswap32 (((be_step (push_bit (32 - bits) poly)) ^^ 8) (push_bit 24 i)))"

text \<open>
  The first 256 entries, and each further block of 256 computed from the block before it.
  \<open>ctx_size\<close> is given in entries. A table of 257 entries ends with the flag 1 at index 256;
  the large table overwrites that flag with the first entry of its second block.
\<close>

definition first_block :: "bool \<Rightarrow> nat \<Rightarrow> u32 \<Rightarrow> u32 list" where
  "first_block le bits poly = map (\<lambda>i. crc_entry le bits poly (of_nat i)) [0..<256]"

definition next_block :: "u32 list \<Rightarrow> u32 list \<Rightarrow> u32 list" where
  "next_block ctx block = map (\<lambda>c. drop_bit 8 c XOR ctx ! unat (c AND 0xFF)) block"

definition av_crc_init :: "bool \<Rightarrow> nat \<Rightarrow> u32 \<Rightarrow> nat \<Rightarrow> u32 list res" where
  "av_crc_init le bits poly ctx_size =
     (if bits < 8 \<or> 32 < bits \<or> 2 ^ bits \<le> unat poly then Err EINVAL
      else if ctx_size \<noteq> 257 \<and> ctx_size \<noteq> 1024 then Err EINVAL
      else
        let b0 = first_block le bits poly;
            b1 = next_block b0 b0; b2 = next_block b0 b1; b3 = next_block b0 b2
        in if ctx_size = 1024 then Ok (b0 @ b1 @ b2 @ b3) else Ok (b0 @ [1]))"

datatype AVCRCId =
    AV_CRC_8_ATM | AV_CRC_16_ANSI | AV_CRC_16_CCITT | AV_CRC_32_IEEE | AV_CRC_32_IEEE_LE
  | AV_CRC_16_ANSI_LE | AV_CRC_24_IEEE | AV_CRC_8_EBU

fun crc_parameters :: "AVCRCId \<Rightarrow> bool \<times> nat \<times> u32" where
  "crc_parameters AV_CRC_8_ATM = (False, 8, 0x07)"
| "crc_parameters AV_CRC_8_EBU = (False, 8, 0x1D)"
| "crc_parameters AV_CRC_16_ANSI = (False, 16, 0x8005)"
| "crc_parameters AV_CRC_16_CCITT = (False, 16, 0x1021)"
| "crc_parameters AV_CRC_24_IEEE = (False, 24, 0x864CFB)"
| "crc_parameters AV_CRC_32_IEEE = (False, 32, 0x04C11DB7)"
| "crc_parameters AV_CRC_32_IEEE_LE = (True, 32, 0xEDB88320)"
| "crc_parameters AV_CRC_16_ANSI_LE = (True, 16, 0xA001)"

text \<open>The table of an id; \<open>av_assert0\<close> on the result of \<open>av_crc_init\<close> aborts on an error.\<close>

definition av_crc_get_table :: "AVCRCId \<Rightarrow> u32 list" where
  "av_crc_get_table i =
     (let (le, bits, poly) = crc_parameters i
      in case av_crc_init le bits poly 1024 of Inr t \<Rightarrow> t | Inl _ \<Rightarrow> [])"

section \<open>The checksum loop\<close>

definition crc_byte :: "u32 list \<Rightarrow> u32 \<Rightarrow> u8 \<Rightarrow> u32" where
  "crc_byte ctx crc b = ctx ! unat ((ucast crc :: u8) XOR b) XOR drop_bit 8 crc"

definition crc_bytes :: "u32 list \<Rightarrow> u32 \<Rightarrow> bytes \<Rightarrow> u32" where
  "crc_bytes ctx = foldl (crc_byte ctx)"

definition crc_word :: "u32 list \<Rightarrow> u32 \<Rightarrow> u32 \<Rightarrow> u32" where
  "crc_word ctx crc v =
     (let crc = crc XOR v
      in ctx ! (3 * 256 + unat (crc AND 0xFF)) XOR
         ctx ! (2 * 256 + unat (drop_bit 8 crc AND 0xFF)) XOR
         ctx ! (1 * 256 + unat (drop_bit 16 crc AND 0xFF)) XOR
         ctx ! (0 * 256 + unat (drop_bit 24 crc)))"

text \<open>\<open>av_le2ne32(*(const uint32_t *) buffer)\<close> while at least four bytes are left.\<close>

fun crc_words :: "u32 list \<Rightarrow> u32 \<Rightarrow> bytes \<Rightarrow> u32" where
  "crc_words ctx crc (a # b # c # d # bs) = crc_words ctx (crc_word ctx crc (rb32 d c b a)) bs"
| "crc_words ctx crc bs = crc_bytes ctx crc bs"

text \<open>\<open>align\<close> is the address of the buffer modulo 4.\<close>

definition av_crc :: "u32 list \<Rightarrow> nat \<Rightarrow> u32 \<Rightarrow> bytes \<Rightarrow> u32" where
  "av_crc ctx align crc buffer =
     (if ctx ! 256 = 0 then
        let k = (4 - align mod 4) mod 4
        in crc_words ctx (crc_bytes ctx crc (take k buffer)) (drop k buffer)
      else crc_bytes ctx crc buffer)"

section \<open>Linearity over exclusive or\<close>

definition linear :: "('a::len word \<Rightarrow> 'b::len word) \<Rightarrow> bool" where
  "linear f \<longleftrightarrow> (\<forall>x y. f (x XOR y) = f x XOR f y)"

lemma linearD: "linear f \<Longrightarrow> f (x XOR y) = f x XOR f y"
  by (simp add: linear_def)

lemma linear_0: "linear f \<Longrightarrow> f 0 = 0"
  using linearD [of f 0 0] by simp

lemma linear_funpow: "linear f \<Longrightarrow> linear (f ^^ n)" for f :: "'a::len word \<Rightarrow> 'a word"
proof (induction n)
  case 0
  show ?case by (simp add: linear_def)
next
  case (Suc n)
  then have "linear (f ^^ n)" by simp
  then show ?case using Suc.prems by (simp add: linear_def)
qed

lemma linear_comp: "linear f \<Longrightarrow> linear g \<Longrightarrow> linear (\<lambda>x. f (g x))"
  by (simp add: linear_def)

lemma be_step_alt: "be_step poly c = push_bit 1 c XOR (if bit c 31 then poly else 0)"
proof -
  have "signed_drop_bit 31 c = (if bit c 31 then - 1 else 0)"
  proof (rule bit_word_eqI)
    fix n assume "n < LENGTH(32)"
    then have "\<not> bit c (31 + n) \<or> n = 0" by (auto dest: bit_imp_le_length)
    with \<open>n < LENGTH(32)\<close> show "bit (signed_drop_bit 31 c) n = bit (if bit c 31 then - 1 else 0 :: u32) n"
      by (cases "n = 0") (auto simp: bit_signed_drop_bit_iff)
  qed
  then show ?thesis by (simp add: be_step_def)
qed

lemma le_step_alt: "le_step poly c = drop_bit 1 c XOR (if bit c 0 then poly else 0)"
proof -
  have "c AND 1 = (if bit c 0 then 1 else 0)"
    by (simp add: and_one_eq bit_0 odd_iff_mod_2_eq_one)
  then show ?thesis by (simp add: le_step_def)
qed

lemma linear_be_step: "linear (be_step poly)"
  by (auto simp: linear_def be_step_alt push_bit_xor bit_xor_iff xor.left_commute xor.assoc xor.commute)

lemma linear_le_step: "linear (le_step poly)"
  by (auto simp: linear_def le_step_alt drop_bit_xor bit_xor_iff xor.left_commute xor.assoc xor.commute)

text \<open>Steps over zero bits only shift.\<close>

lemma le_steps_shift: "(\<forall>i < n. \<not> bit y i) \<Longrightarrow> (le_step poly ^^ n) y = drop_bit n y"
proof (induction n)
  case (Suc n)
  then have "(le_step poly ^^ n) y = drop_bit n y" by simp
  moreover have "\<not> bit (drop_bit n y) 0" using Suc.prems by (simp add: bit_drop_bit_eq)
  ultimately have "(le_step poly ^^ Suc n) y = drop_bit 1 (drop_bit n y)"
    by (simp only: funpow.simps o_apply le_step_alt [of poly "drop_bit n y"]) simp
  then show ?case by (simp only: drop_bit_drop_bit plus_1_eq_Suc)
qed simp

lemma be_steps_shift:
  "(\<forall>i < n. \<not> bit y (31 - i)) \<Longrightarrow> n \<le> 32 \<Longrightarrow> (be_step poly ^^ n) y = push_bit n y"
proof (induction n)
  case (Suc n)
  then have "(be_step poly ^^ n) y = push_bit n y" by simp
  moreover have "\<not> bit (push_bit n y) 31" using Suc.prems by (simp add: bit_push_bit_iff)
  ultimately have "(be_step poly ^^ Suc n) y = push_bit 1 (push_bit n y)"
    by (simp only: funpow.simps o_apply be_step_alt [of poly "push_bit n y"]) simp
  then show ?case by (simp only: push_bit_push_bit plus_1_eq_Suc)
qed simp

section \<open>The byte transformer of a table\<close>

text \<open>Where bit \<open>n\<close> of a swapped word comes from.\<close>

definition bswap_ix :: "nat \<Rightarrow> nat" where
  "bswap_ix n = 24 - 8 * (n div 8) + n mod 8"

lemma bit_bswap32:
  "bit (av_bswap32 x) n \<longleftrightarrow> n < 32 \<and> bit x (bswap_ix n)"
proof (cases "n < 32")
  case True
  then consider "n < 8" | "8 \<le> n" "n < 16" | "16 \<le> n" "n < 24" | "24 \<le> n" "n < 32"
    by fastforce
  then show ?thesis
  proof cases
    case 1
    then show ?thesis by (auto simp: av_bswap32_def rb32_def bit_simps bswap_ix_def)
  next
    case 2
    then have "n div 8 = 1" "n mod 8 = n - 8" by presburger+
    with 2 show ?thesis by (auto simp: av_bswap32_def rb32_def bit_simps bswap_ix_def)
  next
    case 3
    then have "n div 8 = 2" "n mod 8 = n - 16" by presburger+
    with 3 show ?thesis by (auto simp: av_bswap32_def rb32_def bit_simps bswap_ix_def)
  next
    case 4
    then have "n div 8 = 3" "n mod 8 = n - 24" by presburger+
    with 4 show ?thesis by (auto simp: av_bswap32_def rb32_def bit_simps bswap_ix_def)
  qed
qed (auto dest: bit_imp_le_length)

text \<open>Facts on the 32 bit positions, checked one by one.\<close>

lemma bswap_index:
  assumes "n < 32"
  shows "bswap_ix n < 32" and "bswap_ix (bswap_ix n) = n"
proof -
  have "list_all (\<lambda>n. bswap_ix n < 32 \<and> bswap_ix (bswap_ix n) = n) [0..<32]"
    by code_simp
  with assms show "bswap_ix n < 32" and "bswap_ix (bswap_ix n) = n"
    by (simp_all add: list_all_iff)
qed

lemma bswap_index_shift:
  assumes "n < 24"
  shows "8 \<le> bswap_ix n" and "bswap_ix n - 8 = bswap_ix (8 + n)"
proof -
  have "list_all (\<lambda>n. 8 \<le> bswap_ix n \<and> bswap_ix n - 8 = bswap_ix (8 + n)) [0..<24]"
    by code_simp
  with assms show "8 \<le> bswap_ix n" and "bswap_ix n - 8 = bswap_ix (8 + n)"
    by (simp_all add: list_all_iff)
qed

lemma high_byte_index:
  assumes "24 \<le> n" "n < 32"
  shows "bswap_ix n = n - 24"
proof -
  have "list_all (\<lambda>k. bswap_ix (24 + k) = k) [0..<8]"
    by code_simp
  with assms show ?thesis by (simp only: list_all_iff set_upt) (drule bspec [of _ _ "n - 24"]; simp)
qed

lemma low_byte_index: "n < 24 \<Longrightarrow> 8 \<le> bswap_ix n"
  by (rule bswap_index_shift)

lemma bswap32_bswap32 [simp]: "av_bswap32 (av_bswap32 x) = x"
  by (rule bit_word_eqI) (simp add: bit_bswap32 bswap_index)

lemma linear_bswap32: "linear av_bswap32"
  unfolding linear_def
  by (intro allI bit_word_eqI) (simp add: bit_bswap32 bit_xor_iff)

lemma bswap32_push8: "av_bswap32 (push_bit 8 y) = drop_bit 8 (av_bswap32 y)"
proof (rule bit_word_eqI)
  fix n assume "n < LENGTH(32)"
  then have n: "n < 32" by simp
  show "bit (av_bswap32 (push_bit 8 y)) n = bit (drop_bit 8 (av_bswap32 y)) n"
  proof (cases "n < 24")
    case True
    with n show ?thesis
      by (simp add: bit_bswap32 bit_push_bit_iff bit_drop_bit_eq bswap_index bswap_index_shift)
  next
    case False
    with n have "bswap_ix n < 8" using high_byte_index [of n] by simp
    with False n show ?thesis
      by (simp add: bit_bswap32 bit_push_bit_iff bit_drop_bit_eq)
  qed
qed

text \<open>The effect of one byte on the register, bit by bit.\<close>

definition crc_shift :: "bool \<Rightarrow> nat \<Rightarrow> u32 \<Rightarrow> u32 \<Rightarrow> u32" where
  "crc_shift le bits poly x =
     (if le then (le_step poly ^^ 8) x
      else av_bswap32 ((be_step (push_bit (32 - bits) poly) ^^ 8) (av_bswap32 x)))"

lemma linear_crc_shift: "linear (crc_shift le bits poly)"
proof (cases le)
  case True
  then show ?thesis
    using linear_funpow [OF linear_le_step] by (simp add: crc_shift_def [abs_def])
next
  case False
  then show ?thesis
    using linear_comp [OF linear_bswap32 linear_comp [OF linear_funpow [OF linear_be_step] linear_bswap32]]
    by (simp add: crc_shift_def [abs_def])
qed

lemma bit_mask_ff: "bit (0xFF :: u32) n \<longleftrightarrow> n < 8"
proof -
  have eq: "mask 8 = (0xFF :: u32)" by (simp add: mask_eq_exp_minus_1)
  show ?thesis
    unfolding eq [symmetric] by (auto simp only: bit_mask_iff; simp)
qed

lemma crc_shift_high:
  assumes "\<forall>i < 8. \<not> bit y i"
  shows "crc_shift le bits poly y = drop_bit 8 y"
proof (cases le)
  case True
  with assms show ?thesis by (simp add: crc_shift_def le_steps_shift)
next
  case False
  have "\<not> bit (av_bswap32 y) (31 - i)" if "i < 8" for i
    using that assms high_byte_index [of "31 - i"] by (simp add: bit_bswap32)
  with False show ?thesis
    by (simp add: crc_shift_def be_steps_shift bswap32_push8)
qed

lemma bswap32_byte: "x AND 0xFF = x \<Longrightarrow> av_bswap32 x = push_bit 24 x"
proof (rule bit_word_eqI)
  fix n assume x: "x AND 0xFF = x" and n: "n < LENGTH(32)"
  have z: "\<not> bit x k" if "8 \<le> k" for k
    using that x by (metis bit_and_iff bit_mask_ff not_le)
  show "bit (av_bswap32 x) n = bit (push_bit 24 x) n"
  proof (cases "n < 24")
    case True
    then show ?thesis using z low_byte_index by (simp add: bit_bswap32 bit_push_bit_iff)
  next
    case False
    with n high_byte_index [of n] show ?thesis by (simp add: bit_bswap32 bit_push_bit_iff)
  qed
qed

lemma crc_shift_entry: "x AND 0xFF = x \<Longrightarrow> crc_entry le bits poly x = crc_shift le bits poly x"
  by (simp add: crc_entry_def crc_shift_def bswap32_byte)

lemma crc_shift_split:
  "crc_shift le bits poly x = crc_shift le bits poly (x AND 0xFF) XOR drop_bit 8 x"
proof -
  have "x = (x AND 0xFF) XOR (x AND NOT 0xFF)"
    by (rule bit_word_eqI)
      (simp only: bit_and_iff bit_xor_iff bit_not_iff bit_drop_bit_eq bit_mask_ff possible_bit_word o_apply,
        auto dest: bit_imp_le_length)
  then have "crc_shift le bits poly x
      = crc_shift le bits poly (x AND 0xFF) XOR crc_shift le bits poly (x AND NOT 0xFF)"
    using linearD [OF linear_crc_shift] by metis
  also have "crc_shift le bits poly (x AND NOT 0xFF) = drop_bit 8 (x AND NOT 0xFF)"
    by (rule crc_shift_high) (simp only: bit_and_iff bit_not_iff bit_mask_ff, simp)
  also have "drop_bit 8 (x AND NOT 0xFF) = drop_bit 8 x"
    by (rule bit_word_eqI)
      (simp only: bit_and_iff bit_xor_iff bit_not_iff bit_drop_bit_eq bit_mask_ff possible_bit_word o_apply,
        auto dest: bit_imp_le_length)
  finally show ?thesis .
qed

section \<open>The tables hold the powers of the byte transformer\<close>

definition table_of :: "bool \<Rightarrow> nat \<Rightarrow> u32 \<Rightarrow> nat \<Rightarrow> u32 list" where
  "table_of le bits poly k = map (\<lambda>i. (crc_shift le bits poly ^^ k) (of_nat i)) [0..<256]"

lemma unat_byte: "unat (x AND 0xFF :: u32) < 256"
proof -
  have "x AND 0xFF \<le> (0xFF :: u32)" by (rule word_and_le1)
  then have "unat (x AND 0xFF) \<le> unat (0xFF :: u32)" by (simp only: word_le_nat_alt)
  then show ?thesis by simp
qed

lemma of_nat_byte: "i < 256 \<Longrightarrow> (of_nat i :: u32) AND 0xFF = of_nat i"
proof -
  assume i: "i < 256"
  have "(0xFF :: u32) = mask 8" by (simp add: mask_eq_exp_minus_1)
  then have "(of_nat i :: u32) AND 0xFF = take_bit 8 (of_nat i)" by (simp only: take_bit_eq_mask)
  also have "\<dots> = of_nat i"
    using i by (simp only: take_bit_of_nat take_bit_nat_eq_self_iff) (simp add: take_bit_nat_eq_self)
  finally show ?thesis .
qed

lemma nth_table: "table_of le bits poly k ! unat (x AND 0xFF) = (crc_shift le bits poly ^^ k) (x AND 0xFF)"
  using unat_byte [of x] by (simp add: table_of_def)

lemma first_block_table: "first_block le bits poly = table_of le bits poly 1"
  unfolding table_of_def first_block_def
  by (rule map_cong [OF refl]) (simp add: crc_shift_entry of_nat_byte del: upt_rec_numeral)

lemma further_block:
  "next_block (table_of le bits poly 1) (table_of le bits poly k) = table_of le bits poly (Suc k)"
proof -
  have "drop_bit 8 c XOR table_of le bits poly 1 ! unat (c AND 0xFF) = crc_shift le bits poly c" for c
    using crc_shift_split [of le bits poly c] by (simp only: nth_table) (simp add: xor.commute)
  then show ?thesis
    by (simp add: next_block_def table_of_def del: upt_rec_numeral)
qed

lemma av_crc_init_table:
  assumes "av_crc_init le bits poly ctx_size = Ok ctx"
  shows "ctx = table_of le bits poly 1 @ [1] \<or>
     ctx = table_of le bits poly 1 @ table_of le bits poly 2 @ table_of le bits poly 3 @ table_of le bits poly 4"
  using assms
  by (simp add: av_crc_init_def Let_def first_block_table further_block [unfolded One_nat_def]
        numeral_eq_Suc split: if_splits)

lemma length_table [simp]: "length (table_of le bits poly k) = 256"
  by (simp add: table_of_def)

text \<open>The bit-serial checksum: each byte enters the low (reflected) or high end of the register.\<close>

definition crc_reference :: "bool \<Rightarrow> nat \<Rightarrow> u32 \<Rightarrow> u32 \<Rightarrow> bytes \<Rightarrow> u32" where
  "crc_reference le bits poly crc buffer =
     (if le then foldl (\<lambda>c b. (le_step poly ^^ 8) (c XOR ucast b)) crc buffer
      else av_bswap32 (foldl (\<lambda>c b. (be_step (push_bit (32 - bits) poly) ^^ 8) (c XOR push_bit 24 (ucast b)))
             (av_bswap32 crc) buffer))"

lemma byte_and_ff: "(ucast b :: u32) AND 0xFF = ucast b" for b :: u8
proof (rule bit_word_eqI)
  fix n
  show "bit ((ucast b :: u32) AND 0xFF) n = bit (ucast b :: u32) n"
    by (simp only: bit_and_iff bit_mask_ff) (auto simp: bit_ucast_iff dest: bit_imp_le_length)
qed

lemma crc_reference_shift:
  "crc_reference le bits poly crc buffer = foldl (\<lambda>c b. crc_shift le bits poly (c XOR ucast b)) crc buffer"
proof (cases le)
  case True
  then show ?thesis by (simp add: crc_reference_def crc_shift_def)
next
  case False
  have "av_bswap32 (foldl (\<lambda>c b. (be_step p ^^ 8) (c XOR push_bit 24 (ucast b))) (av_bswap32 crc) buffer)
      = foldl (\<lambda>c b. av_bswap32 ((be_step p ^^ 8) (av_bswap32 (c XOR ucast b)))) crc buffer" for p
  proof (induction buffer arbitrary: crc)
    case (Cons b bs)
    have "(be_step p ^^ 8) (av_bswap32 crc XOR push_bit 24 (ucast b))
        = av_bswap32 (av_bswap32 ((be_step p ^^ 8) (av_bswap32 (crc XOR ucast b))))"
      by (simp add: linearD [OF linear_bswap32] bswap32_byte byte_and_ff)
    then show ?case by (simp only: foldl.simps Cons.IH)
  qed simp
  with False show ?thesis by (simp add: crc_reference_def crc_shift_def)
qed

section \<open>The checksum loop on a table\<close>

lemma unat_ucast_byte: "unat (ucast b :: u32) = unat b" for b :: u8
proof -
  have "unat b < 2 ^ LENGTH(8)" by (rule unsigned_less)
  then show ?thesis by (simp add: unsigned_ucast_eq take_bit_nat_eq_self)
qed

lemma crc_byte_shift:
  assumes "take 256 ctx = table_of le bits poly 1"
  shows "crc_byte ctx crc b = crc_shift le bits poly (crc XOR ucast b)"
proof -
  have u: "unat ((ucast crc :: u8) XOR b) = unat ((crc XOR ucast b) AND 0xFF)"
  proof -
    have "(ucast ((ucast crc :: u8) XOR b) :: u32) = (crc XOR ucast b) AND 0xFF"
      by (rule bit_word_eqI)
        (simp only: bit_and_iff bit_mask_ff, auto simp: bit_simps dest: bit_imp_le_length)
    then have "unat (ucast ((ucast crc :: u8) XOR b) :: u32) = unat ((crc XOR ucast b) AND 0xFF)"
      by (simp only:)
    then show ?thesis by (simp only: unat_ucast_byte)
  qed
  have "ctx ! k = table_of le bits poly 1 ! k" if "k < 256" for k
    using that assms by (metis nth_take)
  moreover have "drop_bit 8 (crc XOR ucast b) = drop_bit 8 crc"
    by (rule bit_word_eqI) (auto simp: bit_simps dest: bit_imp_le_length)
  ultimately show ?thesis
    unfolding crc_byte_def u crc_shift_split [of le bits poly "crc XOR ucast b"]
    using unat_byte [of "crc XOR ucast b"] nth_table [of le bits poly 1 "crc XOR ucast b"]
    by (simp only: funpow.simps One_nat_def o_id o_apply id_apply)
qed

lemma crc_bytes_shift:
  assumes "take 256 ctx = table_of le bits poly 1"
  shows "crc_bytes ctx crc buffer = foldl (\<lambda>c b. crc_shift le bits poly (c XOR ucast b)) crc buffer"
  unfolding crc_bytes_def by (induction buffer arbitrary: crc) (simp_all add: crc_byte_shift [OF assms])

text \<open>Four bytes at once: the register decomposed into its bytes, each shifted out by its table.\<close>

lemma crc_shift_push:
  assumes "drop_bit 24 y = 0"
  shows "crc_shift le bits poly (push_bit 8 y) = y"
proof -
  have "crc_shift le bits poly (push_bit 8 y) = drop_bit 8 (push_bit 8 y)"
    by (rule crc_shift_high) (auto simp: bit_push_bit_iff)
  also have "\<dots> = y"
  proof (rule bit_word_eqI)
    fix n assume "n < LENGTH(32)"
    have "\<not> bit (drop_bit 24 y) (n - 24)" using assms by simp
    then show "bit (drop_bit 8 (push_bit 8 y)) n = bit y n"
      using \<open>n < LENGTH(32)\<close>
      by (cases "n < 24") (auto simp: bit_push_bit_iff bit_drop_bit_eq dest: bit_imp_le_length)
  qed
  finally show ?thesis .
qed

lemma drop_push_byte:
  assumes "y AND 0xFF = y" and "k \<le> 16"
  shows "drop_bit 24 (push_bit k y :: u32) = 0"
proof (rule bit_word_eqI)
  fix n
  have "\<not> bit y m" if "8 \<le> m" for m
    using assms(1) that by (metis bit_and_iff bit_mask_ff not_le)
  then have "\<not> bit y (24 + n - k)" using assms(2) by simp
  then show "bit (drop_bit 24 (push_bit k y)) n = bit (0 :: u32) n"
    using assms(2) by (simp add: bit_drop_bit_eq bit_push_bit_iff)
qed

lemma four_bytes_shift:
  assumes y: "y1 AND 0xFF = y1" "y2 AND 0xFF = y2" "y3 AND 0xFF = y3"
    and F: "F = crc_shift le bits poly"
  shows "(F ^^ 4) (x XOR push_bit 8 y1 XOR push_bit 16 y2 XOR push_bit 24 y3)
       = (F ^^ 4) x XOR (F ^^ 3) y1 XOR (F ^^ 2) y2 XOR F y3"
proof -
  have p: "F (push_bit (k + 8) y) = push_bit k y" if "y AND 0xFF = y" "k \<le> 16" for k y
    using crc_shift_push [OF drop_push_byte [OF that]] by (simp add: F add.commute)
  have "F (push_bit 8 y1) = y1" using p [of y1 0] y by simp
  moreover have "F (F (push_bit 16 y2)) = y2" using p [of y2 8] p [of y2 0] y by simp
  moreover have "F (F (F (push_bit 24 y3))) = y3"
    using p [of y3 16] p [of y3 8] p [of y3 0] y by simp
  moreover have "linear F" unfolding F by (rule linear_crc_shift)
  ultimately show ?thesis
    by (simp add: linearD numeral_eq_Suc)
qed

lemma word_bytes:
  "x = (x AND 0xFF) XOR push_bit 8 (drop_bit 8 x AND 0xFF) XOR push_bit 16 (drop_bit 16 x AND 0xFF)
       XOR push_bit 24 (drop_bit 24 x :: u32)"
proof (rule bit_word_eqI)
  fix n assume "n < LENGTH(32)"
  then consider "n < 8" | "8 \<le> n" "n < 16" | "16 \<le> n" "n < 24" | "24 \<le> n" "n < 32"
    by fastforce
  then show "bit x n = bit ((x AND 0xFF) XOR push_bit 8 (drop_bit 8 x AND 0xFF)
      XOR push_bit 16 (drop_bit 16 x AND 0xFF) XOR push_bit 24 (drop_bit 24 x)) n"
    by cases (simp_all only: bit_xor_iff bit_and_iff bit_mask_ff bit_push_bit_iff bit_drop_bit_eq o_apply
        possible_bit_word, auto)
qed

lemma drop24_byte: "drop_bit 24 x AND 0xFF = (drop_bit 24 x :: u32)"
proof (rule bit_word_eqI)
  fix n
  show "bit (drop_bit 24 x AND 0xFF) n = bit (drop_bit 24 x) n"
    by (simp only: bit_and_iff bit_mask_ff bit_drop_bit_eq o_apply) (auto dest: bit_imp_le_length)
qed

lemma rb32_xor:
  "rb32 d c b a = ucast a XOR push_bit 8 (ucast b) XOR push_bit 16 (ucast c) XOR push_bit 24 (ucast d)"
proof (rule bit_word_eqI)
  fix n assume "n < LENGTH(32)"
  then consider "n < 8" | "8 \<le> n" "n < 16" | "16 \<le> n" "n < 24" | "24 \<le> n" "n < 32"
    by fastforce
  then show "bit (rb32 d c b a) n = bit (ucast a XOR push_bit 8 (ucast b)
      XOR push_bit 16 (ucast c) XOR push_bit 24 (ucast d) :: u32) n"
    by cases (auto simp: rb32_def bit_simps dest: bit_imp_le_length)
qed

definition large_table :: "bool \<Rightarrow> nat \<Rightarrow> u32 \<Rightarrow> u32 list" where
  "large_table le bits poly =
     table_of le bits poly 1 @ table_of le bits poly 2 @ table_of le bits poly 3 @ table_of le bits poly 4"

lemma nth_large:
  "large_table le bits poly ! (3 * 256 + unat (x AND 0xFF)) = (crc_shift le bits poly ^^ 4) (x AND 0xFF)"
  "large_table le bits poly ! (2 * 256 + unat (x AND 0xFF)) = (crc_shift le bits poly ^^ 3) (x AND 0xFF)"
  "large_table le bits poly ! (1 * 256 + unat (x AND 0xFF)) = (crc_shift le bits poly ^^ 2) (x AND 0xFF)"
  "large_table le bits poly ! (0 * 256 + unat (x AND 0xFF)) = (crc_shift le bits poly ^^ 1) (x AND 0xFF)"
  using unat_byte [of x] nth_table [of le bits poly _ x]
  by (simp_all only: large_table_def nth_append length_table) simp_all

lemma take_large: "take 256 (large_table le bits poly) = table_of le bits poly 1"
  by (simp add: large_table_def)

lemma crc_word_bytes:
  assumes "ctx = large_table le bits poly"
  shows "crc_word ctx crc (rb32 d c b a) = crc_bytes ctx crc [a, b, c, d]"
proof -
  let ?F = "crc_shift le bits poly"
  define x where "x = crc XOR rb32 d c b a"
  have "crc_word ctx crc (rb32 d c b a) =
      (?F ^^ 4) (x AND 0xFF) XOR (?F ^^ 3) (drop_bit 8 x AND 0xFF) XOR (?F ^^ 2) (drop_bit 16 x AND 0xFF)
        XOR ?F (drop_bit 24 x)"
    unfolding crc_word_def Let_def assms x_def [symmetric]
    using nth_large [of le bits poly x] nth_large [of le bits poly "drop_bit 8 x"]
      nth_large [of le bits poly "drop_bit 16 x"] nth_large [of le bits poly "drop_bit 24 x"]
    by (simp only: drop24_byte funpow.simps One_nat_def o_id o_apply id_apply)
  also have "\<dots> = (?F ^^ 4) x"
    using four_bytes_shift [OF _ _ _ refl, of "drop_bit 8 x AND 0xFF" "drop_bit 16 x AND 0xFF" "drop_bit 24 x"
        le bits poly "x AND 0xFF"] word_bytes [of x]
    by (simp only: drop24_byte and.assoc and.idem)
  also have "\<dots> = (?F ^^ 4) (crc XOR ucast a) XOR (?F ^^ 3) (ucast b) XOR (?F ^^ 2) (ucast c) XOR ?F (ucast d)"
    using four_bytes_shift [OF _ _ _ refl, of "ucast b" "ucast c" "ucast d" le bits poly "crc XOR ucast a"]
    by (simp only: x_def rb32_xor byte_and_ff xor.assoc)
  also have "\<dots> = crc_bytes ctx crc [a, b, c, d]"
    by (simp add: assms crc_bytes_shift [OF take_large] linearD [OF linear_crc_shift] numeral_eq_Suc
        xor.assoc)
  finally show ?thesis .
qed

lemma crc_words_bytes:
  "ctx = large_table le bits poly \<Longrightarrow> crc_words ctx crc buffer = crc_bytes ctx crc buffer"
proof (induction ctx crc buffer rule: crc_words.induct)
  case (1 ctx crc a b c d bs)
  then show ?case
    by (simp add: crc_word_bytes del: crc_words.simps(2-)) (simp add: crc_bytes_def)
qed simp_all

lemma av_crc_bytes:
  assumes "av_crc_init le bits poly ctx_size = Ok ctx"
  shows "av_crc ctx align crc buffer = crc_bytes ctx crc buffer"
proof (cases "ctx = large_table le bits poly")
  case True
  have "crc_words ctx (crc_bytes ctx crc (take k buffer)) (drop k buffer) = crc_bytes ctx crc buffer" for k
  proof -
    have "crc_bytes ctx crc buffer = crc_bytes ctx crc (take k buffer @ drop k buffer)" by simp
    also have "\<dots> = crc_bytes ctx (crc_bytes ctx crc (take k buffer)) (drop k buffer)"
      unfolding crc_bytes_def by (rule foldl_append)
    finally show ?thesis by (simp only: crc_words_bytes [OF True])
  qed
  then show ?thesis by (simp add: av_crc_def Let_def)
next
  case False
  with av_crc_init_table [OF assms] have "ctx = table_of le bits poly 1 @ [1]"
    by (auto simp: large_table_def)
  then have "ctx ! 256 = 1" by (simp only: nth_append length_table) simp
  then show ?thesis by (simp add: av_crc_def)
qed

lemma av_crc_init_take:
  assumes "av_crc_init le bits poly ctx_size = Ok ctx"
  shows "take 256 ctx = table_of le bits poly 1"
  using av_crc_init_table [OF assms] by auto

lemma get_table_init:
  "crc_parameters i = (le, bits, poly) \<Longrightarrow> av_crc_init le bits poly 1024 = Ok (av_crc_get_table i)"
  by (cases i) (auto simp: av_crc_get_table_def av_crc_init_def Let_def)

section \<open>Error detection\<close>

text \<open>With an odd polynomial no step loses information.\<close>

lemma be_step_inj0: "be_step poly c = 0 \<Longrightarrow> bit poly 0 \<Longrightarrow> c = 0"
proof -
  assume z: "be_step poly c = 0" and odd: "bit poly 0"
  have "bit (be_step poly c) 0 = bit c 31"
    using odd by (simp only: be_step_alt bit_xor_iff bit_push_bit_iff) simp
  with z have n: "\<not> bit c 31" by simp
  with z have z': "push_bit 1 c = 0" by (simp add: be_step_alt)
  show "c = 0"
  proof (rule bit_word_eqI)
    fix n :: nat assume "n < LENGTH(32)"
    then have "n = 31 \<or> n < 31" by auto
    moreover have "bit (push_bit 1 c) (Suc n) \<longleftrightarrow> Suc n < 32 \<and> bit c n"
      by (simp only: bit_push_bit_iff) simp
    then have "\<not> (Suc n < 32 \<and> bit c n)" unfolding z' by simp
    ultimately show "bit c n = bit 0 n" using n by auto
  qed
qed

lemma be_steps_inj0: "(be_step poly ^^ n) c = 0 \<Longrightarrow> bit poly 0 \<Longrightarrow> c = 0"
  by (induction n) (auto dest: be_step_inj0)

lemma crc_shift_inj0:
  assumes "crc_shift False 32 poly x = 0" and "bit poly 0"
  shows "x = 0"
proof -
  have b0: "av_bswap32 0 = 0" by (rule linear_0 [OF linear_bswap32])
  have "av_bswap32 ((be_step poly ^^ 8) (av_bswap32 x)) = 0"
    using assms(1) by (simp add: crc_shift_def)
  then have "(be_step poly ^^ 8) (av_bswap32 x) = 0" using b0 by (metis bswap32_bswap32)
  then have "av_bswap32 x = 0" using assms(2) by (rule be_steps_inj0)
  then show "x = 0" using b0 by (metis bswap32_bswap32)
qed

lemma xor_neq: "a \<noteq> b \<Longrightarrow> x XOR a \<noteq> x XOR (b :: u32)"
proof
  assume ne: "a \<noteq> b" and "x XOR a = x XOR b"
  then have "x XOR (x XOR a) = x XOR (x XOR b)" by simp
  with ne show False by (simp add: xor.assoc [symmetric])
qed

lemma crc_shift_neq:
  assumes "x \<noteq> y" and "bit poly 0"
  shows "crc_shift False 32 poly x \<noteq> crc_shift False 32 poly y"
proof
  assume "crc_shift False 32 poly x = crc_shift False 32 poly y"
  then have "crc_shift False 32 poly (x XOR y) = 0"
    by (simp only: linearD [OF linear_crc_shift] xor_self_eq)
  then have "x XOR y = 0" using assms(2) by (rule crc_shift_inj0)
  then have "(x XOR y) XOR y = y" by simp
  then show False using assms(1) by (simp add: xor.assoc)
qed

lemma fold_shift_inj:
  assumes "bit poly 0" and "c \<noteq> d"
  shows "foldl (\<lambda>c b. crc_shift False 32 poly (c XOR ucast b)) c buffer
       \<noteq> foldl (\<lambda>c b. crc_shift False 32 poly (c XOR ucast b)) d buffer"
  using assms(2)
proof (induction buffer arbitrary: c d)
  case (Cons b bs)
  have "c XOR ucast b \<noteq> d XOR ucast b"
    using Cons.prems by (metis xor.assoc xor_self_eq xor.right_neutral)
  from Cons.IH [OF crc_shift_neq [OF this assms(1)]] show ?case by simp
qed simp

lemma ucast_byte_inj: "(ucast a :: u32) = ucast b \<Longrightarrow> a = b" for a b :: u8
  by (metis unat_ucast_byte word_unat_eq_iff)

text \<open>The IEEE checksum changes whenever one byte of the buffer changes.\<close>

lemma ieee_detects_byte:
  assumes "i < length buffer" and "buffer ! i \<noteq> b"
  shows "av_crc (av_crc_get_table AV_CRC_32_IEEE) align crc (buffer[i := b])
       \<noteq> av_crc (av_crc_get_table AV_CRC_32_IEEE) align crc buffer"
proof -
  let ?F = "\<lambda>c b. crc_shift False 32 0x04C11DB7 (c XOR ucast b)"
  let ?c = "foldl ?F crc (take i buffer)"
  have init: "av_crc_init False 32 0x04C11DB7 1024 = Ok (av_crc_get_table AV_CRC_32_IEEE)"
    by (rule get_table_init) simp
  have e: "av_crc (av_crc_get_table AV_CRC_32_IEEE) align crc buf = foldl ?F crc buf" for buf
    by (simp only: av_crc_bytes [OF init] crc_bytes_shift [OF av_crc_init_take [OF init]])
  have "(ucast b :: u32) \<noteq> ucast (buffer ! i)" using assms(2) ucast_byte_inj by blast
  then have "?c XOR ucast b \<noteq> ?c XOR ucast (buffer ! i)"
    by (rule xor_neq)
  then have "?F ?c b \<noteq> ?F ?c (buffer ! i)"
    by (rule crc_shift_neq) simp
  then have "foldl ?F (?F ?c b) (drop (Suc i) buffer) \<noteq> foldl ?F (?F ?c (buffer ! i)) (drop (Suc i) buffer)"
    by (intro fold_shift_inj) simp_all
  moreover have "foldl ?F crc buffer = foldl ?F (?F ?c (buffer ! i)) (drop (Suc i) buffer)"
    using arg_cong [OF id_take_nth_drop [OF assms(1)], of "foldl ?F crc"]
    by (simp only: foldl_append foldl_Cons)
  moreover have "foldl ?F crc (buffer[i := b]) = foldl ?F (?F ?c b) (drop (Suc i) buffer)"
    by (simp only: upd_conv_take_nth_drop [OF assms(1)] foldl_append foldl_Cons)
  ultimately show ?thesis
    unfolding e by (simp only: not_False_eq_True)
qed

section \<open>Properties\<close>

text \<open>C17. For every table that \<open>av_crc_init\<close> builds, small or large, \<open>av_crc\<close> computes the
  bit-serial CRC of the buffer, whatever the alignment of the buffer in memory: the path
  that consumes four bytes at a time agrees with the byte-wise path.\<close>

theorem av_crc_is_bit_serial:
  assumes "av_crc_init le bits poly ctx_size = Ok ctx"
  shows "av_crc ctx align crc buffer = crc_reference le bits poly crc buffer"
  by (simp only: av_crc_bytes [OF assms] crc_bytes_shift [OF av_crc_init_take [OF assms]]
      crc_reference_shift)

theorem av_crc_is_bit_serial_witness:
  "av_crc (av_crc_get_table AV_CRC_32_IEEE) 3 0 [1, 2, 3, 4, 5, 6]
     = crc_reference False 32 0x04C11DB7 0 [1, 2, 3, 4, 5, 6]"
  by (rule av_crc_is_bit_serial [OF get_table_init]) simp

text \<open>Two CRCs of buffers of the same length that start from the same register differ by
  the CRC of the exclusive or of the buffers, started from the exclusive or of the registers.
  So a transmission error is detected or not independently of the payload it hits.\<close>

theorem av_crc_linear:
  assumes "av_crc_init le bits poly ctx_size = Ok ctx" and "length xs = length ys"
  shows "av_crc ctx align (c XOR d) (map2 (XOR) xs ys) = av_crc ctx align c xs XOR av_crc ctx align d ys"
  unfolding av_crc_bytes [OF assms(1)] crc_bytes_shift [OF av_crc_init_take [OF assms(1)]]
  using assms(2)
proof (induction xs ys arbitrary: c d rule: list_induct2)
  case (Cons x xs y ys)
  have "(c XOR d) XOR ucast (x XOR y) = (c XOR ucast x) XOR (d XOR ucast y)"
    by (rule bit_word_eqI) (auto simp: bit_simps)
  then show ?case
    by (simp only: zip_Cons_Cons list.map prod.case foldl.simps Cons.IH
        linearD [OF linear_crc_shift, where x = "c XOR ucast x" and y = "d XOR ucast y"])
qed simp

theorem av_crc_linear_witness:
  "av_crc (av_crc_get_table AV_CRC_16_ANSI_LE) 0 (1 XOR 2) (map2 (XOR) [7, 9] [8, 1])
   = av_crc (av_crc_get_table AV_CRC_16_ANSI_LE) 0 1 [7, 9] XOR av_crc (av_crc_get_table AV_CRC_16_ANSI_LE) 0 2 [8, 1]"
  by (rule av_crc_linear [OF get_table_init]) simp_all

end
