(* ===== verification/Webrtc.thy ===== *)
theory Webrtc
  imports P2P_Types Uuid
begin

text \<open>
  The WHIP muxer and the WHEP demuxer with their common code: \<^verbatim>\<open>libavformat/webrtc.c\<close>,
  \<^verbatim>\<open>webrtc_mux.c\<close> and \<^verbatim>\<open>webrtc_demux.c\<close>. The state is the \<open>DataChannelContext\<close> with the
  streams of its format context; the HTTP and libdatachannel calls are answered by \<open>E\<close>.

  Handles and descriptors are the integers the calls return. The HTTP handle \<open>h\<close> is not
  stored: it lives from a successful \<open>ffurl_alloc\<close> to \<open>ffurl_closep\<close>.
\<close>

section \<open>State\<close>

record DataChannelTrack =
  dt_track_id :: int
  dt_rtp_ctx :: "int option"
  dt_rtp_url_context :: bool

record DataChannelContext = io +
  dc_url :: string
  dc_streams :: "AVStream list"
  peer_connection :: int
  dc_state :: rtcState
  dc_tracks :: "DataChannelTrack list option"
  nb_tracks :: nat
  resource_location :: "string option"
  bearer_token :: "string option"
  connection_timeout :: int

definition zero_dc_track :: DataChannelTrack where
  "zero_dc_track = \<lparr>dt_track_id = 0, dt_rtp_ctx = None, dt_rtp_url_context = False\<rparr>"

definition upd_dc_track :: "nat \<Rightarrow> (DataChannelTrack \<Rightarrow> DataChannelTrack)
    \<Rightarrow> DataChannelContext \<Rightarrow> DataChannelContext" where
  "upd_dc_track i f ctx =
     ctx\<lparr>dc_tracks := map_option (\<lambda>ts. ts[i := f (ts ! i)]) (dc_tracks ctx)\<rparr>"

section \<open>Names and codecs\<close>

definition webrtc_generate_media_stream_id :: "ext \<Rightarrow> 'a io_scheme \<Rightarrow> string res \<times> 'a io_scheme" where
  "webrtc_generate_media_stream_id E w =
     (let ((ret, uuid), w) = ext_call E Av_random w
      in if ret < 0 then (Err (Lib_error ret), w)
         else (Ok (av_uuid_unparse (text_bytes uuid)), w))"

text \<open>The returned pair is the return value and the codec stored through the pointer.\<close>

definition webrtc_convert_codec :: "AVCodecID \<Rightarrow> unit res \<times> rtcCodec" where
  "webrtc_convert_codec c =
     (case c of
        CODEC_H264 \<Rightarrow> (Ok (), RTC_CODEC_H264)
      | CODEC_HEVC \<Rightarrow> (Ok (), RTC_CODEC_H265)
      | CODEC_AV1 \<Rightarrow> (Ok (), RTC_CODEC_AV1)
      | CODEC_VP9 \<Rightarrow> (Ok (), RTC_CODEC_VP9)
      | CODEC_OPUS \<Rightarrow> (Ok (), RTC_CODEC_OPUS)
      | CODEC_AAC \<Rightarrow> (Ok (), RTC_CODEC_AAC)
      | CODEC_PCM_ALAW \<Rightarrow> (Ok (), RTC_CODEC_PCMA)
      | CODEC_PCM_MULAW \<Rightarrow> (Ok (), RTC_CODEC_PCMU)
      | _ \<Rightarrow> (Err EINVAL, RTC_CODEC_INVALID))"

definition whip_query_codec :: "AVCodecID \<Rightarrow> bool" where
  "whip_query_codec c =
     (case c of
        CODEC_OPUS \<Rightarrow> True | CODEC_AAC \<Rightarrow> True | CODEC_PCM_MULAW \<Rightarrow> True
      | CODEC_PCM_ALAW \<Rightarrow> True | CODEC_H264 \<Rightarrow> True | CODEC_HEVC \<Rightarrow> True
      | CODEC_AV1 \<Rightarrow> True | CODEC_VP9 \<Rightarrow> True
      | _ \<Rightarrow> False)"

section \<open>The HTTP resource\<close>

definition CRLF :: string where "CRLF = [CHR 0x0D, CHR 0x0A]"

definition bearer_header :: "DataChannelContext \<Rightarrow> string" where
  "bearer_header ctx =
     (case bearer_token ctx of None \<Rightarrow> []
      | Some t \<Rightarrow> ''Authorization: Bearer '' @ t @ CRLF)"

text \<open>The exchange on an allocated HTTP handle, up to its first failure.\<close>

definition webrtc_exchange :: "ext \<Rightarrow> string \<Rightarrow> DataChannelContext \<Rightarrow> unit res \<times> DataChannelContext" where
  "webrtc_exchange E offer_sdp ctx =
     (let headers = ''Content-type: application/sdp'' @ CRLF @ bearer_header ctx;
          (ret, ctx) = ext_int E (Ffurl_connect [(''headers'', headers), (''method'', ''POST''),
             (''post_data'', offer_sdp)]) ctx
      in if ret < 0 then (Err (Lib_error ret), ctx)
      else let ((ret, response_sdp), ctx) = ext_call E (Ffurl_read_complete SDP_MAX_SIZE) ctx
      in if ret < 0 then (Err (Lib_error ret), ctx)
      else let (ret, ctx) = ext_int E (RtcSetRemoteDescription (peer_connection ctx) response_sdp ''answer'') ctx
      in if ret < 0 then (Err (Lib_error ret), ctx)
      else let ((ret, loc), ctx) = ext_call E Av_opt_get_location ctx;
               ctx = (if ret < 0 then ctx else ctx\<lparr>resource_location := Some loc\<rparr>)
      in (Ok (), ctx))"

definition webrtc_create_resource :: "ext \<Rightarrow> DataChannelContext \<Rightarrow> unit res \<times> DataChannelContext" where
  "webrtc_create_resource E ctx =
     (let (ret, ctx) = ext_int E (RtcSetLocalDescription (peer_connection ctx) ''offer'') ctx
      in if ret \<noteq> 0 then (Err AVERROR_EXTERNAL, ctx)
      else let ((ret, offer_sdp), ctx) = ext_call E (RtcGetLocalDescription (peer_connection ctx)) ctx
      in if ret < 0 then (Err AVERROR_EXTERNAL, ctx)
      else let (ret, ctx) = ext_int E (Ffurl_alloc (dc_url ctx)) ctx
      in if ret < 0 then (Err (Lib_error ret), ctx)
      else let (r, ctx) = webrtc_exchange E offer_sdp ctx
      in (case r of
            Inl e \<Rightarrow> (Err e, ext_do Ffurl_closep ctx)
          | Inr _ \<Rightarrow>
              let (ret, ctx) = ext_int E Ffurl_closep ctx
              in if ret < 0 then (Err (Lib_error ret), ctx) else (Ok (), ctx)))"

text \<open>The authorization header is built here too, but never set on the handle.\<close>

definition webrtc_close_resource :: "ext \<Rightarrow> DataChannelContext \<Rightarrow> int res \<times> DataChannelContext" where
  "webrtc_close_resource E ctx =
     (case resource_location ctx of None \<Rightarrow> (Ok 0, ctx)
      | Some loc \<Rightarrow>
          let (ret, ctx) = ext_int E (Ffurl_alloc loc) ctx
          in if ret < 0 then (Err (Lib_error ret), ctx\<lparr>resource_location := None\<rparr>)
          else let (ret, ctx) = ext_int E (Ffurl_connect [(''method'', ''DELETE'')]) ctx
          in if ret < 0 then
               (Err (Lib_error ret), (ext_do Ffurl_closep ctx)\<lparr>resource_location := None\<rparr>)
          else let (ret, ctx) = ext_int E Ffurl_closep ctx
          in (if ret < 0 then Err (Lib_error ret) else Ok ret, ctx\<lparr>resource_location := None\<rparr>))"

section \<open>The data path\<close>

text \<open>
  \<open>NOT_AVAIL\<close> and \<open>TOO_SMALL\<close> are the codes of \<^verbatim>\<open>rtc.h\<close>. A message that was received is
  the text of the call, its length is the returned size.
\<close>

definition rtc_read :: "int \<Rightarrow> int \<Rightarrow> ext \<Rightarrow> int \<Rightarrow> int \<Rightarrow> 'a io_scheme \<Rightarrow> bytes res \<times> 'a io_scheme" where
  "rtc_read NOT_AVAIL TOO_SMALL E track sz w =
     (let ((ret, msg), w) = ext_call E (RtcReceiveMessage track sz) w
      in if ret = NOT_AVAIL then (Err EAGAIN, w)
         else if ret = TOO_SMALL then (Err AVERROR_BUFFER_TOO_SMALL, w)
         else if ret \<noteq> 0 then (Err AVERROR_EOF, w)
         else (Ok (text_bytes msg), w))"

definition rtc_write :: "ext \<Rightarrow> int \<Rightarrow> bytes \<Rightarrow> 'a io_scheme \<Rightarrow> int res \<times> 'a io_scheme" where
  "rtc_write E track buf w =
     (let (ret, w) = ext_int E (RtcSendMessage track buf) w
      in if ret \<noteq> 0 then (Err AVERROR_EXTERNAL, w) else (Ok (int (length buf)), w))"

definition webrtc_read :: "int \<Rightarrow> int \<Rightarrow> ext \<Rightarrow> DataChannelTrack \<Rightarrow> int \<Rightarrow> 'a io_scheme
    \<Rightarrow> bytes res \<times> 'a io_scheme" where
  "webrtc_read NOT_AVAIL TOO_SMALL E t sz w = rtc_read NOT_AVAIL TOO_SMALL E (dt_track_id t) sz w"

definition webrtc_write :: "ext \<Rightarrow> DataChannelTrack \<Rightarrow> bytes \<Rightarrow> 'a io_scheme
    \<Rightarrow> int res \<times> 'a io_scheme" where
  "webrtc_write E t buf w = rtc_write E (dt_track_id t) buf w"

section \<open>Connection\<close>

definition webrtc_init_urlcontext :: "ext \<Rightarrow> nat \<Rightarrow> DataChannelContext
    \<Rightarrow> unit res \<times> DataChannelContext" where
  "webrtc_init_urlcontext E i ctx =
     (let (ret, ctx) = ext_int E Av_mallocz ctx
      in if ret = 0 then (Err ENOMEM, upd_dc_track i (\<lambda>t. t\<lparr>dt_rtp_url_context := False\<rparr>) ctx)
         else (Ok (), upd_dc_track i (\<lambda>t. t\<lparr>dt_rtp_url_context := True\<rparr>) ctx))"

definition webrtc_on_state_change :: "rtcState \<Rightarrow> DataChannelContext \<Rightarrow> DataChannelContext" where
  "webrtc_on_state_change s ctx = ctx\<lparr>dc_state := s\<rparr>"

definition webrtc_init_connection :: "ext \<Rightarrow> DataChannelContext \<Rightarrow> unit res \<times> DataChannelContext" where
  "webrtc_init_connection E ctx =
     (let (pc, ctx) = ext_int E RtcCreatePeerConnection ctx;
          ctx = ctx\<lparr>peer_connection := pc\<rparr>
      in if pc = 0 then (Err AVERROR_EXTERNAL, ctx)
      else let ctx = ext_do (RtcSetUserPointer pc) ctx;
               (ret, ctx) = ext_int E (RtcSetCallback Webrtc_on_state_change pc) ctx
      in if ret \<noteq> 0 then (Err AVERROR_EXTERNAL, ext_do (RtcDeletePeerConnection pc) ctx)
         else (Ok (), ctx))"

text \<open>The calls that release one track: only what is set is released.\<close>

definition release_calls :: "DataChannelTrack \<Rightarrow> ext_call list" where
  "release_calls t =
     (case dt_rtp_ctx t of None \<Rightarrow> [] | Some c \<Rightarrow> [Avformat_free_context c])
     @ (if dt_rtp_url_context t then [Rtp_free_url_context (dt_track_id t)] else [])
     @ (if dt_track_id t \<noteq> 0 then [RtcDeleteTrack (dt_track_id t)] else [])"

definition webrtc_deinit :: "DataChannelContext \<Rightarrow> DataChannelContext" where
  "webrtc_deinit ctx =
     (let ctx = (case dc_tracks ctx of None \<Rightarrow> ctx
          | Some ts \<Rightarrow> ctx\<lparr>calls := calls ctx @ concat (map release_calls (take (nb_tracks ctx) ts)),
                         dc_tracks := None\<rparr>);
          ctx = (if peer_connection ctx \<noteq> 0
             then (ext_do (RtcDeletePeerConnection (peer_connection ctx)) ctx)\<lparr>peer_connection := 0\<rparr>
             else ctx)
      in ctx\<lparr>resource_location := None\<rparr>)"

section \<open>WHIP\<close>

text \<open>
  The profile from the \<open>a=fmtp:\<close> line of the media description: ten characters are skipped,
  \<open>a=fmtp:\<close>, a payload type of two digits and a blank; \<open>ff_sdp_write_media\<close> ends the line
  with a carriage return. \<open>ff_sdp_write_media\<close> appends to the text already in the buffer.
\<close>

definition profile_suffix :: string where
  "profile_suffix = '';level-asymmetry-allowed=1''"

definition whip_profile :: "string \<Rightarrow> string option" where
  "whip_profile sdp_stream =
     (case strstr sdp_stream ''a=fmtp:'' of None \<Rightarrow> None
      | Some fmtp \<Rightarrow> Some (takeWhile (\<lambda>c. c \<noteq> CHR 0x0D) (drop 10 fmtp) @ profile_suffix))"

definition whip_track_init :: "ext \<Rightarrow> string \<Rightarrow> nat \<Rightarrow> int \<Rightarrow> rtcCodec \<Rightarrow> string option
    \<Rightarrow> DataChannelContext \<Rightarrow> rtcTrackInit \<times> DataChannelContext" where
  "whip_track_init E msid i rtpctx codec profile ctx =
     (let (pt, ctx) = ext_int E (Rtp_mux_payload_type rtpctx) ctx;
          (ss, ctx) = ext_int E (Rtp_mux_ssrc rtpctx) ctx
      in (\<lparr>ti_direction = RTC_DIRECTION_SENDONLY, ti_codec = codec, ti_payloadType = pt,
           ti_ssrc = word_of_int ss, ti_mid = fmt_d (int i), ti_msid = msid,
           ti_trackId = msid @ ''-video-'' @ fmt_d (int i), ti_profile = profile\<rparr>, ctx))"

text \<open>The checks and the time base of a stream: \<open>Ok False\<close> is the \<open>continue\<close> of other media.\<close>

definition whip_prepare_stream :: "nat \<Rightarrow> DataChannelContext \<Rightarrow> bool res \<times> DataChannelContext" where
  "whip_prepare_stream i ctx =
     (let st = dc_streams ctx ! i;
          set_time_base = (\<lambda>d. ctx\<lparr>dc_streams := (dc_streams ctx)[i := st\<lparr>time_base := (1, d)\<rparr>]\<rparr>)
      in case codec_type st of
           AVMEDIA_TYPE_VIDEO \<Rightarrow> (Ok True, set_time_base 90000)
         | AVMEDIA_TYPE_AUDIO \<Rightarrow>
             if sample_rate st \<noteq> 48000 then (Err EINVAL, ctx)
             else if ch_layout st \<noteq> ''stereo'' then (Err EINVAL, ctx)
             else (Ok True, set_time_base (sample_rate st))
         | _ \<Rightarrow> (Ok False, ctx))"

definition whip_add_track :: "ext \<Rightarrow> string \<Rightarrow> nat \<Rightarrow> string \<Rightarrow> DataChannelContext
    \<Rightarrow> string res \<times> DataChannelContext" where
  "whip_add_track E msid i sdp_stream ctx =
     (let (r, ctx) = webrtc_init_urlcontext E i ctx
      in case r of Inl e \<Rightarrow> (Err e, ctx) | Inr _ \<Rightarrow>
      let (ret, ctx) = ext_int E (Rtp_chain_mux_open (int i)) ctx
      in if ret < 0 then (Err (Lib_error ret), ctx)
      else let ctx = upd_dc_track i (\<lambda>t. t\<lparr>dt_rtp_ctx := Some ret\<rparr>) ctx;
               (cr, codec) = webrtc_convert_codec (codec_id (dc_streams ctx ! i))
      in case cr of Inl e \<Rightarrow> (Err e, ctx) | Inr _ \<Rightarrow>
      let ((wr, txt), ctx) = ext_call E (Sdp_write_media (int i)) ctx
      in if wr < 0 then (Err (Lib_error wr), ctx)
      else let sdp_stream = sdp_stream @ txt;
               profile = whip_profile sdp_stream;
               (init, ctx) = whip_track_init E msid i ret codec profile ctx;
               (tr, ctx) = ext_int E (RtcAddTrackEx (peer_connection ctx) init) ctx;
               ctx = upd_dc_track i (\<lambda>t. t\<lparr>dt_track_id := tr\<rparr>) ctx
      in if tr < 0 then (Err EINVAL, ctx)
         else (Ok (if profile = None then sdp_stream else []), ctx))"

fun whip_tracks :: "ext \<Rightarrow> string \<Rightarrow> nat list \<Rightarrow> string \<Rightarrow> DataChannelContext
    \<Rightarrow> unit res \<times> DataChannelContext" where
  "whip_tracks E msid [] sdp_stream ctx = (Ok (), ctx)"
| "whip_tracks E msid (i # rest) sdp_stream ctx =
     (case whip_prepare_stream i ctx of
        (Inl e, ctx) \<Rightarrow> (Err e, ctx)
      | (Inr False, ctx) \<Rightarrow> whip_tracks E msid rest sdp_stream ctx
      | (Inr True, ctx) \<Rightarrow>
          (case whip_add_track E msid i sdp_stream ctx of
             (Inl e, ctx) \<Rightarrow> (Err e, ctx)
           | (Inr sdp_stream, ctx) \<Rightarrow> whip_tracks E msid rest sdp_stream ctx))"

definition whip_init :: "ext \<Rightarrow> DataChannelContext \<Rightarrow> unit res \<times> DataChannelContext" where
  "whip_init E ctx =
     (case webrtc_init_connection E ctx of
        (Inl e, ctx) \<Rightarrow> (Err e, ctx)
      | (Inr _, ctx) \<Rightarrow>
          let (r, ctx) = ext_int E Av_mallocz ctx
          in if r = 0 then (Err ENOMEM, ctx\<lparr>dc_tracks := None\<rparr>)
          else let ctx = ctx\<lparr>dc_tracks := Some (replicate (length (dc_streams ctx)) zero_dc_track)\<rparr>
          in case webrtc_generate_media_stream_id E ctx of
               (Inl e, ctx) \<Rightarrow> (Err e, ctx)
             | (Inr msid, ctx) \<Rightarrow> whip_tracks E msid [0..<length (dc_streams ctx)] [] ctx)"

text \<open>
  The wait for the connection. While the thread sleeps, libdatachannel may change the state:
  \<open>env k\<close> is the state seen after the \<open>k\<close>-th sleep. The clock is asked in each round, so the
  loop is run with fuel; \<open>None\<close> is a wait that has not ended.
\<close>

fun whip_wait :: "nat \<Rightarrow> ext \<Rightarrow> (nat \<Rightarrow> rtcState) \<Rightarrow> nat \<Rightarrow> int \<Rightarrow> DataChannelContext
    \<Rightarrow> (unit res \<times> DataChannelContext) option" where
  "whip_wait 0 E env k timeout ctx = None"
| "whip_wait (Suc n) E env k timeout ctx =
     (if dc_state ctx = RTC_CONNECTED then Some (Ok (), ctx)
      else if dc_state ctx = RTC_FAILED \<or> dc_state ctx = RTC_CLOSED then Some (Err AVERROR_EXTERNAL, ctx)
      else let (now, ctx) = ext_int E Av_gettime ctx
      in if timeout < now then Some (Err AVERROR_EXTERNAL, ctx)
      else whip_wait n E env (Suc k) timeout
             (webrtc_on_state_change (env k) (ext_do (Av_usleep 1000) ctx)))"

definition whip_write_header :: "nat \<Rightarrow> ext \<Rightarrow> (nat \<Rightarrow> rtcState) \<Rightarrow> DataChannelContext
    \<Rightarrow> (unit res \<times> DataChannelContext) option" where
  "whip_write_header fuel E env ctx =
     (case webrtc_create_resource E ctx of
        (Inl e, ctx) \<Rightarrow> Some (Err e, ctx)
      | (Inr _, ctx) \<Rightarrow>
          let (now, ctx) = ext_int E Av_gettime ctx
          in whip_wait fuel E env 0 (now + connection_timeout ctx) ctx)"

definition whip_write_packet :: "ext \<Rightarrow> nat \<Rightarrow> int \<Rightarrow> DataChannelContext
    \<Rightarrow> int res \<times> DataChannelContext" where
  "whip_write_packet E stream_idx pkt ctx =
     (let rtpctx = (case dc_tracks ctx of None \<Rightarrow> None | Some ts \<Rightarrow> dt_rtp_ctx (ts ! stream_idx))
      in if dc_state ctx \<noteq> RTC_CONNECTED then (Err EINVAL, ctx)
         else let (ret, ctx) = ext_int E (Av_write_frame (case rtpctx of None \<Rightarrow> 0 | Some c \<Rightarrow> c) pkt) ctx
         in (if ret < 0 then Err (Lib_error ret) else Ok ret, ctx))"

definition whip_write_trailer :: "ext \<Rightarrow> DataChannelContext \<Rightarrow> int res \<times> DataChannelContext" where
  "whip_write_trailer = webrtc_close_resource"

definition whip_deinit :: "DataChannelContext \<Rightarrow> DataChannelContext" where
  "whip_deinit = webrtc_deinit"

text \<open>\<open>Inr None\<close> is the bare result 1; otherwise the bitstream filter is added.\<close>

definition whip_check_bitstream :: "AVStream \<Rightarrow> (string \<times> string) option" where
  "whip_check_bitstream st =
     (if extradata st \<noteq> [] \<and> codec_type st = AVMEDIA_TYPE_VIDEO
      then Some (''dump_extra'', ''freq=keyframe'') else None)"

section \<open>WHEP\<close>

definition whep_track_init :: "rtcCodec \<Rightarrow> int \<Rightarrow> u32 \<Rightarrow> string \<Rightarrow> string \<Rightarrow> string \<Rightarrow> string \<Rightarrow> rtcTrackInit" where
  "whep_track_init codec pt ssrc mid msid kind profile =
     \<lparr>ti_direction = RTC_DIRECTION_RECVONLY, ti_codec = codec, ti_payloadType = pt, ti_ssrc = ssrc,
      ti_mid = mid, ti_msid = msid, ti_trackId = msid @ kind, ti_profile = Some profile\<rparr>"

definition whep_video_init :: "string \<Rightarrow> u32 \<Rightarrow> rtcTrackInit" where
  "whep_video_init msid ssrc = whep_track_init RTC_CODEC_H264 96 ssrc ''0'' msid ''-video''
     ''profile-level-id=42e01f;packetization-mode=1;level-asymmetry-allowed=1''"

definition whep_audio_init :: "string \<Rightarrow> u32 \<Rightarrow> rtcTrackInit" where
  "whep_audio_init msid ssrc = whep_track_init RTC_CODEC_OPUS 97 ssrc ''1'' msid ''-audio''
     ''minptime=10;maxaveragebitrate=96000;stereo=1;sprop-stereo=1;useinbandfec=1''"

text \<open>
  The SDP demuxer of one track; \<open>copied i\<close> is the first stream it finds. \<open>None\<close> goes on to the
  next track, \<open>Some r\<close> jumps to the failure label with the return value \<open>r\<close>, which is not an
  error where the SDP demuxer is missing.
\<close>

definition whep_open_track :: "ext \<Rightarrow> (nat \<Rightarrow> AVStream) \<Rightarrow> nat \<Rightarrow> DataChannelContext
    \<Rightarrow> int res option \<times> DataChannelContext" where
  "whep_open_track E copied i ctx =
     (let tid = (case dc_tracks ctx of None \<Rightarrow> 0 | Some ts \<Rightarrow> dt_track_id (ts ! i));
          (ret, ctx) = ext_int E (RtcGetTrackDescription tid) ctx
      in if ret < 0 then (Some (Err (Lib_error ret)), ctx)
      else let (fmt, ctx) = ext_int E (Av_find_input_format ''sdp'') ctx
      in if fmt = 0 then (Some (Ok ret), ctx)
      else let (c, ctx) = ext_int E Avformat_alloc_context ctx
      in if c = 0 then (Some (Err ENOMEM), ctx)
      else let ctx = upd_dc_track i (\<lambda>t. t\<lparr>dt_rtp_ctx := Some c\<rparr>) ctx;
               (ret, ctx) = ext_int E (Ff_copy_whiteblacklists c) ctx
      in if ret < 0 then (Some (Err (Lib_error ret)), ctx)
      else let (ret, ctx) = ext_int E (Avformat_open_input c ''temp.sdp'') ctx
      in if ret < 0
         then (Some (Err (Lib_error ret)), upd_dc_track i (\<lambda>t. t\<lparr>dt_rtp_ctx := None\<rparr>) ctx)
      else let (r, ctx) = webrtc_init_urlcontext E i ctx
      in case r of Inl e \<Rightarrow> (Some (Err e), ctx) | Inr _ \<Rightarrow>
      let (ret, ctx) = ext_int E (Ffio_fdopen c) ctx
      in if ret < 0 then (Some (Err (Lib_error ret)), ctx)
      else let (ret, ctx) = ext_int E Avformat_new_stream ctx
      in if ret = 0 then (Some (Err ENOMEM), ctx)
      else let n = length (dc_streams ctx);
               ctx = ctx\<lparr>dc_streams := dc_streams ctx @ [zero_stream]\<rparr>;
               (ret, ctx) = ext_int E (Avcodec_parameters_copy c) ctx
      in if ret < 0 then (Some (Err (Lib_error ret)), ctx)
         else (None, ctx\<lparr>dc_streams := (dc_streams ctx)[n := copied i]\<rparr>))"

fun whep_open_tracks :: "ext \<Rightarrow> (nat \<Rightarrow> AVStream) \<Rightarrow> nat list \<Rightarrow> DataChannelContext
    \<Rightarrow> int res option \<times> DataChannelContext" where
  "whep_open_tracks E copied [] ctx = (None, ctx)"
| "whep_open_tracks E copied (i # rest) ctx =
     (case whep_open_track E copied i ctx of
        (Some r, ctx) \<Rightarrow> (Some r, ctx)
      | (None, ctx) \<Rightarrow> whep_open_tracks E copied rest ctx)"

definition whep_add_track :: "ext \<Rightarrow> nat \<Rightarrow> (u32 \<Rightarrow> rtcTrackInit) \<Rightarrow> DataChannelContext
    \<Rightarrow> unit res \<times> DataChannelContext" where
  "whep_add_track E i init ctx =
     (let (seed, ctx) = ext_int E Rand ctx;
          (tr, ctx) = ext_int E (RtcAddTrackEx (peer_connection ctx) (init (word_of_int seed))) ctx;
          ctx = upd_dc_track i (\<lambda>t. t\<lparr>dt_track_id := tr\<rparr>) ctx
      in if tr = 0 then (Err AVERROR_EXTERNAL, ctx) else (Ok (), ctx))"

definition whep_setup :: "ext \<Rightarrow> (nat \<Rightarrow> AVStream) \<Rightarrow> DataChannelContext
    \<Rightarrow> int res option \<times> DataChannelContext" where
  "whep_setup E copied ctx =
     (let (r, ctx) = webrtc_init_connection E ctx
      in case r of Inl e \<Rightarrow> (Some (Err e), ctx) | Inr _ \<Rightarrow>
      let (r, ctx) = webrtc_generate_media_stream_id E ctx
      in case r of Inl e \<Rightarrow> (Some (Err e), ctx) | Inr msid \<Rightarrow>
      let (m, ctx) = ext_int E Av_mallocz ctx;
          ctx = ctx\<lparr>dc_tracks := (if m = 0 then None else Some (replicate 2 zero_dc_track)), nb_tracks := 2\<rparr>
      in if m = 0 then (Some (Err ENOMEM), ctx)
      else let (r, ctx) = whep_add_track E 0 (whep_video_init msid) ctx
      in case r of Inl e \<Rightarrow> (Some (Err e), ctx) | Inr _ \<Rightarrow>
      let (r, ctx) = whep_add_track E 1 (whep_audio_init msid) ctx
      in case r of Inl e \<Rightarrow> (Some (Err e), ctx) | Inr _ \<Rightarrow>
      let (r, ctx) = webrtc_create_resource E ctx
      in case r of Inl e \<Rightarrow> (Some (Err e), ctx) | Inr _ \<Rightarrow>
      whep_open_tracks E copied [0..<nb_tracks ctx] ctx)"

definition whep_read_header :: "ext \<Rightarrow> (nat \<Rightarrow> AVStream) \<Rightarrow> DataChannelContext
    \<Rightarrow> int res \<times> DataChannelContext" where
  "whep_read_header E copied ctx =
     (case whep_setup E copied ctx of
        (None, ctx) \<Rightarrow> (Ok 0, ctx)
      | (Some r, ctx) \<Rightarrow> (r, webrtc_deinit ctx))"

definition whep_read_close :: "ext \<Rightarrow> DataChannelContext \<Rightarrow> int res \<times> DataChannelContext" where
  "whep_read_close E ctx =
     (let (ret, ctx) = webrtc_close_resource E ctx in (ret, webrtc_deinit ctx))"

definition whep_read_packet :: "ext \<Rightarrow> nat \<Rightarrow> DataChannelContext \<Rightarrow> int res \<times> DataChannelContext" where
  "whep_read_packet E stream_idx ctx =
     (let c = (case dc_tracks ctx of None \<Rightarrow> None | Some ts \<Rightarrow> dt_rtp_ctx (ts ! stream_idx));
          (ret, ctx) = ext_int E (Av_read_frame (case c of None \<Rightarrow> 0 | Some x \<Rightarrow> x)) ctx
      in (if ret < 0 then Err (Lib_error ret) else Ok ret, ctx))"

section \<open>HTTP handles\<close>

text \<open>The HTTP handles open after a sequence of calls.\<close>

fun open_handles :: "ext \<Rightarrow> ext_call list \<Rightarrow> ext_call list \<Rightarrow> int" where
  "open_handles E past [] = 0"
| "open_handles E past (c # cs) =
     (case c of Ffurl_alloc _ \<Rightarrow> if fst (E past c) \<ge> 0 then 1 else 0
        | Ffurl_closep \<Rightarrow> - 1 | _ \<Rightarrow> 0) + open_handles E (past @ [c]) cs"

lemma open_handles_append:
  "open_handles E past (xs @ ys) = open_handles E past xs + open_handles E (past @ xs) ys"
  by (induction xs arbitrary: past) simp_all

definition http_open :: "ext \<Rightarrow> 'a io_scheme \<Rightarrow> int" where
  "http_open E w = open_handles E [] (calls w)"

definition handle_change :: "ext_call \<Rightarrow> int \<Rightarrow> int" where
  "handle_change c ret =
     (case c of Ffurl_alloc _ \<Rightarrow> if ret \<ge> 0 then 1 else 0 | Ffurl_closep \<Rightarrow> - 1 | _ \<Rightarrow> 0)"

lemma handle_change_simps [simp]:
  "handle_change (Ffurl_alloc u) r = (if r \<ge> 0 then 1 else 0)"
  "handle_change Ffurl_closep r = - 1"
  "handle_change (Ffurl_connect os) r = 0" "handle_change (Ffurl_read_complete n) r = 0"
  "handle_change (RtcSetLocalDescription i d) r = 0" "handle_change (RtcGetLocalDescription i) r = 0"
  "handle_change (RtcSetRemoteDescription i d t) r = 0" "handle_change Av_opt_get_location r = 0"
  by (simp_all add: handle_change_def)

lemma http_open_calls [simp]:
  "http_open E (snd (ext_int E c w)) = http_open E w + handle_change c (fst (ext_int E c w))"
  "http_open E (snd (ext_call E c w)) = http_open E w + handle_change c (fst (fst (ext_call E c w)))"
  "http_open E (ext_do Ffurl_closep w) = http_open E w - 1"
  by (simp_all add: http_open_def open_handles_append ext_int_def ext_call_def ext_do_def handle_change_def)

lemma http_open_location [simp]: "http_open E (ctx\<lparr>resource_location := l\<rparr>) = http_open E ctx"
  by (simp add: http_open_def)

lemma http_open_exchange [simp]: "http_open E (snd (webrtc_exchange E sdp ctx)) = http_open E ctx"
  by (simp add: webrtc_exchange_def Let_def case_prod_beta)


section \<open>Properties\<close>

text \<open>The codecs that the WHIP muxer announces as supported are exactly those that can be
  converted to a libdatachannel codec, and every conversion that fails stores the invalid codec.\<close>

theorem whip_codecs_convertible:
  "whip_query_codec c = is_ok (fst (webrtc_convert_codec c))
   \<and> is_ok (fst (webrtc_convert_codec c)) = (snd (webrtc_convert_codec c) \<noteq> RTC_CODEC_INVALID)"
  by (cases c) (simp_all add: whip_query_codec_def webrtc_convert_codec_def)

text \<open>Closing the resource always forgets its location, so the \<open>DELETE\<close> request is sent at
  most once: closing again makes no call and returns 0.\<close>

theorem close_resource_once:
  "resource_location (snd (webrtc_close_resource E ctx)) = None
   \<and> webrtc_close_resource E (snd (webrtc_close_resource E ctx))
       = (Ok 0, snd (webrtc_close_resource E ctx))"
proof -
  have "resource_location (snd (webrtc_close_resource E ctx)) = None"
    by (simp add: webrtc_close_resource_def Let_def case_prod_beta split: option.split)
  then show ?thesis by (simp add: webrtc_close_resource_def)
qed

text \<open>The number of tracks is never set by the WHIP muxer.\<close>

lemma nb_tracks_calls [simp]:
  "nb_tracks (snd (ext_int E c ctx)) = nb_tracks ctx"
  "nb_tracks (snd (ext_call E c ctx)) = nb_tracks ctx"
  "nb_tracks (ext_do c ctx) = nb_tracks ctx" "nb_tracks (upd_dc_track i f ctx) = nb_tracks ctx"
  by (simp_all add: ext_int_def ext_call_def ext_do_def upd_dc_track_def)

lemma nb_tracks_parts [simp]:
  "nb_tracks (snd (webrtc_init_connection E ctx)) = nb_tracks ctx"
  "nb_tracks (snd (webrtc_init_urlcontext E i ctx)) = nb_tracks ctx"
  "nb_tracks (snd (webrtc_generate_media_stream_id E ctx)) = nb_tracks ctx"
  "nb_tracks (snd (whip_track_init E msid i c codec p ctx)) = nb_tracks ctx"
  "nb_tracks (snd (whip_prepare_stream i ctx)) = nb_tracks ctx"
  by (simp_all add: webrtc_init_connection_def webrtc_init_urlcontext_def whip_track_init_def
      webrtc_generate_media_stream_id_def whip_prepare_stream_def Let_def case_prod_beta
      split: AVMediaType.split)

lemma nb_tracks_add [simp]: "nb_tracks (snd (whip_add_track E msid i sdp ctx)) = nb_tracks ctx"
  by (simp add: whip_add_track_def Let_def case_prod_beta split: sum.split)

lemma nb_tracks_whip_tracks: "nb_tracks (snd (whip_tracks E msid is sdp ctx)) = nb_tracks ctx"
proof (induction "is" arbitrary: sdp ctx)
  case (Cons i rest)
  have p: "nb_tracks c = nb_tracks ctx" if "whip_prepare_stream i ctx = (r, c)" for r c
    using nb_tracks_parts(5) [of i ctx] that by simp
  have a: "nb_tracks c' = nb_tracks c" if "whip_add_track E msid i sdp c = (r, c')" for r c c'
    using nb_tracks_add [of E msid i sdp c] that by simp
  show ?case
    by (auto simp: Cons.IH dest!: p a split: prod.split sum.split bool.split)
qed simp

text \<open>The tracks of the WHIP muxer are never released: \<open>whip_init\<close> does not set the number
  of tracks, so after any initialisation the deinitialisation of a context that started with
  none deletes no track and frees no RTP context; only the peer connection is deleted.\<close>

theorem whip_deinit_releases_no_track:
  assumes "nb_tracks ctx = 0" and ctx': "ctx' = snd (whip_init E ctx)"
  shows "set (calls (whip_deinit ctx')) - set (calls ctx') \<subseteq> {RtcDeletePeerConnection (peer_connection ctx')}"
proof -
  have "nb_tracks ctx' = nb_tracks ctx"
  proof -
    have c: "nb_tracks c = nb_tracks ctx" if "webrtc_init_connection E ctx = (r, c)" for r c
      using nb_tracks_parts(1) [of E ctx] that by simp
    have g: "nb_tracks c' = nb_tracks c" if "webrtc_generate_media_stream_id E c = (r, c')"
      for r and c c' :: DataChannelContext
      using nb_tracks_parts(3) [of E c] that by simp
    show ?thesis
      by (auto simp: ctx' whip_init_def Let_def case_prod_beta nb_tracks_whip_tracks
          dest!: c g split: prod.split sum.split)
  qed
  then show ?thesis
    using assms(1) by (auto simp: whip_deinit_def webrtc_deinit_def Let_def split: option.split)
qed

definition example_stream :: AVStream where
  "example_stream = zero_stream\<lparr>codec_type := AVMEDIA_TYPE_VIDEO, codec_id := CODEC_H264\<rparr>"

definition example_dc :: DataChannelContext where
  "example_dc = \<lparr>calls = [], dc_url = ''http://host/whip'', dc_streams = [example_stream],
     peer_connection = 0, dc_state = RTC_NEW, dc_tracks = None, nb_tracks = 0,
     resource_location = None, bearer_token = None, connection_timeout = 10000000\<rparr>"

theorem whip_deinit_releases_no_track_witness:
  "set (calls (whip_deinit (snd (whip_init (\<lambda>_ _. (1, [])) example_dc))))
     - set (calls (snd (whip_init (\<lambda>_ _. (1, [])) example_dc)))
   \<subseteq> {RtcDeletePeerConnection (peer_connection (snd (whip_init (\<lambda>_ _. (1, [])) example_dc)))}"
  by (rule whip_deinit_releases_no_track [of example_dc, OF _ refl]) (simp add: example_dc_def)

text \<open>The wait for the connection ends: when the clock has passed the deadline from some
  call on, at most that many rounds are made, and the header is accepted exactly in the
  connected state; on an error the connection was never seen connected.\<close>

theorem whip_wait_ends:
  assumes "\<And>past. n \<le> length past \<Longrightarrow> deadline < fst (E past Av_gettime)"
  shows "\<exists>r ctx'. whip_wait (Suc n) E env k deadline ctx = Some (r, ctx')
           \<and> is_ok r = (dc_state ctx' = RTC_CONNECTED)"
proof -
  have "\<exists>r ctx'. whip_wait (Suc m) E env k deadline ctx = Some (r, ctx')
           \<and> is_ok r = (dc_state ctx' = RTC_CONNECTED)"
    if "n \<le> length (calls ctx) + m" for m k ctx
    using that
  proof (induction m arbitrary: k ctx)
    case 0
    then show ?case
      using assms [of "calls ctx"] by (auto simp: ext_int_def Let_def)
  next
    case (Suc m)
    let ?c = "webrtc_on_state_change (env k) (ext_do (Av_usleep 1000) (snd (ext_int E Av_gettime ctx)))"
    have "n \<le> length (calls ?c) + m" using Suc.prems by (simp add: webrtc_on_state_change_def)
    from Suc.IH [OF this, of "Suc k"] show ?case
      by (subst whip_wait.simps) (auto simp: Let_def case_prod_beta ext_int_def)
  qed
  then show ?thesis by simp
qed

theorem whip_wait_ends_witness:
  "\<exists>r ctx'. whip_wait (Suc 4) (\<lambda>past _. (int (length past) * 3, [])) (\<lambda>_. RTC_CONNECTING) 0 10 example_dc
       = Some (r, ctx') \<and> is_ok r = (dc_state ctx' = RTC_CONNECTED)"
  by (rule whip_wait_ends) simp

text \<open>When the set up of the WHEP demuxer jumps to its failure label, \<open>whep_read_header\<close>
  returns the value set there and everything set up is released: every track added is deleted,
  the peer connection is deleted, and no track list or resource location is left.\<close>

theorem whep_failure_releases:
  assumes "whep_setup E copied ctx = (Some r, ctx1)" and "dc_tracks ctx1 = Some ts"
    and "whep_read_header E copied ctx = (ret, ctx')"
  shows "ret = r \<and> peer_connection ctx' = 0 \<and> dc_tracks ctx' = None \<and> resource_location ctx' = None
    \<and> (\<forall>t \<in> set (take (nb_tracks ctx1) ts). dt_track_id t \<noteq> 0
         \<longrightarrow> RtcDeleteTrack (dt_track_id t) \<in> set (calls ctx'))
    \<and> (peer_connection ctx1 \<noteq> 0 \<longrightarrow> RtcDeletePeerConnection (peer_connection ctx1) \<in> set (calls ctx'))"
  using assms
  by (auto simp: whep_read_header_def webrtc_deinit_def release_calls_def Let_def ext_do_def
      split: if_splits)

text \<open>A set up that fails when the offer cannot be set: both tracks are already added.\<close>

definition failing_offer :: ext where
  "failing_offer past c =
     (case c of RtcSetLocalDescription _ _ \<Rightarrow> (- 1, []) | RtcAddTrackEx _ _ \<Rightarrow> (int (length past), [])
      | RtcSetCallback _ _ \<Rightarrow> (0, []) | _ \<Rightarrow> (1, []))"

lemma failing_offer_setup:
  "\<exists>ctx1 ts. whep_setup failing_offer (\<lambda>_. zero_stream) example_dc = (Some (Err AVERROR_EXTERNAL), ctx1)
     \<and> dc_tracks ctx1 = Some ts \<and> nb_tracks ctx1 = 2 \<and> map dt_track_id ts = [6, 8]
     \<and> peer_connection ctx1 = 1"
  by (simp add: whep_setup_def webrtc_init_connection_def webrtc_generate_media_stream_id_def
      webrtc_create_resource_def whep_add_track_def failing_offer_def example_dc_def ext_int_def
      ext_call_def ext_do_def upd_dc_track_def Let_def numeral_2_eq_2)

theorem whep_failure_releases_witness:
  "\<exists>ctx'. whep_read_header failing_offer (\<lambda>_. zero_stream) example_dc = (Err AVERROR_EXTERNAL, ctx')
     \<and> {RtcDeleteTrack 6, RtcDeleteTrack 8, RtcDeletePeerConnection 1} \<subseteq> set (calls ctx')"
proof -
  obtain ctx1 ts where s: "whep_setup failing_offer (\<lambda>_. zero_stream) example_dc = (Some (Err AVERROR_EXTERNAL), ctx1)"
      and ts: "dc_tracks ctx1 = Some ts" and n: "nb_tracks ctx1 = 2" and ids: "map dt_track_id ts = [6, 8]"
      and pc: "peer_connection ctx1 = 1"
    using failing_offer_setup by (elim exE conjE)
  from ids obtain a b where ab: "ts = [a, b]" "dt_track_id a = 6" "dt_track_id b = 8" by auto
  obtain ret ctx' where h: "whep_read_header failing_offer (\<lambda>_. zero_stream) example_dc = (ret, ctx')"
    by (cases "whep_read_header failing_offer (\<lambda>_. zero_stream) example_dc")
  from whep_failure_releases [OF s ts h] show ?thesis
    by (auto simp: h n ab pc)
qed

end
