(* ===== verification/Tracks.thy ===== *)
theory Tracks
  imports Webrtc Signal
begin

text \<open>
  Media tracks and the probe channel of a peer connection: the RTP transport of
  \<^verbatim>\<open>libavformat/p2p.c\<close> and all of \<^verbatim>\<open>libavformat/p2p_dc.c\<close>. A stream is named by its index
  in \<open>streams\<close>, a node and a track by their addresses.
\<close>

section \<open>RTP transport\<close>

definition p2p_rtp_read :: "int \<Rightarrow> int \<Rightarrow> ext \<Rightarrow> addr \<Rightarrow> int \<Rightarrow> 'a world_scheme
    \<Rightarrow> bytes res \<times> 'a world_scheme" where
  "p2p_rtp_read NOT_AVAIL TOO_SMALL E t sz w =
     rtc_read NOT_AVAIL TOO_SMALL E (track_id (track_at w t)) sz w"

definition p2p_rtp_write :: "ext \<Rightarrow> addr \<Rightarrow> bytes \<Rightarrow> 'a world_scheme \<Rightarrow> int res \<times> 'a world_scheme" where
  "p2p_rtp_write E t buf w = rtc_write E (track_id (track_at w t)) buf w"

definition p2p_rtp_init_urlcontext :: "ext \<Rightarrow> addr \<Rightarrow> 'a world_scheme
    \<Rightarrow> unit res \<times> 'a world_scheme" where
  "p2p_rtp_init_urlcontext E t w =
     (let (r, w) = ext_int E Av_mallocz w
      in if r = 0 then (Err ENOMEM, upd_track t (\<lambda>x. x\<lparr>rtp_url_context := False\<rparr>) w)
         else (Ok (), upd_track t (\<lambda>x. x\<lparr>rtp_url_context := True\<rparr>) w))"

section \<open>Adding tracks to a connection\<close>

text \<open>The return value of a call that is handed through.\<close>

definition int_res :: "int \<Rightarrow> int res" where
  "int_res r = (if r < 0 then Err (Lib_error r) else Ok r)"

text \<open>
  The profile: the \<open>a=fmtp:\<close> line up to its end, with the payload type left in (the WHIP
  muxer skips it); without a line end it stays NULL.
\<close>

definition p2p_profile :: "string \<Rightarrow> string option" where
  "p2p_profile sdp_stream =
     (case strstr sdp_stream ''a=fmtp:'' of None \<Rightarrow> None
      | Some fmtp \<Rightarrow>
          let fmtp_start = drop 7 fmtp;
              fmtp_end = (case strchr fmtp_start (CHR 0x0D) of
                 None \<Rightarrow> strchr fmtp_start (CHR 0x0A) | Some e \<Rightarrow> Some e)
          in (case fmtp_end of None \<Rightarrow> None
              | Some e \<Rightarrow> Some (take (length fmtp_start - length e) fmtp_start @ profile_suffix)))"

definition create_track :: "ext \<Rightarrow> nat \<Rightarrow> addr \<Rightarrow> rtcTrackInit \<Rightarrow> 'a world_scheme
    \<Rightarrow> int res \<times> 'a world_scheme" where
  "create_track E si n init w =
     (let ((ret, sdp_stream), w) = ext_call E (Sdp_write_media 0) w
      in if ret < 0 then (Err (Lib_error ret), w)
      else let init = (case p2p_profile sdp_stream of None \<Rightarrow> init
                 | Some p \<Rightarrow> init\<lparr>ti_profile := Some p\<rparr>);
               (ret, w) = ext_int E (RtcAddTrackEx (pc_id (node_at w n)) init) w
      in (int_res ret, w))"

text \<open>The result of \<open>webrtc_convert_codec\<close> is overwritten: only the stored codec is used.\<close>

definition create_send_track :: "ext \<Rightarrow> nat \<Rightarrow> addr \<Rightarrow> addr \<Rightarrow> int \<Rightarrow> 'a world_scheme
    \<Rightarrow> int res \<times> 'a world_scheme" where
  "create_send_track E si n t index w =
     (let (r, w) = p2p_rtp_init_urlcontext E t w
      in case r of Inl e \<Rightarrow> (Err e, w) | Inr _ \<Rightarrow>
      let (ret, w) = ext_int E (Rtp_chain_mux_open index) w
      in if ret < 0 then (Err (Lib_error ret), w)
      else let w = upd_track t (\<lambda>x. x\<lparr>rtp_ctx := Some ret\<rparr>) w;
               (r, w) = webrtc_generate_media_stream_id E w
      in case r of Inl e \<Rightarrow> (Err e, w) | Inr msid \<Rightarrow>
      let (pt, w) = ext_int E (Rtp_mux_payload_type ret) w;
          (ss, w) = ext_int E (Rtp_mux_ssrc ret) w;
          ssrc = word_of_int ss;
          init = \<lparr>ti_direction = RTC_DIRECTION_SENDONLY,
             ti_codec = snd (webrtc_convert_codec (codec_id (streams w ! si))),
             ti_payloadType = pt, ti_ssrc = ssrc, ti_mid = ''send-ssrc-'' @ fmt_d (sint ssrc),
             ti_msid = msid, ti_trackId = msid @ ''-send-'' @ fmt_d index, ti_profile = None\<rparr>
      in create_track E si n init w)"

definition create_recv_track :: "ext \<Rightarrow> nat \<Rightarrow> addr \<Rightarrow> addr \<Rightarrow> int \<Rightarrow> int \<Rightarrow> u32 \<Rightarrow> 'a world_scheme
    \<Rightarrow> int res \<times> 'a world_scheme" where
  "create_recv_track E si n t index payload_type ssrc w =
     (let (r, w) = webrtc_generate_media_stream_id E w
      in case r of Inl e \<Rightarrow> (Err e, w) | Inr msid \<Rightarrow>
      let init = \<lparr>ti_direction = RTC_DIRECTION_RECVONLY,
             ti_codec = snd (webrtc_convert_codec (codec_id (streams w ! si))),
             ti_payloadType = payload_type, ti_ssrc = ssrc,
             ti_mid = ''recv-ssrc-'' @ fmt_d (sint ssrc), ti_msid = msid,
             ti_trackId = msid @ ''-recv-'' @ fmt_d index, ti_profile = None\<rparr>
      in create_track E si n init w)"

section \<open>Setting up a track\<close>

text \<open>The chain \<open>a < 0 || b < 0 || ...\<close> of callback registrations.\<close>

fun set_callbacks :: "ext \<Rightarrow> handler list \<Rightarrow> int \<Rightarrow> 'a world_scheme \<Rightarrow> bool \<times> 'a world_scheme" where
  "set_callbacks E [] i w = (True, w)"
| "set_callbacks E (h # hs) i w =
     (let (r, w) = ext_int E (RtcSetCallback h i) w
      in if r < 0 then (False, w) else set_callbacks E hs i w)"

definition probe_handlers :: "handler list" where
  "probe_handlers = [On_probe_channel_open, On_probe_channel_error, On_probe_channel_closed,
     On_probe_channel_message]"

definition track_handlers :: "handler list" where
  "track_handlers = [On_track_open, On_track_error, On_track_close]"

definition setup_track_common_logic :: "ext \<Rightarrow> addr \<Rightarrow> addr \<Rightarrow> int \<Rightarrow> int \<Rightarrow> PeerConnectionTrackType
    \<Rightarrow> 'a world_scheme \<Rightarrow> unit res \<times> 'a world_scheme" where
  "setup_track_common_logic E n t tid sidx ty w =
     (let w = upd_track t (\<lambda>x. x\<lparr>track_id := tid, track_type := ty, stream_index := sidx\<rparr>) w;
          w = append_track n t w;
          w = ext_do (RtcSetUserPointer tid) w;
          (ok, w) = set_callbacks E
             (if ty = TrackType_ProbeChannel then probe_handlers else track_handlers) tid w
      in (if ok then Ok () else Err AVERROR_EXTERNAL, w))"

definition setup_probe_track :: "ext \<Rightarrow> addr \<Rightarrow> addr \<Rightarrow> int \<Rightarrow> 'a world_scheme
    \<Rightarrow> unit res \<times> 'a world_scheme" where
  "setup_probe_track E n t datachannel_id w =
     setup_track_common_logic E n t datachannel_id (- 1) TrackType_ProbeChannel w"

text \<open>The common failure label: the track and its RTP context are released.\<close>

definition fail_track :: "addr \<Rightarrow> 'a world_scheme \<Rightarrow> 'a world_scheme" where
  "fail_track t w =
     (let w = (if track_id (track_at w t) > 0
            then ext_do (RtcDeleteTrack (track_id (track_at w t))) w else w)
      in case rtp_ctx (track_at w t) of None \<Rightarrow> w
         | Some c \<Rightarrow> upd_track t (\<lambda>x. x\<lparr>rtp_ctx := None\<rparr>) (ext_do (Avformat_close_input c) w))"

definition set_pts_info :: "nat \<Rightarrow> int \<Rightarrow> 'a world_scheme \<Rightarrow> 'a world_scheme" where
  "set_pts_info si d w = w\<lparr>streams := (streams w)[si := (streams w ! si)\<lparr>time_base := (1, d)\<rparr>]\<rparr>"

definition init_send_track_ex :: "ext \<Rightarrow> nat option \<Rightarrow> addr option \<Rightarrow> addr option \<Rightarrow> int \<Rightarrow> int
    \<Rightarrow> 'a world_scheme \<Rightarrow> unit res \<times> 'a world_scheme" where
  "init_send_track_ex E stream node track tid index w =
     (case (stream, node, track) of
        (Some si, Some n, Some t) \<Rightarrow>
          let st = streams w ! si
          in (case codec_type st of
                AVMEDIA_TYPE_VIDEO \<Rightarrow>
                  let w = set_pts_info si 90000 w;
                      w = upd_track t (\<lambda>x. x\<lparr>track_type := TrackType_Video\<rparr>) w;
                      w = upd_node n (\<lambda>x. x\<lparr>video_track := Some t\<rparr>) w;
                      (r, w) = setup_track_common_logic E n t tid index TrackType_Video w
                  in (case r of Inl e \<Rightarrow> (Err e, fail_track t w) | Inr _ \<Rightarrow> (Ok (), w))
              | AVMEDIA_TYPE_AUDIO \<Rightarrow>
                  if sample_rate st \<noteq> 48000 then (Err EINVAL, w)
                  else let w = set_pts_info si (sample_rate st) w;
                      w = upd_track t (\<lambda>x. x\<lparr>track_type := TrackType_Audio\<rparr>) w;
                      w = upd_node n (\<lambda>x. x\<lparr>audio_track := Some t\<rparr>) w;
                      (r, w) = setup_track_common_logic E n t tid index TrackType_Audio w
                  in (case r of Inl e \<Rightarrow> (Err e, fail_track t w) | Inr _ \<Rightarrow> (Ok (), w))
              | _ \<Rightarrow> (Err EINVAL, w))
      | _ \<Rightarrow> (Err AVERROR_INVALIDDATA, w))"

text \<open>The steps of a receive track; its failures all go to \<open>fail_track\<close>.\<close>

definition recv_track_steps :: "ext \<Rightarrow> nat \<Rightarrow> addr \<Rightarrow> addr \<Rightarrow> PeerConnectionTrackType \<Rightarrow> int
    \<Rightarrow> 'a world_scheme \<Rightarrow> unit res \<times> 'a world_scheme" where
  "recv_track_steps E si n t ty tid w =
     (let (r, w) = p2p_rtp_init_urlcontext E t w
      in case r of Inl e \<Rightarrow> (Err e, w) | Inr _ \<Rightarrow>
      let (r, w) = setup_track_common_logic E n t tid (int si) ty w
      in case r of Inl e \<Rightarrow> (Err e, w) | Inr _ \<Rightarrow>
      let (c, w) = ext_int E Avformat_alloc_context w
      in if c = 0 then (Err ENOMEM, upd_track t (\<lambda>x. x\<lparr>rtp_ctx := None\<rparr>) w)
      else let w = upd_track t (\<lambda>x. x\<lparr>rtp_ctx := Some c\<rparr>) w;
               (ret, w) = ext_int E (RtcGetTrackDescription (track_id (track_at w t))) w
      in if ret < 0 then (Err (Lib_error ret), w)
      else let w = ext_do (Av_find_input_format ''sdp'') w;
               (ret, w) = ext_int E (Avformat_open_input c ''temp.sdp'') w
      in if ret < 0 then (Err (Lib_error ret), upd_track t (\<lambda>x. x\<lparr>rtp_ctx := None\<rparr>) w)
      else let (ret, w) = ext_int E (Ffio_fdopen c) w
      in if ret < 0 then (Err (Lib_error ret), w) else (Ok (), w))"

definition init_recv_track_ex :: "ext \<Rightarrow> nat \<Rightarrow> addr \<Rightarrow> addr \<Rightarrow> PeerConnectionTrackType \<Rightarrow> int
    \<Rightarrow> 'a world_scheme \<Rightarrow> unit res \<times> 'a world_scheme" where
  "init_recv_track_ex E si n t ty tid w =
     (case recv_track_steps E si n t ty tid w of
        (Inl e, w) \<Rightarrow> (Err e, fail_track t w)
      | (Inr _, w) \<Rightarrow> (Ok (), w))"

definition init_probe_track_ex :: "ext \<Rightarrow> addr option \<Rightarrow> addr option \<Rightarrow> 'a world_scheme
    \<Rightarrow> unit res \<times> 'a world_scheme" where
  "init_probe_track_ex E node track w =
     (case (node, track) of
        (Some n, Some t) \<Rightarrow>
          let (dc, w) = ext_int E (RtcCreateDataChannelEx (pc_id (node_at w n)) PROBE_CHANNEL_LABEL) w
          in if dc \<le> 0 then (Err AVERROR_EXTERNAL, w)
          else let (r, w) = setup_probe_track E n t dc w
          in (case r of
                Inl e \<Rightarrow> (Err e, if track_id (track_at w t) > 0
                   then ext_do (RtcDeleteDataChannel (track_id (track_at w t))) w else w)
              | Inr _ \<Rightarrow> (Ok (), w))
      | _ \<Rightarrow> (Err AVERROR_INVALIDDATA, w))"

section \<open>Track callbacks\<close>

text \<open>They only query and log; the message callback is not installed on media tracks.\<close>

definition on_track_open_callback :: "addr \<Rightarrow> int \<Rightarrow> 'a world_scheme \<Rightarrow> 'a world_scheme" where
  "on_track_open_callback n tid w =
     (if find_track n tid w = None then w
      else ext_do (RtcGetTrackDirection tid) (ext_do (RtcGetTrackMid tid)
             (ext_do (RtcGetTrackDescription tid) w)))"

definition on_track_close_callback :: "addr \<Rightarrow> int \<Rightarrow> 'a world_scheme \<Rightarrow> 'a world_scheme" where
  "on_track_close_callback n tid w = w"

definition on_track_error_callback :: "addr \<Rightarrow> int \<Rightarrow> 'a world_scheme \<Rightarrow> 'a world_scheme" where
  "on_track_error_callback n tid w = w"

definition on_track_message_callback :: "addr \<Rightarrow> int \<Rightarrow> bytes \<Rightarrow> 'a world_scheme \<Rightarrow> 'a world_scheme" where
  "on_track_message_callback n tid msg w = w"

section \<open>Well-formed worlds\<close>

text \<open>
  No dangling entries: every cached node and track is allocated, no entry is cached twice, a
  track belongs to one node, and fresh addresses are unused.
\<close>

definition caches_of :: "'a world_scheme \<Rightarrow> addr \<Rightarrow> addr list option" where
  "caches_of w n = map_option track_caches (nodes w n)"

definition world_wf :: "'a world_scheme \<Rightarrow> bool" where
  "world_wf w \<longleftrightarrow>
     distinct (peer_connection_node_caches w)
   \<and> (\<forall>n \<in> set (peer_connection_node_caches w). caches_of w n \<noteq> None)
   \<and> (\<forall>n ts. caches_of w n = Some ts \<longrightarrow> n < next_addr w \<and> distinct ts
        \<and> set ts \<subseteq> dom (tracks w))
   \<and> (\<forall>t \<in> dom (tracks w). t < next_addr w)
   \<and> (\<forall>n m ts us. caches_of w n = Some ts \<longrightarrow> caches_of w m = Some us \<longrightarrow> n \<noteq> m
        \<longrightarrow> set ts \<inter> set us = {})"

text \<open>It depends on the shape of the caches only.\<close>

lemma world_wf_cong:
  assumes "peer_connection_node_caches v = peer_connection_node_caches w"
    and "caches_of v = caches_of w" "dom (tracks v) = dom (tracks w)" "next_addr v = next_addr w"
  shows "world_wf v = world_wf w"
  by (simp add: world_wf_def assms)

lemma ext_world_simps [simp]:
  "nodes (snd (ext_int E c w)) = nodes w" "tracks (snd (ext_int E c w)) = tracks w"
  "next_addr (snd (ext_int E c w)) = next_addr w"
  "peer_connection_node_caches (snd (ext_int E c w)) = peer_connection_node_caches w"
  "streams (snd (ext_int E c w)) = streams w"
  "local_id (snd (ext_int E c w)) = local_id w"
  "web_socket (snd (ext_int E c w)) = web_socket w"
  "signal_callbacks (snd (ext_int E c w)) = signal_callbacks w"
  "selected_node (snd (ext_int E c w)) = selected_node w"
  "nodes (snd (ext_call E c w)) = nodes w" "tracks (snd (ext_call E c w)) = tracks w"
  "next_addr (snd (ext_call E c w)) = next_addr w"
  "peer_connection_node_caches (snd (ext_call E c w)) = peer_connection_node_caches w"
  "streams (snd (ext_call E c w)) = streams w"
  by (simp_all add: ext_int_def ext_call_def)

lemma world_wf_calls [simp, wf_intros]:
  "world_wf (ext_do c w) = world_wf w"
  "world_wf (snd (ext_int E c w)) = world_wf w"
  "world_wf (snd (ext_call E c w)) = world_wf w"
  by (rule world_wf_cong; simp add: caches_of_def fun_eq_iff)+

lemma caches_of_upd_track [simp]: "caches_of (upd_track t f w) = caches_of w"
  by (simp add: caches_of_def fun_eq_iff)

lemma world_wf_upd_track [simp, wf_intros]: "world_wf (upd_track t f w) = world_wf w"
  by (rule world_wf_cong) (simp_all, auto split: if_splits)

lemma world_wf_upd_node:
  "(\<And>x. track_caches (f x) = track_caches x) \<Longrightarrow> world_wf (upd_node n f w) = world_wf w"
  by (rule world_wf_cong) (auto simp: caches_of_def fun_eq_iff upd_node_def option.map_comp o_def)

definition uncached :: "addr \<Rightarrow> 'a world_scheme \<Rightarrow> bool" where
  "uncached t w \<longleftrightarrow> (\<forall>n ts. caches_of w n = Some ts \<longrightarrow> t \<notin> set ts)"

lemma uncached_cong: "caches_of v = caches_of w \<Longrightarrow> uncached t v = uncached t w"
  by (simp add: uncached_def)

lemma find_set: "find P xs = Some x \<Longrightarrow> x \<in> set xs \<and> P x"
  by (induction xs) (auto split: if_splits)

lemma remove_first_find:
  "find P xs = Some x \<Longrightarrow> distinct xs \<Longrightarrow> x \<notin> set (remove_first P xs)"
  by (induction xs) (auto split: if_splits dest: find_set)

lemma world_wf_append_track [wf_intros]:
  assumes wf: "world_wf w" and t: "tracks w t \<noteq> None" "uncached t w" and n: "nodes w n \<noteq> None"
  shows "world_wf (append_track n t w)"
proof -
  from n obtain nd where nd: "nodes w n = Some nd" by blast
  define ts where "ts = track_caches nd"
  have ts: "caches_of w n = Some ts" by (simp add: caches_of_def nd ts_def)
  from wf ts have d: "distinct ts" "set ts \<subseteq> dom (tracks w)" by (auto simp: world_wf_def)
  have tn: "t \<notin> set ts" using t(2) ts by (auto simp: uncached_def)
  show ?thesis
  proof (cases "find_track n (track_id (track_at w t)) w")
    case None
    define w' where "w' = append_track n t w"
    have c: "caches_of w' = (caches_of w)(n \<mapsto> ts @ [t])" and tr: "tracks w' = tracks w"
      and r: "next_addr w' = next_addr w" "peer_connection_node_caches w' = peer_connection_node_caches w"
      by (auto simp: w'_def append_track_def None caches_of_def fun_eq_iff nd ts_def Let_def)
    have "world_wf w'"
      using wf t tn d ts unfolding world_wf_def c tr r uncached_def
      by (auto split: if_splits)
    then show ?thesis by (simp add: w'_def)
  next
    case (Some u)
    let ?P = "\<lambda>v. track_id (track_at w v) = track_id (track_at w t)"
    define w' where "w' = append_track n t w"
    have f: "find ?P ts = Some u"
      using Some by (simp add: find_track_def node_at_def nd ts_def)
    have u: "u \<in> set ts" "u \<notin> set (remove_first ?P ts)"
      using find_set [OF f] remove_first_find [OF f d(1)] by auto
    have c: "caches_of w' = (caches_of w)(n \<mapsto> remove_first ?P ts @ [t])"
      and tr: "tracks w' = (tracks w)(u := None)"
      and r: "next_addr w' = next_addr w" "peer_connection_node_caches w' = peer_connection_node_caches w"
      by (auto simp: w'_def append_track_def Some caches_of_def fun_eq_iff nd ts_def Let_def free_track_def)
    have sub: "set (remove_first ?P ts) \<subseteq> set ts" by (rule set_remove_first_subset)
    have du: "distinct (remove_first ?P ts @ [t])"
      using d(1) tn sub by (auto simp: distinct_remove_first)
    have mem: "set (remove_first ?P ts @ [t]) \<subseteq> dom ((tracks w)(u := None))"
      using d(2) sub u tn t(1) by auto
    have other: "set us \<subseteq> dom ((tracks w)(u := None))"
      if "caches_of w m = Some us" "m \<noteq> n" for m us
    proof -
      from wf that ts have "set us \<inter> set ts = {}" "set us \<subseteq> dom (tracks w)"
        by (auto simp: world_wf_def)
      with u(1) show ?thesis by auto
    qed
    have disj: "set us \<inter> set (remove_first ?P ts @ [t]) = {}"
      if "caches_of w m = Some us" "m \<noteq> n" for m us
    proof -
      from wf that ts have "set us \<inter> set ts = {}" by (auto simp: world_wf_def)
      moreover have "t \<notin> set us" using t(2) that(1) by (auto simp: uncached_def)
      ultimately show ?thesis using sub by auto
    qed
    have "world_wf w'"
      unfolding world_wf_def c tr r
      using wf ts du mem other disj unfolding world_wf_def
      by (auto split: if_splits simp del: remove_first.simps) blast+
    then show ?thesis by (simp add: w'_def)
  qed
qed

lemma set_callbacks_world [simp]:
  "nodes (snd (set_callbacks E hs i w)) = nodes w"
  "tracks (snd (set_callbacks E hs i w)) = tracks w"
  "next_addr (snd (set_callbacks E hs i w)) = next_addr w"
  "peer_connection_node_caches (snd (set_callbacks E hs i w)) = peer_connection_node_caches w"
  "streams (snd (set_callbacks E hs i w)) = streams w"
  by (induction hs arbitrary: w) (simp_all add: Let_def case_prod_beta)

lemma world_wf_set_callbacks [simp, wf_intros]:
  "world_wf (snd (set_callbacks E hs i w)) = world_wf w"
  by (rule world_wf_cong) (simp_all add: caches_of_def fun_eq_iff)

text \<open>A successful chain registers every handler, in order; a failed one stops at the first error.\<close>

lemma set_callbacks_calls:
  "set_callbacks E hs i w = (True, w') \<Longrightarrow> calls w' = calls w @ map (\<lambda>h. RtcSetCallback h i) hs"
  by (induction hs arbitrary: w) (auto simp: Let_def case_prod_beta split: if_splits)

lemma world_wf_setup [wf_intros]:
  assumes "world_wf w" "tracks w t \<noteq> None" "uncached t w" "nodes w n \<noteq> None"
  shows "world_wf (snd (setup_track_common_logic E n t tid sidx ty w))"
proof -
  let ?w = "upd_track t (\<lambda>x. x\<lparr>track_id := tid, track_type := ty, stream_index := sidx\<rparr>) w"
  have "world_wf (append_track n t ?w)"
    using assms by (intro world_wf_append_track) (simp_all add: uncached_def)
  then show ?thesis
    by (simp add: setup_track_common_logic_def Let_def case_prod_beta)
qed

text \<open>Within a node, track ids are distinct, so the lookup by id is unambiguous.\<close>

definition ids_distinct :: "'a world_scheme \<Rightarrow> bool" where
  "ids_distinct w \<longleftrightarrow>
     (\<forall>n ts. caches_of w n = Some ts \<longrightarrow> distinct (map (\<lambda>t. track_id (track_at w t)) ts))"

lemma remove_first_key:
  "distinct (map f xs) \<Longrightarrow> x \<in> set (remove_first (\<lambda>x. f x = i) xs) \<Longrightarrow> f x \<noteq> i"
  by (induction xs) (auto split: if_splits simp: image_iff)

lemma distinct_map_remove_first:
  "distinct (map f xs) \<Longrightarrow> distinct (map f (remove_first P xs))"
  by (induction xs) (auto dest: remove_first_sound)

lemma find_none: "\<forall>x \<in> set xs. \<not> P x \<Longrightarrow> find P xs = None"
  by (induction xs) auto

lemma track_at_free: "x \<noteq> u \<Longrightarrow> track_at (free_track u w) x = track_at w x"
  by (simp add: track_at_def free_track_def)

lemma track_at_upd_node [simp]: "track_at (upd_node n f w) = track_at w"
  by (simp add: track_at_def fun_eq_iff)

lemma append_track_caches:
  assumes "nodes w n = Some nd"
  shows "track_caches (node_at (append_track n t w) n) =
    (case find_track n (track_id (track_at w t)) w of None \<Rightarrow> track_caches nd @ [t]
     | Some u \<Rightarrow> remove_first (\<lambda>v. track_id (track_at w v) = track_id (track_at w t)) (track_caches nd) @ [t])"
  using assms by (simp add: append_track_def Let_def node_at_def free_track_def split: option.split)

lemma append_track_at:
  assumes "world_wf w" "uncached t w" "x \<in> set (track_caches (node_at (append_track n t w) n))"
    and nd: "nodes w n = Some nd"
  shows "track_at (append_track n t w) x = track_at w x"
proof (cases "find_track n (track_id (track_at w t)) w")
  case None
  then show ?thesis by (simp add: append_track_def)
next
  case (Some u)
  let ?P = "\<lambda>v. track_id (track_at w v) = track_id (track_at w t)"
  from Some nd have f: "find ?P (track_caches nd) = Some u" by (simp add: find_track_def node_at_def)
  have "distinct (track_caches nd)" using assms(1) nd by (auto simp: world_wf_def caches_of_def)
  then have "u \<notin> set (remove_first ?P (track_caches nd))" "u \<in> set (track_caches nd)"
    using remove_first_find [OF f] find_set [OF f] by auto
  moreover have "t \<notin> set (track_caches nd)" using assms(2) nd by (auto simp: uncached_def caches_of_def)
  ultimately have "x \<noteq> u" using assms(3) by (auto simp: append_track_caches [OF nd] Some)
  then show ?thesis by (simp add: append_track_def Some Let_def track_at_free)
qed

lemma find_cong: "(\<And>x. x \<in> set xs \<Longrightarrow> P x = Q x) \<Longrightarrow> find P xs = find Q xs"
  by (induction xs) auto

lemma find_track_append:
  assumes nd: "nodes w n = Some nd" and wf: "world_wf w" "ids_distinct w" and t: "uncached t w"
  shows "find_track n (track_id (track_at w t)) (append_track n t w) = Some t"
proof -
  let ?i = "track_id (track_at w t)"
  let ?P = "\<lambda>v. track_id (track_at w v) = ?i"
  have "find_track n ?i (append_track n t w)
      = find ?P (track_caches (node_at (append_track n t w) n))"
    unfolding find_track_def
    by (rule find_cong) (simp add: append_track_at [OF wf(1) t _ nd])
  also have "\<dots> = Some t"
  proof (cases "find_track n ?i w")
    case None
    then have "find ?P (track_caches nd) = None" by (simp add: find_track_def node_at_def nd)
    then show ?thesis by (simp add: append_track_caches [OF nd] None find_append)
  next
    case (Some u)
    have "distinct (map (\<lambda>v. track_id (track_at w v)) (track_caches nd))"
      using wf(2) nd by (auto simp: ids_distinct_def caches_of_def)
    then have "find ?P (remove_first ?P (track_caches nd)) = None"
      by (intro find_none ballI) (rule remove_first_key)
    then show ?thesis by (simp add: append_track_caches [OF nd] Some find_append)
  qed
  finally show ?thesis .
qed

lemma append_track_media [simp]:
  "video_track (node_at (append_track n t w) m) = video_track (node_at w m)"
  "audio_track (node_at (append_track n t w) m) = audio_track (node_at w m)"
  "probe_track (node_at (append_track n t w) m) = probe_track (node_at w m)"
  "remote_id (node_at (append_track n t w) m) = remote_id (node_at w m)"
  "pc_id (node_at (append_track n t w) m) = pc_id (node_at w m)"
  "status (node_at (append_track n t w) m) = status (node_at w m)"
  "network_quality (node_at (append_track n t w) m) = network_quality (node_at w m)"
  "streams (append_track n t w) = streams w"
  by (cases "nodes w n"; simp add: append_track_def Let_def free_track_def node_at_def split: option.split)+

lemma node_at_calls [simp]:
  "node_at (ext_do c w) = node_at w" "node_at (snd (ext_int E c w)) = node_at w"
  "node_at (snd (ext_call E c w)) = node_at w" "node_at (upd_track t f w) = node_at w"
  "node_at (snd (set_callbacks E hs i w)) = node_at w"
  by (simp_all add: node_at_def fun_eq_iff)

lemma node_at_upd_node:
  "node_at (upd_node n f w) m =
     (if m = n then (case nodes w n of None \<Rightarrow> zero_node | Some x \<Rightarrow> f x) else node_at w m)"
  by (simp add: node_at_def split: option.split)

lemma setup_track_media [simp]:
  defines "s \<equiv> \<lambda>E n t tid sidx ty w. snd (setup_track_common_logic E n t tid sidx ty w)"
  shows "video_track (node_at (s E n t tid sidx ty w) m) = video_track (node_at w m)"
    "audio_track (node_at (s E n t tid sidx ty w) m) = audio_track (node_at w m)"
    "probe_track (node_at (s E n t tid sidx ty w) m) = probe_track (node_at w m)"
    "streams (s E n t tid sidx ty w) = streams w"
  by (simp_all add: s_def setup_track_common_logic_def Let_def case_prod_beta)

lemma find_track_cong:
  "nodes v = nodes w \<Longrightarrow> tracks v = tracks w \<Longrightarrow> find_track n i v = find_track n i w"
  by (simp add: find_track_def node_at_def track_at_def)

lemma not_ok [dest]: "Inl e = r \<Longrightarrow> \<not> is_ok r"
  by (auto simp: is_ok_def)

section \<open>Properties\<close>

text \<open>C21. A track set up on a node can be looked up there by its id, whatever was cached under
  that id before, the caches keep no dangling entry, and when all callbacks are registered the
  track's user pointer and its handlers (those of the probe channel for a probe track) are the
  only calls made.\<close>

theorem setup_track_findable:
  assumes "nodes w n = Some nd" "tracks w t = Some tr" "world_wf w" "ids_distinct w" "uncached t w"
    and "setup_track_common_logic E n t tid sidx ty w = (r, w')"
  shows "find_track n tid w' = Some t \<and> world_wf w'
    \<and> (is_ok r \<longrightarrow> calls w' = calls w @ RtcSetUserPointer tid #
         map (\<lambda>h. RtcSetCallback h tid) (if ty = TrackType_ProbeChannel then probe_handlers else track_handlers))"
proof -
  let ?w = "upd_track t (\<lambda>x. x\<lparr>track_id := tid, track_type := ty, stream_index := sidx\<rparr>) w"
  let ?v = "append_track n t ?w"
  have at: "track_at ?w x = (if x = t then tr\<lparr>track_id := tid, track_type := ty, stream_index := sidx\<rparr> else track_at w x)"
    for x using assms(2) by (simp add: track_at_def)
  have ids: "ids_distinct ?w"
    unfolding ids_distinct_def
  proof (intro allI impI)
    fix m ts assume m: "caches_of ?w m = Some ts"
    then have "t \<notin> set ts" using assms(5) by (auto simp: uncached_def)
    then have e: "map (\<lambda>x. track_id (track_at ?w x)) ts = map (\<lambda>x. track_id (track_at w x)) ts"
      by (auto simp: at)
    from m assms(4) show "distinct (map (\<lambda>x. track_id (track_at ?w x)) ts)"
      unfolding e by (auto simp: ids_distinct_def)
  qed
  have f: "find_track n (track_id (track_at ?w t)) ?v = Some t"
    using assms ids by (intro find_track_append) (simp_all add: uncached_def)
  have w': "w' = snd (set_callbacks E (if ty = TrackType_ProbeChannel then probe_handlers else track_handlers) tid
       (ext_do (RtcSetUserPointer tid) ?v))"
    and r: "r = (if fst (set_callbacks E (if ty = TrackType_ProbeChannel then probe_handlers else track_handlers) tid
       (ext_do (RtcSetUserPointer tid) ?v)) then Ok () else Err AVERROR_EXTERNAL)"
    using assms(6) by (auto simp: setup_track_common_logic_def Let_def case_prod_beta)
  have tid: "track_id (track_at ?w t) = tid" by (simp add: at)
  have "find_track n tid w' = find_track n tid ?v"
    by (rule find_track_cong) (simp_all add: w')
  then have "find_track n tid w' = Some t" using f unfolding tid by simp
  moreover have "world_wf w'"
    using world_wf_setup [of w t n E tid sidx ty] assms by simp
  moreover have "calls ?v = calls w" by (simp add: append_track_def Let_def free_track_def split: option.split)
  moreover have "calls w' = calls w @ RtcSetUserPointer tid # map (\<lambda>h. RtcSetCallback h tid)
      (if ty = TrackType_ProbeChannel then probe_handlers else track_handlers)" if "is_ok r"
  proof -
    let ?hs = "if ty = TrackType_ProbeChannel then probe_handlers else track_handlers"
    have "set_callbacks E ?hs tid (ext_do (RtcSetUserPointer tid) ?v) = (True, w')"
      using that r w' by (auto simp: prod_eq_iff split: if_splits)
    from set_callbacks_calls [OF this] \<open>calls ?v = calls w\<close> show ?thesis by simp
  qed
  ultimately show ?thesis by blast
qed

definition example_node_world :: world where
  "example_node_world = empty_world\<lparr>nodes := [1 \<mapsto> zero_node\<lparr>pc_id := 5\<rparr>],
     tracks := [2 \<mapsto> zero_track], next_addr := 3, peer_connection_node_caches := [1],
     streams := [example_stream]\<rparr>"

lemma example_node_world_wf:
  "world_wf example_node_world" "ids_distinct example_node_world" "uncached 2 example_node_world"
  by (auto simp: world_wf_def ids_distinct_def uncached_def caches_of_def example_node_world_def
      empty_world_def zero_node_def split: if_splits)

theorem setup_track_findable_witness:
  "find_track 1 9 (snd (setup_track_common_logic (\<lambda>_ _. (0, [])) 1 2 9 (- 1) TrackType_ProbeChannel
      example_node_world)) = Some 2"
  using setup_track_findable [where w = example_node_world and n = 1 and t = 2,
      OF _ _ example_node_world_wf prod.collapse [symmetric], of "zero_node\<lparr>pc_id := 5\<rparr>" zero_track]
  by (simp add: example_node_world_def)

text \<open>A send track is accepted for a video stream, or for an audio stream at 48 kHz; it is
  then the video or audio track of the node and the stream has the RTP time base. Any other
  stream is refused with \<open>EINVAL\<close> and nothing is changed.\<close>

theorem init_send_track_by_type:
  assumes "init_send_track_ex E (Some si) (Some n) (Some t) tid index w = (r, w')"
    and "si < length (streams w)" "nodes w n = Some nd"
  defines "st \<equiv> streams w ! si"
  shows "(is_ok r \<longrightarrow>
           (codec_type st = AVMEDIA_TYPE_VIDEO \<and> video_track (node_at w' n) = Some t
              \<and> time_base (streams w' ! si) = (1, 90000))
         \<or> (codec_type st = AVMEDIA_TYPE_AUDIO \<and> sample_rate st = 48000
              \<and> audio_track (node_at w' n) = Some t \<and> time_base (streams w' ! si) = (1, 48000)))
       \<and> (codec_type st \<noteq> AVMEDIA_TYPE_VIDEO
            \<and> (codec_type st = AVMEDIA_TYPE_AUDIO \<longrightarrow> sample_rate st \<noteq> 48000)
          \<longrightarrow> r = Err EINVAL \<and> w' = w)"
proof -
  show ?thesis
    using assms(1-3) unfolding st_def
    by (auto simp: init_send_track_ex_def Let_def case_prod_beta set_pts_info_def
        node_at_upd_node split: AVMediaType.splits if_splits sum.splits)
qed

theorem init_send_track_by_type_witness:
  "init_send_track_ex (\<lambda>_ _. (0, [])) (Some 0) (Some 1) (Some 2) 9 0
     (example_node_world\<lparr>streams := [zero_stream\<lparr>codec_type := AVMEDIA_TYPE_DATA\<rparr>]\<rparr>)
   = (Err EINVAL, example_node_world\<lparr>streams := [zero_stream\<lparr>codec_type := AVMEDIA_TYPE_DATA\<rparr>]\<rparr>)"
  using init_send_track_by_type [of "\<lambda>_ _. (0, [])" 0 1 2 9 0
      "example_node_world\<lparr>streams := [zero_stream\<lparr>codec_type := AVMEDIA_TYPE_DATA\<rparr>]\<rparr>",
      OF prod.collapse [symmetric], of "zero_node\<lparr>pc_id := 5\<rparr>"]
  by (simp add: example_node_world_def zero_stream_def prod_eq_iff)

text \<open>Both muxers derive the track profile from the \<open>a=fmtp:\<close> line, but not the same one: the
  WHIP muxer skips the payload type, the P2P code leaves it in front of the parameters.\<close>

theorem profiles_differ_by_payload_type:
  assumes "strstr sdp ''a=fmtp:'' = Some (''a=fmtp:'' @ pt @ params @ CHR 0x0D # rest)"
    and "length pt = 3" and "CHR 0x0D \<notin> set (pt @ params)"
  shows "whip_profile sdp = Some (params @ profile_suffix)
       \<and> p2p_profile sdp = Some (pt @ params @ profile_suffix)"
proof -
  have cr: "\<forall>c \<in> set params. c \<noteq> CHR 0x0D" "\<forall>c \<in> set (pt @ params). c \<noteq> CHR 0x0D"
    using assms(3) by auto
  have tw: "takeWhile (\<lambda>c. c \<noteq> CHR 0x0D) (params @ CHR 0x0D # rest) = params"
    by (subst takeWhile_append2) (use cr in auto)
  have dw: "dropWhile (\<lambda>c. c \<noteq> CHR 0x0D) (pt @ params @ CHR 0x0D # rest) = CHR 0x0D # rest"
    unfolding append_assoc [symmetric] by (subst dropWhile_append2) (use cr in auto)
  from assms(2) obtain a b c where pt: "pt = [a, b, c]"
    by (auto simp: numeral_eq_Suc length_Suc_conv)
  have "drop 10 (''a=fmtp:'' @ pt @ params @ CHR 0x0D # rest) = params @ CHR 0x0D # rest"
    by (simp add: pt)
  then have "whip_profile sdp = Some (params @ profile_suffix)"
    unfolding whip_profile_def assms(1) by (simp only: option.case tw)
  moreover have "drop 7 (''a=fmtp:'' @ pt @ params @ CHR 0x0D # rest) = pt @ params @ CHR 0x0D # rest"
    by simp
  then have "p2p_profile sdp = Some (pt @ params @ profile_suffix)"
    unfolding p2p_profile_def assms(1) strchr_def by (simp only: option.case Let_def dw list.case) simp
  ultimately show ?thesis by blast
qed

definition example_fmtp :: string where
  "example_fmtp = ''m=video'' @ CRLF @ ''a=fmtp:96 packetization-mode=1'' @ CRLF"

theorem profiles_differ_by_payload_type_witness:
  "whip_profile example_fmtp = Some (''packetization-mode=1'' @ profile_suffix)
   \<and> p2p_profile example_fmtp = Some (''96 '' @ ''packetization-mode=1'' @ profile_suffix)"
  by (rule profiles_differ_by_payload_type [where rest = "[CHR 0x0A]"])
    (simp_all add: example_fmtp_def CRLF_def strstr.simps)

text \<open>The send track of a stream whose codec libdatachannel does not know is added all the
  same, with the invalid codec: the error of the conversion is lost.\<close>

theorem unknown_codec_track_added:
  assumes "create_send_track E si n t index w = (Ok ret, w')"
    and "fst (webrtc_convert_codec (codec_id (streams w ! si))) = Err EINVAL"
  shows "\<exists>init. last (calls w') = RtcAddTrackEx (pc_id (node_at w n)) init \<and> ti_codec init = RTC_CODEC_INVALID"
proof -
  have nd: "node_at (snd (p2p_rtp_init_urlcontext E t w)) n = node_at w n"
    "streams (snd (p2p_rtp_init_urlcontext E t w)) = streams w"
    by (simp_all add: p2p_rtp_init_urlcontext_def Let_def case_prod_beta node_at_def)
  have ms: "node_at (snd (webrtc_generate_media_stream_id E v)) n = node_at v n"
    "streams (snd (webrtc_generate_media_stream_id E v)) = streams v" for v :: "'a world_scheme"
    by (simp_all add: webrtc_generate_media_stream_id_def Let_def case_prod_beta node_at_def)
  have inv: "fst (webrtc_convert_codec c) = Err EINVAL \<Longrightarrow> snd (webrtc_convert_codec c) = RTC_CODEC_INVALID" for c
    by (cases c) (simp_all add: webrtc_convert_codec_def)
  show ?thesis
    using assms(1) inv [OF assms(2)]
    by (auto simp: create_send_track_def create_track_def Let_def case_prod_beta ms
        node_at_def [of "upd_track t f v" for f v] node_at_def [of "snd (ext_int E c v)" for c v]
        node_at_def [of "snd (ext_call E c v)" for c v] node_at_def [symmetric] nd
        split: sum.splits if_splits option.splits)
qed

definition vp8_world :: world where
  "vp8_world = example_node_world\<lparr>streams := [zero_stream\<lparr>codec_id := CODEC_VP8\<rparr>]\<rparr>"

theorem unknown_codec_track_added_witness:
  "\<exists>init. last (calls (snd (create_send_track (\<lambda>_ _. (1, [])) 0 1 2 0 vp8_world)))
       = RtcAddTrackEx (pc_id (node_at vp8_world 1)) init \<and> ti_codec init = RTC_CODEC_INVALID"
proof (rule unknown_codec_track_added [OF prod_eqI])
  show "fst (create_send_track (\<lambda>_ _. (1, [])) 0 1 2 0 vp8_world) = fst (Ok 1, snd (create_send_track (\<lambda>_ _. (1, [])) 0 1 2 0 vp8_world))"
    by (simp add: create_send_track_def create_track_def p2p_rtp_init_urlcontext_def int_res_def
        webrtc_generate_media_stream_id_def ext_int_def ext_call_def Let_def)
qed (simp_all add: vp8_world_def webrtc_convert_codec_def)

end
