(* ===== verification/Probe.thy ===== *)
theory Probe
  imports Tracks Crc
begin

text \<open>
  Network probing, \<^verbatim>\<open>libavformat/p2p_probe.c\<close>: the probe packet and its bytes on the
  data channel, the sender's sequence of ten packets, the receiver's statistics, the node
  score and the choice of the best node.

  The packet is a C struct sent as it lies in memory; its layout is the one of the 64-bit
  little-endian ABIs: the 32 byte header has the sequence number at 0, the send time at 8,
  the packet size at 16, the phase at 20 and the CRC at 24, the gaps are zeroed.
\<close>

section \<open>Probe packets\<close>

definition le32 :: "u32 \<Rightarrow> bytes" where
  "le32 x = rev (AV_WB32 x)"

definition le64 :: "u64 \<Rightarrow> bytes" where
  "le64 x = rev (AV_WB64 x)"

definition get_le32 :: "bytes \<Rightarrow> nat \<Rightarrow> u32" where
  "get_le32 xs i = rb32 (xs ! (i + 3)) (xs ! (i + 2)) (xs ! (i + 1)) (xs ! i)"

definition get_le64 :: "bytes \<Rightarrow> nat \<Rightarrow> u64" where
  "get_le64 xs i = rb64 (get_le32 xs (i + 4)) (get_le32 xs i)"

record ProbePacketHeader =
  sequence_number :: u32
  send_time :: u64
  packet_size :: u32
  hphase :: u32
  payload_crc :: u32

fun phase_code :: "ProbingPhase \<Rightarrow> u32" where
  "phase_code PROBING_SLOW_START = 0"
| "phase_code PROBING_BANDWIDTH = 1"
| "phase_code PROBING_VERIFICATION = 2"
| "phase_code PROBING_COMPLETE = 3"

definition sizeof_header :: nat where "sizeof_header = 32"
definition sizeof_padding :: nat where "sizeof_padding = PROBE_MAX_PACKET_SIZE - sizeof_header"

definition header_bytes :: "ProbePacketHeader \<Rightarrow> bytes" where
  "header_bytes h = le32 (sequence_number h) @ [0, 0, 0, 0] @ le64 (send_time h)
     @ le32 (packet_size h) @ le32 (hphase h) @ le32 (payload_crc h) @ [0, 0, 0, 0]"

definition read_header :: "bytes \<Rightarrow> ProbePacketHeader" where
  "read_header d = \<lparr>sequence_number = get_le32 d 0, send_time = get_le64 d 8,
     packet_size = get_le32 d 16, hphase = get_le32 d 20, payload_crc = get_le32 d 24\<rparr>"

lemma length_header_bytes [simp]: "length (header_bytes h) = 32"
  by (simp add: header_bytes_def le32_def le64_def)

lemma le32_bytes: "le32 x = [ucast x, ucast (drop_bit 8 x), ucast (drop_bit 16 x), ucast (drop_bit 24 x)]"
  by (simp add: le32_def AV_WB32_def)

lemma le64_bytes: "le64 x = le32 (ucast x) @ le32 (ucast (drop_bit 32 x))"
  by (simp add: le64_def le32_def AV_WB64_def)

lemma read_header_bytes [simp]: "read_header (header_bytes h @ xs) = h"
  by (simp add: read_header_def header_bytes_def le32_bytes le64_bytes get_le32_def get_le64_def)

text \<open>The checksum of a payload at an address that is \<open>al\<close> modulo 4.\<close>

definition ieee_crc :: "nat \<Rightarrow> bytes \<Rightarrow> u32" where
  "ieee_crc al p = av_crc (av_crc_get_table AV_CRC_32_IEEE) al 0 p"

lemma ieee_crc_align: "ieee_crc al p = ieee_crc 0 p"
proof -
  have "av_crc_init False 32 0x04C11DB7 1024 = Ok (av_crc_get_table AV_CRC_32_IEEE)"
    by (rule get_table_init) simp
  from av_crc_bytes [OF this] show ?thesis by (simp add: ieee_crc_def)
qed

section \<open>Probe data\<close>

definition probe_data_init :: "int \<Rightarrow> NetworkQualityMetrics" where
  "probe_data_init now = zero_metrics\<lparr>start_time := now, ice_connectivity_score := - 1,
     phase := PROBING_SLOW_START, expected_packets := 0, timeout_ms := 0, probe_start_time := 0,
     min_rtt := None, max_rtt := 0\<rparr>"

section \<open>Sending\<close>

definition packet_sizes :: "u32 list" where
  "packet_sizes = [128, 256, 512, 1024, 1400]"

definition total_packets :: nat where "total_packets = length packet_sizes * 2"

text \<open>\<open>(char)(rand() % 256)\<close> for each byte of the payload.\<close>

fun random_bytes :: "ext \<Rightarrow> nat \<Rightarrow> 'a world_scheme \<Rightarrow> bytes \<times> 'a world_scheme" where
  "random_bytes E 0 w = ([], w)"
| "random_bytes E (Suc n) w =
     (let (r, w) = ext_int E Rand w; (bs, w) = random_bytes E n w
      in (word_of_int (c_mod r 256) # bs, w))"

text \<open>The size a packet gets: the payload never exceeds the padding of the struct.\<close>

definition clamp_payload :: "u32 \<Rightarrow> u32" where
  "clamp_payload psize =
     (let payload_size = psize - of_nat sizeof_header
      in if of_nat sizeof_padding < payload_size then of_nat sizeof_padding else payload_size)"

definition probe_packet :: "u32 \<Rightarrow> u64 \<Rightarrow> u32 \<Rightarrow> bytes \<Rightarrow> bytes" where
  "probe_packet sn time ph pl =
     header_bytes \<lparr>sequence_number = sn, send_time = time,
       packet_size = of_nat (sizeof_header + length pl), hphase = ph, payload_crc = ieee_crc 0 pl\<rparr> @ pl"

text \<open>One round of the loop; \<open>False\<close> is a failed send.\<close>

definition send_probe_packet :: "ext \<Rightarrow> addr \<Rightarrow> int \<Rightarrow> nat \<Rightarrow> 'a world_scheme \<Rightarrow> bool \<times> 'a world_scheme" where
  "send_probe_packet E n tid i w =
     (let (now, w) = ext_int E Av_gettime w;
          payload_size = clamp_payload (packet_sizes ! (i div 2));
          (pl, w) = random_bytes E (unat payload_size) w;
          pkt = probe_packet (of_nat i) (word_of_int now)
                  (phase_code (phase (network_quality (node_at w n)))) pl;
          (ret, w) = ext_int E (RtcSendMessage tid pkt) w
      in if ret \<noteq> 0 then (False, w)
         else (True, ext_do (Av_usleep 100000) (upd_node n (\<lambda>x. x\<lparr>network_quality :=
            (network_quality x)\<lparr>packets_sent := packets_sent (network_quality x) + 1\<rparr>\<rparr>) w)))"

fun send_probe_loop :: "ext \<Rightarrow> addr \<Rightarrow> int \<Rightarrow> nat list \<Rightarrow> 'a world_scheme \<Rightarrow> unit res \<times> 'a world_scheme" where
  "send_probe_loop E n tid [] w = (Ok (), w)"
| "send_probe_loop E n tid (i # rest) w =
     (case send_probe_packet E n tid i w of
        (True, w) \<Rightarrow> send_probe_loop E n tid rest w
      | (False, w) \<Rightarrow> (Err Minus_one, w))"

definition send_probe_packets :: "ext \<Rightarrow> addr \<Rightarrow> 'a world_scheme \<Rightarrow> unit res \<times> 'a world_scheme" where
  "send_probe_packets E n w =
     (case probe_track (node_at w n) of None \<Rightarrow> (Err Minus_one, w)
      | Some t \<Rightarrow>
          if track_id (track_at w t) \<le> 0 then (Err Minus_one, w)
          else let w = upd_node n (\<lambda>x. x\<lparr>network_quality :=
                  (network_quality x)\<lparr>expected_packets := int total_packets\<rparr>\<rparr>) w
          in send_probe_loop E n (track_id (track_at w t)) [0..<total_packets] w)"

section \<open>Receiving\<close>

definition update_metrics :: "int \<Rightarrow> ProbePacketHeader \<Rightarrow> NetworkQualityMetrics \<Rightarrow> NetworkQualityMetrics" where
  "update_metrics now h m =
     (let rtt = of_int (now - sint (send_time h)) / 1000;
          m = m\<lparr>packets_received := packets_received m + 1,
                bytes_received := bytes_received m + ucast (packet_size h),
                last_recv_time := now, rtt_sum := rtt_sum m + rtt, rtt_count := rtt_count m + 1\<rparr>;
          m = (if rtt_count m = 1 then m\<lparr>min_rtt := Some rtt, max_rtt := rtt\<rparr>
               else m\<lparr>min_rtt := (case min_rtt m of None \<Rightarrow> Some rtt
                          | Some a \<Rightarrow> Some (if a < rtt then a else rtt)),
                      max_rtt := (if max_rtt m > rtt then max_rtt m else rtt)\<rparr>);
          m = m\<lparr>packet_loss_rate := (if expected_packets m > 0
                  then 1 - of_int (packets_received m) / of_int (expected_packets m) else 0)\<rparr>;
          duration = of_int (now - start_time m) / 1000000;
          m = (if duration > 0 then m\<lparr>bandwidth_kbps :=
                  (of_int (uint (bytes_received m)) * 8 / 1024) / duration\<rparr> else m)
      in if expected_packets m > 0 \<and> packets_received m \<ge> expected_packets m
         then m\<lparr>phase := PROBING_COMPLETE\<rparr> else m)"

text \<open>
  \<open>Metrics m\<close>: the handler returned with these statistics; \<open>Aborted\<close>: \<open>abort()\<close>; \<open>Overread\<close>:
  it read beyond the received buffer, which happens only when the size is not the length.
\<close>

datatype probe_outcome = Metrics NetworkQualityMetrics | Aborted | Overread

definition handle_probe_packet :: "int \<Rightarrow> nat \<Rightarrow> NetworkQualityMetrics \<Rightarrow> bytes \<Rightarrow> int \<Rightarrow> probe_outcome" where
  "handle_probe_packet now al m data sz =
     (if 0 \<le> sz \<and> sz < int sizeof_header then Metrics m
      else if length data < sizeof_header then Overread
      else let h = read_header data
      in if sz \<noteq> sint (packet_size h) then Metrics m
      else let payload_size = packet_size h - of_nat sizeof_header
      in if of_nat sizeof_padding < payload_size then Aborted
      else if length data < sizeof_header + unat payload_size then Overread
      else if ieee_crc al (take (unat payload_size) (drop sizeof_header data)) \<noteq> payload_crc h then Aborted
      else Metrics (update_metrics now h m))"

definition on_probe_channel_message :: "ext \<Rightarrow> nat \<Rightarrow> addr \<Rightarrow> bytes \<Rightarrow> int \<Rightarrow> 'a world_scheme
    \<Rightarrow> 'a world_scheme" where
  "on_probe_channel_message E al n msg sz w =
     (let (now, w) = ext_int E Av_gettime w
      in case handle_probe_packet now al (network_quality (node_at w n)) msg sz of
           Metrics m \<Rightarrow> upd_node n (\<lambda>x. x\<lparr>network_quality := m\<rparr>) w
         | _ \<Rightarrow> ext_do Abort w)"

section \<open>Scoring\<close>

definition clip_double :: "rat \<Rightarrow> rat \<Rightarrow> rat \<Rightarrow> rat" where
  "clip_double v lo hi = (if v < lo then lo else if v > hi then hi else v)"

definition calculate_node_score :: "NetworkQualityMetrics \<Rightarrow> rat \<times> NetworkQualityMetrics" where
  "calculate_node_score d =
     (if packets_received d = 0 then (0, d)
      else let avg_rtt = rtt_sum d / of_int (rtt_count d);
               rtt_score = clip_double (25 * (1 - avg_rtt / MAX_RTT_MS)) 0 25;
               packet_loss_score = clip_double (25 * (1 - packet_loss_rate d / MAX_PACKET_LOSS)) 0 25;
               bandwidth_score = clip_double (25 * (bandwidth_kbps d / MIN_BANDWIDTH_KBPS)) 0 25;
               ice_score = clip_double (of_int (ice_connectivity_score d) * 25 / 100) 0 25;
               s = rtt_score + packet_loss_score + bandwidth_score + ice_score
           in (s, d\<lparr>final_score := s\<rparr>))"

fun select_loop :: "addr list \<Rightarrow> addr option \<Rightarrow> rat \<Rightarrow> 'a world_scheme
    \<Rightarrow> addr option \<times> 'a world_scheme" where
  "select_loop [] best_node best_score w = (best_node, w)"
| "select_loop (n # rest) best_node best_score w =
     (let (score, m) = calculate_node_score (network_quality (node_at w n));
          w = upd_node n (\<lambda>x. x\<lparr>network_quality := m\<rparr>) w
      in if score > best_score then select_loop rest (Some n) score w
         else select_loop rest best_node best_score w)"

definition select_best_node :: "'a world_scheme \<Rightarrow> addr option \<times> 'a world_scheme" where
  "select_best_node w = select_loop (peer_connection_node_caches w) None 0 w"

section \<open>The probe channel\<close>

text \<open>
  An unknown channel gets a new probe track; when its set up fails the track is freed, but by
  then it is in the cache of the node.
\<close>

definition on_probe_channel_open :: "ext \<Rightarrow> int \<Rightarrow> addr \<Rightarrow> 'a world_scheme \<Rightarrow> 'a world_scheme" where
  "on_probe_channel_open E dc n w =
     (let (track, w) = (case find_track n dc w of
            Some t \<Rightarrow> (Some t, w)
          | None \<Rightarrow>
              let (t, w) = alloc_track E w
              in (case t of None \<Rightarrow> (None, w)
                  | Some t \<Rightarrow>
                      let (r, w) = setup_probe_track E n t dc w
                      in (case r of Inl e \<Rightarrow> (None, free_track t w) | Inr _ \<Rightarrow> (Some t, w))))
      in case track of None \<Rightarrow> w
         | Some t \<Rightarrow>
             let w = ext_do (RtcSetUserPointer dc) w;
                 w = w\<lparr>calls := calls w @ map (\<lambda>h. RtcSetCallback h dc) probe_handlers\<rparr>
             in if probe_track (node_at w n) = None \<and> track_type (track_at w t) = TrackType_ProbeChannel
                then upd_node n (\<lambda>x. x\<lparr>probe_track := Some t\<rparr>) w else w)"

definition on_probe_channel_error :: "addr \<Rightarrow> 'a world_scheme \<Rightarrow> 'a world_scheme" where
  "on_probe_channel_error n w = w"

definition on_probe_channel_closed :: "addr \<Rightarrow> 'a world_scheme \<Rightarrow> 'a world_scheme" where
  "on_probe_channel_closed n w = w"

section \<open>Requests to the publisher\<close>

definition send_probe_request_to_publisher :: "ext \<Rightarrow> (json \<Rightarrow> string) \<Rightarrow> addr \<Rightarrow> 'a world_scheme
    \<Rightarrow> int res \<times> 'a world_scheme" where
  "send_probe_request_to_publisher E pr n w =
     (let msg = p2p_create_signal_message P2P_MSG_PROBE_REQUEST (local_id w) (remote_id (node_at w n));
          (seed, w) = ext_int E Av_random w;
          probe_id = ''probe_'' @ fmt_08x (word_of_int seed);
          msg = msg\<lparr>payload := P_probe_request (Some probe_id) 1024 (int total_packets) PROBE_TIMEOUT_MS\<rparr>;
          (now, w) = ext_int E Av_gettime w;
          w = upd_node n (\<lambda>x. x\<lparr>network_quality := (network_quality x)
                \<lparr>expected_packets := int total_packets, timeout_ms := PROBE_TIMEOUT_MS,
                 probe_start_time := now\<rparr>\<rparr>) w
      in p2p_send_signal_message E pr (Some msg) w)"

definition send_stream_request :: "ext \<Rightarrow> (json \<Rightarrow> string) \<Rightarrow> addr option \<Rightarrow> 'a world_scheme
    \<Rightarrow> int res \<times> 'a world_scheme" where
  "send_stream_request E pr node w =
     (case node of None \<Rightarrow> (Err EINVAL, w)
      | Some n \<Rightarrow>
          let msg = p2p_create_signal_message P2P_MSG_STREAM_REQUEST (local_id w) (remote_id (node_at w n))
          in p2p_send_signal_message E pr
               (Some (msg\<lparr>payload := P_stream_request (Some ''main_stream'')\<rparr>)) w)"

section \<open>A packet and its receiver\<close>

lemma sizes [simp]: "sizeof_header = 32" "sizeof_padding = 1468"
  by (simp_all add: sizeof_header_def sizeof_padding_def PROBE_MAX_PACKET_SIZE_def)

lemma length_probe_packet [simp]: "length (probe_packet sn time ph pl) = 32 + length pl"
  by (simp add: probe_packet_def)

lemma of_nat_size:
  assumes "k \<le> 1500"
  shows "unat (of_nat k :: u32) = k" "sint (of_nat k :: u32) = int k"
proof -
  show u: "unat (of_nat k :: u32) = k"
    using assms by (simp add: unat_of_nat take_bit_nat_eq_self)
  have "sint (of_nat k :: u32) = signed_take_bit 31 (int k)"
    by (simp add: sint_uint uint_nat u)
  also have "\<dots> = int k"
    using assms by (simp add: signed_take_bit_int_eq_self)
  finally show "sint (of_nat k :: u32) = int k" .
qed

lemma payload_size_word:
  assumes "length pl \<le> 1468"
  shows "of_nat (32 + length pl) - (32 :: u32) = of_nat (length pl)"
    "\<not> (1468 :: u32) < of_nat (length pl)"
proof -
  show "of_nat (32 + length pl) - (32 :: u32) = of_nat (length pl)" by simp
  have "unat (of_nat (length pl) :: u32) = length pl" using of_nat_size(1) assms by simp
  then show "\<not> (1468 :: u32) < of_nat (length pl)" using assms by (simp add: word_less_nat_alt)
qed

text \<open>The receiver on a packet with the header of \<open>pl\<close> and the payload \<open>pl'\<close> of the same length.\<close>

lemma handle_packet_payload:
  assumes "length pl \<le> 1468" "length pl' = length pl"
  shows "handle_probe_packet now al m (header_bytes h @ pl') (32 + int (length pl)) =
     (if packet_size h \<noteq> of_nat (32 + length pl) then Metrics m
      else if ieee_crc 0 pl' \<noteq> payload_crc h then Aborted
      else Metrics (update_metrics now h m))"
proof -
  have u: "unat (of_nat (length pl) :: u32) = length pl" using of_nat_size(1) assms(1) by simp
  have s: "32 + int (length pl) \<noteq> sint (packet_size h) \<longleftrightarrow> packet_size h \<noteq> of_nat (32 + length pl)"
  proof -
    have "sint (of_nat (32 + length pl) :: u32) = 32 + int (length pl)"
      using of_nat_size(2) [of "32 + length pl"] assms(1) by simp
    then show ?thesis by (metis sint_word_ariths(1) word_eq_iff_signed)
  qed
  show ?thesis
    using payload_size_word [OF assms(1)] assms(2)
    by (simp add: handle_probe_packet_def Let_def s u ieee_crc_align [of al])
qed

definition probe_header :: "u32 \<Rightarrow> u64 \<Rightarrow> u32 \<Rightarrow> bytes \<Rightarrow> ProbePacketHeader" where
  "probe_header sn time ph pl = \<lparr>sequence_number = sn, send_time = time,
     packet_size = of_nat (32 + length pl), hphase = ph, payload_crc = ieee_crc 0 pl\<rparr>"

lemma probe_packet_header: "probe_packet sn time ph pl = header_bytes (probe_header sn time ph pl) @ pl"
  by (simp add: probe_packet_def probe_header_def)

lemma handle_probe_packet_accepts:
  assumes "length pl \<le> 1468"
  shows "handle_probe_packet now al m (probe_packet sn time ph pl) (int (32 + length pl)) =
     Metrics (update_metrics now (probe_header sn time ph pl) m)"
  using handle_packet_payload [OF assms refl, of now al m "probe_header sn time ph pl"]
  by (simp add: probe_packet_header) (simp add: probe_header_def)

section \<open>The sequence of ten packets\<close>

text \<open>The messages sent on a channel.\<close>

fun sent_on :: "int \<Rightarrow> ext_call list \<Rightarrow> bytes list" where
  "sent_on tid [] = []"
| "sent_on tid (c # cs) =
     (case c of RtcSendMessage t b \<Rightarrow> if t = tid then [b] else [] | _ \<Rightarrow> []) @ sent_on tid cs"

lemma sent_on_append [simp]: "sent_on tid (xs @ ys) = sent_on tid xs @ sent_on tid ys"
  by (induction xs) simp_all

lemma random_bytes_frame:
  "length (fst (random_bytes E n w)) = n \<and> nodes (snd (random_bytes E n w)) = nodes w
   \<and> tracks (snd (random_bytes E n w)) = tracks w
   \<and> sent_on tid (calls (snd (random_bytes E n w))) = sent_on tid (calls w)"
  by (induction n arbitrary: w) (simp_all add: Let_def case_prod_beta)

definition payload_length :: "nat \<Rightarrow> nat" where
  "payload_length i = unat (clamp_payload (packet_sizes ! (i div 2)))"

text \<open>A packet of the sequence: the number, and a payload of the size of its class.\<close>

definition is_probe :: "u32 \<Rightarrow> nat \<Rightarrow> bytes \<Rightarrow> bool" where
  "is_probe ph i b \<longleftrightarrow>
     (\<exists>time pl. length pl = payload_length i \<and> b = probe_packet (of_nat i) time ph pl)"

abbreviation metrics_at :: "'a world_scheme \<Rightarrow> addr \<Rightarrow> NetworkQualityMetrics" where
  "metrics_at w n \<equiv> network_quality (node_at w n)"

lemma send_probe_packet_sends:
  assumes "send_probe_packet E n tid i w = (True, w')" "nodes w n \<noteq> None"
  shows "\<exists>b. sent_on tid (calls w') = sent_on tid (calls w) @ [b]
      \<and> is_probe (phase_code (phase (metrics_at w n))) i b
      \<and> phase (metrics_at w' n) = phase (metrics_at w n)
      \<and> packets_sent (metrics_at w' n) = packets_sent (metrics_at w n) + 1
      \<and> expected_packets (metrics_at w' n) = expected_packets (metrics_at w n)
      \<and> nodes w' n \<noteq> None"
proof -
  let ?w1 = "snd (ext_int E Av_gettime w)"
  let ?r = "random_bytes E (payload_length i) ?w1"
  have fr: "length (fst ?r) = payload_length i" "nodes (snd ?r) = nodes w"
    "sent_on tid (calls (snd ?r)) = sent_on tid (calls w)"
    using random_bytes_frame [of E "payload_length i" ?w1 tid] by simp_all
  have na: "node_at (snd ?r) n = node_at w n" by (simp add: node_at_def fr)
  let ?b = "probe_packet (of_nat i) (word_of_int (fst (ext_int E Av_gettime w)))
      (phase_code (phase (metrics_at w n))) (fst ?r)"
  have "is_probe (phase_code (phase (metrics_at w n))) i ?b"
    unfolding is_probe_def using fr(1) by blast
  moreover have "sent_on tid (calls w') = sent_on tid (calls w) @ [?b]"
    using assms(1) fr na
    by (auto simp: send_probe_packet_def Let_def case_prod_beta payload_length_def split: if_splits)
  ultimately show ?thesis
    using assms fr na
    by (intro exI [of _ ?b])
      (auto simp: send_probe_packet_def Let_def case_prod_beta payload_length_def node_at_def split: if_splits)
qed

lemma send_probe_loop_sends:
  assumes "send_probe_loop E n tid is w = (Ok (), w')" "nodes w n \<noteq> None"
  shows "\<exists>bs. sent_on tid (calls w') = sent_on tid (calls w) @ bs
      \<and> list_all2 (is_probe (phase_code (phase (metrics_at w n)))) is bs
      \<and> packets_sent (metrics_at w' n) = packets_sent (metrics_at w n) + int (length is)
      \<and> expected_packets (metrics_at w' n) = expected_packets (metrics_at w n)"
  using assms
proof (induction "is" arbitrary: w)
  case (Cons i rest)
  from Cons.prems obtain v where v: "send_probe_packet E n tid i w = (True, v)"
      and l: "send_probe_loop E n tid rest v = (Ok (), w')"
    by (auto split: prod.splits bool.splits)
  from send_probe_packet_sends [OF v Cons.prems(2)] obtain b where
    b: "sent_on tid (calls v) = sent_on tid (calls w) @ [b]"
      "is_probe (phase_code (phase (metrics_at w n))) i b"
      "phase (metrics_at v n) = phase (metrics_at w n)"
      "packets_sent (metrics_at v n) = packets_sent (metrics_at w n) + 1"
      "expected_packets (metrics_at v n) = expected_packets (metrics_at w n)" "nodes v n \<noteq> None"
    by blast
  from Cons.IH [OF l b(6)] obtain bs where
    "sent_on tid (calls w') = sent_on tid (calls v) @ bs"
    "list_all2 (is_probe (phase_code (phase (metrics_at v n)))) rest bs"
    "packets_sent (metrics_at w' n) = packets_sent (metrics_at v n) + int (length rest)"
    "expected_packets (metrics_at w' n) = expected_packets (metrics_at v n)"
    by blast
  with b show ?case by (intro exI [of _ "b # bs"]) simp
qed simp

section \<open>Receiving a sequence\<close>

text \<open>The packets with the times and the alignments at which they are handled.\<close>

fun receive_all :: "(int \<times> nat) list \<Rightarrow> bytes list \<Rightarrow> NetworkQualityMetrics \<Rightarrow> probe_outcome" where
  "receive_all ts [] m = Metrics m"
| "receive_all ts (b # bs) m =
     (let (now, al) = (case ts of [] \<Rightarrow> (0, 0) | t # _ \<Rightarrow> t)
      in case handle_probe_packet now al m b (int (length b)) of
           Metrics m \<Rightarrow> receive_all (tl ts) bs m | bad \<Rightarrow> bad)"

lemma update_metrics_counts:
  "packets_received (update_metrics now h m) = packets_received m + 1"
  "rtt_count (update_metrics now h m) = rtt_count m + 1"
  "bytes_received (update_metrics now h m) = bytes_received m + ucast (packet_size h)"
  "expected_packets (update_metrics now h m) = expected_packets m"
  "expected_packets m > 0 \<Longrightarrow> packet_loss_rate (update_metrics now h m) =
     1 - of_int (packets_received m + 1) / of_int (expected_packets m)"
  "phase (update_metrics now h m) =
     (if expected_packets m > 0 \<and> packets_received m + 1 \<ge> expected_packets m then PROBING_COMPLETE
      else phase m)"
  by (auto simp: update_metrics_def Let_def)

lemma payload_lengths:
  "payload_length i \<in> {96, 224, 480, 992, 1368}" if "i < 10"
proof -
  have "list_all (\<lambda>i. payload_length i \<in> {96, 224, 480, 992, 1368}) [0..<10]"
    by code_simp
  with that show ?thesis by (simp only: list_all_iff set_upt) auto
qed

lemma receive_probes:
  assumes "list_all2 (is_probe ph) is bs" "\<forall>i \<in> set is. i < 10" "bs \<noteq> []"
  shows "\<exists>m'. receive_all ts bs m = Metrics m'
      \<and> packets_received m' = packets_received m + int (length bs)
      \<and> expected_packets m' = expected_packets m
      \<and> bytes_received m' = bytes_received m + of_nat (sum_list (map length bs))
      \<and> (expected_packets m = packets_received m + int (length bs) \<and> 0 \<le> packets_received m
           \<longrightarrow> phase m' = PROBING_COMPLETE \<and> packet_loss_rate m' = 0)"
  using assms
proof (induction "is" bs arbitrary: ts m rule: list_all2_induct)
  case (Cons i "is" b bs)
  from Cons.hyps(1) obtain time pl where pl: "length pl = payload_length i"
      and b: "b = probe_packet (of_nat i) time ph pl" by (auto simp: is_probe_def)
  have len: "length pl \<le> 1468" using payload_lengths [of i] Cons.prems(1) pl by auto
  obtain now al where t: "(case ts of [] \<Rightarrow> (0, 0) | t # _ \<Rightarrow> t) = (now, al)" by (metis surj_pair)
  let ?m = "update_metrics now (probe_header (of_nat i) time ph pl) m"
  have r: "receive_all ts (b # bs) m = receive_all (tl ts) bs ?m"
    using handle_probe_packet_accepts [OF len, of now al m "of_nat i" time ph]
    by (simp add: t b)
  have sz: "ucast (packet_size (probe_header (of_nat i) time ph pl)) = (of_nat (length b) :: u64)"
  proof -
    have "unat (packet_size (probe_header (of_nat i) time ph pl)) = length b"
      using of_nat_size(1) [of "32 + length pl"] len by (simp add: probe_header_def b)
    then show ?thesis by (metis of_nat_unat)
  qed
  show ?case
  proof (cases "bs = []")
    case True
    then have "receive_all ts (b # bs) m = Metrics ?m" using r by simp
    moreover have "int (length (b # bs)) = 1" using True by simp
    moreover have "of_nat (sum_list (map length (b # bs))) = (of_nat (length b) :: u64)" using True by simp
    ultimately show ?thesis
      by (auto simp: update_metrics_counts sz)
  next
    case False
    from Cons.IH [OF _ False, of "tl ts" ?m] Cons.prems(1) obtain m' where
      "receive_all (tl ts) bs ?m = Metrics m'"
      "packets_received m' = packets_received ?m + int (length bs)"
      "expected_packets m' = expected_packets ?m"
      "bytes_received m' = bytes_received ?m + of_nat (sum_list (map length bs))"
      "expected_packets ?m = packets_received ?m + int (length bs) \<and> 0 \<le> packets_received ?m
         \<longrightarrow> phase m' = PROBING_COMPLETE \<and> packet_loss_rate m' = 0" by auto
    with r show ?thesis
      by (intro exI [of _ m']) (simp add: update_metrics_counts sz del: receive_all.simps)
  qed
qed simp

lemma is_probe_length:
  "is_probe ph i b \<Longrightarrow> length b = 32 + payload_length i"
  by (auto simp: is_probe_def)

lemma probe_lengths: "map (\<lambda>i. 32 + payload_length i) [0..<10] =
    [128, 128, 256, 256, 512, 512, 1024, 1024, 1400, 1400]"
  by code_simp

section \<open>Properties\<close>

text \<open>C14. Probing end to end: when the publisher has sent its probe packets, exactly ten
  messages went out on the probe channel, numbered and of sizes 128 to 1400 bytes, two of each
  size, and the receiver that gets these messages in order, at any times and alignments, ends in
  the complete phase with ten packets counted, 6640 bytes received and no loss.\<close>

theorem probing_end_to_end:
  assumes "send_probe_packets E n w = (Ok (), w')" and "nodes w n \<noteq> None"
    and "probe_track (node_at w n) = Some t" and "track_id (track_at w t) = tid"
    and "packets_received m = 0" "expected_packets m = 10"
  shows "\<exists>bs m'. sent_on tid (calls w') = sent_on tid (calls w) @ bs
      \<and> map length bs = [128, 128, 256, 256, 512, 512, 1024, 1024, 1400, 1400]
      \<and> packets_sent (metrics_at w' n) = packets_sent (metrics_at w n) + 10
      \<and> receive_all ts bs m = Metrics m' \<and> phase m' = PROBING_COMPLETE
      \<and> packets_received m' = 10 \<and> packet_loss_rate m' = 0
      \<and> bytes_received m' = bytes_received m + 6640"
proof -
  let ?w = "upd_node n (\<lambda>x. x\<lparr>network_quality :=
     (network_quality x)\<lparr>expected_packets := int total_packets\<rparr>\<rparr>) w"
  have tp: "total_packets = 10" by (simp add: total_packets_def packet_sizes_def)
  have l: "send_probe_loop E n tid [0..<10] ?w = (Ok (), w')"
    using assms(1,3,4) by (simp add: send_probe_packets_def tp Let_def del: upt_rec_numeral split: if_splits)
  have nd: "nodes ?w n \<noteq> None" "packets_sent (metrics_at ?w n) = packets_sent (metrics_at w n)"
    using assms(2) by (auto simp: node_at_def)
  from send_probe_loop_sends [OF l nd(1)] obtain ph bs where
    bs: "sent_on tid (calls w') = sent_on tid (calls w) @ bs" "list_all2 (is_probe ph) [0..<10] bs"
      "packets_sent (metrics_at w' n) = packets_sent (metrics_at w n) + 10"
    unfolding nd(2) by (auto simp del: upt_rec_numeral)
  have len: "map length bs = map (\<lambda>i. 32 + payload_length i) [0..<10]"
    using bs(2) by (induction rule: list_all2_induct) (simp_all add: is_probe_length)
  then have lens: "map length bs = [128, 128, 256, 256, 512, 512, 1024, 1024, 1400, 1400]"
    unfolding probe_lengths .
  have n: "length bs = 10" using arg_cong [OF lens, of length] by simp
  then have ne: "bs \<noteq> []" by auto
  have i: "\<forall>i \<in> set [0..<10]. i < (10 :: nat)" by simp
  from receive_probes [OF bs(2) i ne, of ts m] assms(5,6) n lens obtain m' where
    "receive_all ts bs m = Metrics m'" "packets_received m' = 10" "phase m' = PROBING_COMPLETE"
      "packet_loss_rate m' = 0" "bytes_received m' = bytes_received m + 6640"
    by auto
  with bs(1,3) lens show ?thesis
    by (intro exI [of _ bs] exI [of _ m'] conjI) simp_all
qed

definition probe_world :: world where
  "probe_world = empty_world\<lparr>nodes := [1 \<mapsto> zero_node\<lparr>probe_track := Some 2\<rparr>],
     tracks := [2 \<mapsto> zero_track\<lparr>track_id := 4\<rparr>]\<rparr>"

lemma send_probe_loop_ok:
  "(\<And>past c. fst (E past c) = 0) \<Longrightarrow> fst (send_probe_loop E n tid is w) = Ok ()"
proof (induction "is" arbitrary: w)
  case (Cons i rest)
  have "fst (send_probe_packet E n tid i w)"
    by (simp add: send_probe_packet_def Let_def case_prod_beta) (simp add: ext_int_def Cons.prems)
  with Cons.IH [OF Cons.prems] show ?case
    by (cases "send_probe_packet E n tid i w") auto
qed simp

theorem probing_end_to_end_witness:
  "\<exists>bs m'. sent_on 4 (calls (snd (send_probe_packets (\<lambda>_ _. (0, [])) 1 probe_world))) = bs
      \<and> map length bs = [128, 128, 256, 256, 512, 512, 1024, 1024, 1400, 1400]
      \<and> receive_all [] bs (zero_metrics\<lparr>expected_packets := 10\<rparr>) = Metrics m'
      \<and> phase m' = PROBING_COMPLETE"
proof -
  have "send_probe_packets (\<lambda>_ _. (0, [])) 1 probe_world
      = (Ok (), snd (send_probe_packets (\<lambda>_ _. (0, [])) 1 probe_world))"
    by (rule prod_eqI)
      (simp_all add: send_probe_packets_def probe_world_def node_at_def track_at_def Let_def send_probe_loop_ok
        empty_world_def)
  from probing_end_to_end [OF this, of 2 4 "zero_metrics\<lparr>expected_packets := 10\<rparr>" "[]"]
  show ?thesis
    by (auto simp: probe_world_def empty_world_def node_at_def track_at_def zero_metrics_def)
qed

text \<open>A probe packet damaged in a single payload byte makes the receiver abort: the CRC
  detects every such change, and the reaction to a mismatch is \<open>abort()\<close>.\<close>

theorem corrupted_probe_aborts:
  assumes "length pl \<le> 1468" and "i < length pl" and "pl ! i \<noteq> b"
  shows "handle_probe_packet now al m ((probe_packet sn time ph pl)[32 + i := b]) (int (32 + length pl)) = Aborted"
proof -
  have "(probe_packet sn time ph pl)[32 + i := b] = header_bytes (probe_header sn time ph pl) @ pl[i := b]"
    by (simp add: probe_packet_header list_update_append)
  moreover have "ieee_crc 0 (pl[i := b]) \<noteq> ieee_crc 0 pl"
    unfolding ieee_crc_def by (rule ieee_detects_byte [OF assms(2,3)])
  ultimately show ?thesis
    using handle_packet_payload [OF assms(1), of "pl[i := b]" now al m "probe_header sn time ph pl"]
    by (simp add: probe_header_def)
qed

theorem corrupted_probe_aborts_witness:
  "handle_probe_packet 0 0 zero_metrics ((probe_packet 0 0 0 [1, 2, 3])[33 := 7]) 35 = Aborted"
  using corrupted_probe_aborts [of "[1, 2, 3]" 1 7 0 0 zero_metrics 0 0 0] by simp

text \<open>Consistent statistics.\<close>

definition metrics_ok :: "NetworkQualityMetrics \<Rightarrow> bool" where
  "metrics_ok m \<longleftrightarrow> 0 \<le> packets_received m \<and> rtt_count m = packets_received m
     \<and> (0 < packets_received m \<longrightarrow> (\<exists>lo. min_rtt m = Some lo
          \<and> lo * of_int (rtt_count m) \<le> rtt_sum m \<and> rtt_sum m \<le> max_rtt m * of_int (rtt_count m)))
     \<and> (packets_received m = 0 \<longrightarrow> rtt_sum m = 0)
     \<and> (0 < expected_packets m \<and> expected_packets m \<le> packets_received m \<longrightarrow> phase m = PROBING_COMPLETE)"

lemma metrics_ok_update:
  assumes "metrics_ok m"
  shows "metrics_ok (update_metrics now h m)"
proof -
  define rtt :: rat where "rtt = of_int (now - sint (send_time h)) / 1000"
  define k where "k = packets_received m"
  define m' where "m' = update_metrics now h m"
  have k: "0 \<le> k" "rtt_count m = k" using assms by (auto simp: metrics_ok_def k_def)
  have c: "packets_received m' = k + 1" "rtt_count m' = k + 1"
    using k by (simp_all add: m'_def update_metrics_counts k_def)
  have sum: "rtt_sum m' = rtt_sum m + rtt"
    by (simp add: m'_def update_metrics_def Let_def rtt_def)
  have "\<exists>lo. min_rtt m' = Some lo \<and> lo * of_int (k + 1) \<le> rtt_sum m' \<and> rtt_sum m' \<le> max_rtt m' * of_int (k + 1)"
  proof (cases "k = 0")
    case True
    then have "min_rtt m' = Some rtt" "max_rtt m' = rtt" "rtt_sum m = 0"
      using assms k by (simp_all add: m'_def update_metrics_def Let_def rtt_def metrics_ok_def k_def)
    with True sum show ?thesis by simp
  next
    case False
    with assms k obtain lo where lo: "min_rtt m = Some lo" "lo * of_int k \<le> rtt_sum m"
        "rtt_sum m \<le> max_rtt m * of_int k"
      by (auto simp: metrics_ok_def k_def)
    have mm: "min_rtt m' = Some (min lo rtt)" "max_rtt m' = max (max_rtt m) rtt"
      using False lo(1) k by (auto simp: m'_def update_metrics_def Let_def rtt_def)
    have "min lo rtt * of_int k \<le> lo * of_int k" "max_rtt m * of_int k \<le> max (max_rtt m) rtt * of_int k"
      using k(1) by (simp_all add: mult_right_mono)
    with lo mm sum show ?thesis by (simp add: algebra_simps) linarith
  qed
  then have "\<exists>lo. min_rtt m' = Some lo \<and> lo * of_int (rtt_count m') \<le> rtt_sum m'
      \<and> rtt_sum m' \<le> max_rtt m' * of_int (rtt_count m')"
    by (simp only: c)
  then show ?thesis
    using k c unfolding metrics_ok_def m'_def [symmetric]
    by (simp add: m'_def update_metrics_counts k_def)
qed



lemma clip_bounds: "0 \<le> hi \<Longrightarrow> 0 \<le> clip_double v 0 hi \<and> clip_double v 0 hi \<le> hi"
  by (simp add: clip_double_def)

lemma clip_25: "0 \<le> clip_double v 0 25" "clip_double v 0 25 \<le> 25"
  using clip_bounds [of 25 v] by simp_all

lemma node_score_range:
  "0 \<le> fst (calculate_node_score d) \<and> fst (calculate_node_score d) \<le> 100"
proof -
  have "0 \<le> clip_double a 0 25 + clip_double b 0 25 + clip_double c 0 25 + clip_double e 0 25
      \<and> clip_double a 0 25 + clip_double b 0 25 + clip_double c 0 25 + clip_double e 0 25 \<le> 100" for a b c e
    using clip_25 [of a] clip_25 [of b] clip_25 [of c] clip_25 [of e] by linarith
  then show ?thesis by (simp add: calculate_node_score_def Let_def)
qed

text \<open>A node score lies between 0 and 100; a node that received nothing scores 0 and keeps
  its recorded score, any other node has the new score recorded and nothing else changed.\<close>

theorem node_score_bounds:
  "0 \<le> fst (calculate_node_score d) \<and> fst (calculate_node_score d) \<le> 100
   \<and> snd (calculate_node_score d) = (if packets_received d = 0 then d
        else d\<lparr>final_score := fst (calculate_node_score d)\<rparr>)"
  using node_score_range [of d] by (simp add: calculate_node_score_def Let_def)

text \<open>The score of a node does not depend on the recorded scores.\<close>

definition score_of :: "'a world_scheme \<Rightarrow> addr \<Rightarrow> rat" where
  "score_of w n = fst (calculate_node_score (metrics_at w n))"

lemma score_of_scored:
  "score_of (upd_node n (\<lambda>x. x\<lparr>network_quality := snd (calculate_node_score (metrics_at w n))\<rparr>) w) = score_of w"
proof
  fix m
  have f: "fst (calculate_node_score (d\<lparr>final_score := s\<rparr>)) = fst (calculate_node_score d)" for d s
    by (simp add: calculate_node_score_def Let_def)
  have "metrics_at (upd_node n (\<lambda>x. x\<lparr>network_quality := snd (calculate_node_score (metrics_at w n))\<rparr>) w) m
      = metrics_at w m \<or> (\<exists>s. metrics_at (upd_node n (\<lambda>x. x\<lparr>network_quality := snd (calculate_node_score (metrics_at w n))\<rparr>) w) m
           = (metrics_at w m)\<lparr>final_score := s\<rparr>)"
    by (auto simp: node_at_def calculate_node_score_def Let_def split: option.split)
  then show "score_of (upd_node n (\<lambda>x. x\<lparr>network_quality := snd (calculate_node_score (metrics_at w n))\<rparr>) w) m = score_of w m"
    using f by (auto simp: score_of_def)
qed

text \<open>What the loop returns, with \<open>sc\<close> the scores: the first of the nodes with the greatest score
  above the given one.\<close>

fun first_best :: "(addr \<Rightarrow> rat) \<Rightarrow> addr list \<Rightarrow> addr option \<Rightarrow> rat \<Rightarrow> addr option" where
  "first_best sc [] b s = b"
| "first_best sc (n # ns) b s =
     (if sc n > s then first_best sc ns (Some n) (sc n) else first_best sc ns b s)"

lemma select_loop_first_best:
  "fst (select_loop ns b s w) = first_best (score_of w) ns b s"
proof (induction ns arbitrary: b s w)
  case (Cons n ns)
  let ?w = "upd_node n (\<lambda>x. x\<lparr>network_quality := snd (calculate_node_score (metrics_at w n))\<rparr>) w"
  have "score_of ?w = score_of w" by (rule score_of_scored)
  then show ?case
    by (simp add: Let_def case_prod_beta Cons.IH score_of_def [of w n, symmetric])
qed simp

lemma first_best_props:
  "(first_best sc ns b s = b \<and> (\<forall>n \<in> set ns. sc n \<le> s))
   \<or> (\<exists>n. first_best sc ns b s = Some n \<and> n \<in> set ns \<and> sc n > s \<and> (\<forall>m \<in> set ns. sc m \<le> sc n))"
proof (induction ns arbitrary: b s)
  case (Cons a ns)
  show ?case
  proof (cases "sc a > s")
    case True
    from Cons.IH [of "Some a" "sc a"] True show ?thesis by (auto intro: less_trans order.strict_implies_order)
  next
    case False
    from Cons.IH [of b s] False show ?thesis by (auto simp: not_less intro: order.trans less_imp_le)
  qed
qed simp

text \<open>The selected node is one of the cached nodes with the greatest score, and that score is
  positive; no node is selected exactly when every cached node scores 0.\<close>

theorem selected_node_is_best:
  "(case fst (select_best_node w) of
      None \<Rightarrow> \<forall>n \<in> set (peer_connection_node_caches w). score_of w n = 0
    | Some b \<Rightarrow> b \<in> set (peer_connection_node_caches w) \<and> 0 < score_of w b
        \<and> (\<forall>n \<in> set (peer_connection_node_caches w). score_of w n \<le> score_of w b))"
proof -
  have nonneg: "0 \<le> score_of w n" for n using node_score_range by (simp add: score_of_def)
  show ?thesis
    using first_best_props [of "score_of w" "peer_connection_node_caches w" None 0] nonneg
    by (auto simp: select_best_node_def select_loop_first_best intro!: order.antisym)
qed

definition scored_world :: world where
  "scored_world = empty_world\<lparr>peer_connection_node_caches := [1],
     nodes := [1 \<mapsto> zero_node\<lparr>network_quality := zero_metrics\<lparr>packets_received := 1, rtt_count := 1\<rparr>\<rparr>]\<rparr>"

theorem selected_node_is_best_witness: "fst (select_best_node scored_world) = Some 1"
proof -
  have c: "peer_connection_node_caches scored_world = [1]"
    and s: "score_of scored_world 1 \<noteq> 0"
    by (simp_all add: scored_world_def empty_world_def score_of_def node_at_def zero_node_def zero_metrics_def
        calculate_node_score_def clip_double_def Let_def MIN_BANDWIDTH_KBPS_def MAX_RTT_MS_def MAX_PACKET_LOSS_def)
  show ?thesis
    using selected_node_is_best [of scored_world] c s by (simp split: option.splits)
qed

end
