(* ===== verification/PeerConn.thy ===== *)
theory PeerConn
  imports Probe
begin

text \<open>
  Peer connections, \<^verbatim>\<open>libavformat/p2p_pc.c\<close>, and the signalling socket,
  \<^verbatim>\<open>libavformat/p2p_ws.c\<close>: creation and registration of the libdatachannel callbacks, the
  callbacks themselves, and the start of the signalling client.
\<close>

section \<open>The signalling socket\<close>

definition WS_URL_SIZE :: nat where "WS_URL_SIZE = 256"

definition ws_handlers :: "handler list" where
  "ws_handlers = [On_ws_open, On_ws_error, On_ws_close, On_ws_message]"

text \<open>\<open>snprintf\<close> prints a NULL id as \<open>(null)\<close> and cuts the text to the buffer.\<close>

definition init_ws_resource :: "ext \<Rightarrow> string option \<Rightarrow> string option \<Rightarrow> 'a world_scheme
    \<Rightarrow> unit res \<times> 'a world_scheme" where
  "init_ws_resource E address port w =
     (case (address, port) of
        (Some a, Some p) \<Rightarrow>
          let url = take (WS_URL_SIZE - 1) (''ws://'' @ a @ '':'' @ p @ ''/''
                @ (case local_id w of None \<Rightarrow> ''(null)'' | Some l \<Rightarrow> l));
              (ws, w) = ext_int E (RtcCreateWebSocket url) w;
              w = w\<lparr>web_socket := ws, web_socket_server := Some (a, p), web_socket_connected := 0\<rparr>;
              w = ext_do (RtcSetUserPointer ws) w
          in (Ok (), w\<lparr>calls := calls w @ map (\<lambda>h. RtcSetCallback h ws) ws_handlers\<rparr>)
      | _ \<Rightarrow> (Err AVERROR_INVALIDDATA, w))"

definition on_ws_open_callback :: "'a world_scheme \<Rightarrow> 'a world_scheme" where
  "on_ws_open_callback w = w\<lparr>web_socket_connected := 1\<rparr>"

definition on_ws_close_callback :: "'a world_scheme \<Rightarrow> 'a world_scheme" where
  "on_ws_close_callback w = w\<lparr>web_socket_connected := 0\<rparr>"

definition on_ws_error_callback :: "'a world_scheme \<Rightarrow> 'a world_scheme" where
  "on_ws_error_callback w = ext_do Assert_fail (w\<lparr>web_socket_connected := 0\<rparr>)"

definition on_ws_message_callback ::
    "(string \<Rightarrow> json option) \<Rightarrow> (P2PSignalMessage \<Rightarrow> 'a world_scheme \<Rightarrow> int res \<times> 'a world_scheme)
       \<Rightarrow> string \<Rightarrow> 'a world_scheme \<Rightarrow> 'a world_scheme" where
  "on_ws_message_callback ps on_ws_messaged message w =
     snd (p2p_handle_signal_message ps on_ws_messaged (Some message) w)"

text \<open>
  The start of the client ends with a wait for the socket, one sleep per round. What the
  socket's thread does during the \<open>k\<close>-th sleep is \<open>env k\<close>; a wait that has not ended after
  the given number of rounds is \<open>None\<close>.
\<close>

fun ws_wait :: "nat \<Rightarrow> (nat \<Rightarrow> 'a world_scheme \<Rightarrow> 'a world_scheme) \<Rightarrow> nat \<Rightarrow> 'a world_scheme
    \<Rightarrow> 'a world_scheme option" where
  "ws_wait 0 env k w = None"
| "ws_wait (Suc fuel) env k w =
     (if web_socket_connected w = 0 then ws_wait fuel env (Suc k) (env k (ext_do (Av_usleep 1000) w))
      else Some w)"

definition p2p_init_signal_server :: "nat \<Rightarrow> ext \<Rightarrow> (nat \<Rightarrow> 'a world_scheme \<Rightarrow> 'a world_scheme)
    \<Rightarrow> 'a world_scheme \<Rightarrow> (int \<times> 'a world_scheme) option" where
  "p2p_init_signal_server fuel E env w =
     (let w = w\<lparr>config := [''stun:stun.l.google.com:19302'']\<rparr>;
          w = snd (init_ws_resource E (Some ''127.0.0.1'') (Some ''8000'') w)
      in map_option (Pair 0) (ws_wait fuel env 0 w))"

section \<open>Creating a peer connection\<close>

definition create_peer_connection :: "ext \<Rightarrow> string option \<Rightarrow> 'a world_scheme
    \<Rightarrow> unit res \<times> 'a world_scheme" where
  "create_peer_connection E rid w =
     (let (pc, w) = ext_int E RtcCreatePeerConnection w
      in if pc \<le> 0 then (Err AVERROR_EXTERNAL, ext_do (RtcDeletePeerConnection pc) w)
      else let (a, w) = alloc_node E w
      in case a of
           None \<Rightarrow> (Err ENOMEM, ext_do (RtcDeletePeerConnection pc) w)
         | Some n \<Rightarrow>
             let w = upd_node n (\<lambda>x. x\<lparr>status := Disconnected, pc_id := pc, remote_id := rid\<rparr>) w
             in (Ok (), append_node n w))"

definition pc_handlers :: "handler list" where
  "pc_handlers = [On_pc_local_description, On_pc_local_candidate, On_pc_state_change,
     On_pc_ice_state_change, On_pc_gathering_state, On_pc_signaling_state, On_pc_data_channel,
     On_pc_track]"

definition init_peer_connection :: "ext \<Rightarrow> int \<Rightarrow> 'a world_scheme \<Rightarrow> unit res \<times> 'a world_scheme" where
  "init_peer_connection E pc w =
     (let w = ext_do (RtcSetUserPointer pc) w;
          (ok, w) = set_callbacks E pc_handlers pc w
      in if ok then (Ok (), w) else (Err AVERROR_EXTERNAL, ext_do (RtcDeletePeerConnection pc) w))"

text \<open>The description is fetched into a zeroed buffer, whatever the call returns.\<close>

definition send_local_description :: "ext \<Rightarrow> (json \<Rightarrow> string) \<Rightarrow> addr \<Rightarrow> string \<Rightarrow> 'a world_scheme
    \<Rightarrow> int res \<times> 'a world_scheme" where
  "send_local_description E pr n role w =
     (let w = ext_do (RtcSetLocalDescription (pc_id (node_at w n)) role) w;
          msg = p2p_create_signal_message (if role = ''offer'' then P2P_MSG_OFFER else P2P_MSG_ANSWER)
             (local_id w) (remote_id (node_at w n));
          ((_, sdp), w) = ext_call E (RtcGetLocalDescription (pc_id (node_at w n))) w
      in p2p_send_signal_message E pr (Some (msg\<lparr>payload := P_description (Some sdp)\<rparr>)) w)"

section \<open>Media lines of a description\<close>

record MediaCountInfo =
  total :: int
  video :: int
  audio :: int
  application :: int

definition zero_counts :: MediaCountInfo where
  "zero_counts = \<lparr>total = 0, video = 0, audio = 0, application = 0\<rparr>"

definition expected_media :: "PeerConnectionTrackType list \<Rightarrow> MediaCountInfo" where
  "expected_media ts = foldl (\<lambda>c t.
     let c = (case t of
           TrackType_ProbeChannel \<Rightarrow> c\<lparr>application := application c + 1\<rparr>
         | TrackType_Video \<Rightarrow> c\<lparr>video := video c + 1\<rparr>
         | TrackType_Audio \<Rightarrow> c\<lparr>audio := audio c + 1\<rparr>
         | _ \<Rightarrow> c)
     in c\<lparr>total := total c + 1\<rparr>) zero_counts ts"

definition is_space :: "char \<Rightarrow> bool" where
  "is_space c \<longleftrightarrow> (of_char c :: nat) \<in> {9, 10, 11, 12, 13, 32}"

text \<open>\<open>sscanf(line, "m=%31s", media_type)\<close>, on a line that starts with \<open>m=\<close>.\<close>

definition scan_media :: "string \<Rightarrow> string" where
  "scan_media line = take 31 (takeWhile (\<lambda>c. \<not> is_space c) (dropWhile is_space (drop 2 line)))"

definition count_media :: "string \<Rightarrow> MediaCountInfo \<Rightarrow> MediaCountInfo" where
  "count_media ty c =
     (if ty = [] then c
      else let c = (if take 5 ty = ''video'' then c\<lparr>video := video c + 1\<rparr>
             else if take 5 ty = ''audio'' then c\<lparr>audio := audio c + 1\<rparr>
             else if take 11 ty = ''application'' then c\<lparr>application := application c + 1\<rparr>
             else c)
      in c\<lparr>total := total c + 1\<rparr>)"

lemma strstr_length: "strstr s p = Some t \<Longrightarrow> length t \<le> length s \<and> take (length p) t = p"
  by (induction s) (subst (asm) strstr.simps, force split: if_splits)+

function actual_media :: "string \<Rightarrow> MediaCountInfo \<Rightarrow> MediaCountInfo" where
  "actual_media line c =
     (case strstr line ''m='' of None \<Rightarrow> c
      | Some l \<Rightarrow> actual_media (drop 2 l) (count_media (scan_media l) c))"
  by pat_completeness auto
termination
  by (relation "measure (\<lambda>(line, c). length line)") (auto dest!: strstr_length, (case_tac x2; force)+)

section \<open>Callbacks of the connection\<close>

text \<open>The local description is not sent from its callback: it returns at once.\<close>

definition on_pc_local_description_callback :: "addr \<Rightarrow> 'a world_scheme \<Rightarrow> 'a world_scheme" where
  "on_pc_local_description_callback n w = w"

definition on_pc_local_candidate_callback :: "ext \<Rightarrow> (json \<Rightarrow> string) \<Rightarrow> string \<Rightarrow> string \<Rightarrow> addr
    \<Rightarrow> 'a world_scheme \<Rightarrow> 'a world_scheme" where
  "on_pc_local_candidate_callback E pr cand mid n w =
     snd (p2p_send_signal_message E pr (Some ((p2p_create_signal_message P2P_MSG_CANDIDATE
        (local_id w) (remote_id (node_at w n)))\<lparr>payload := P_candidate (Some cand) (Some mid)\<rparr>)) w)"

text \<open>\<open>on_connected\<close> is \<open>on_pc_connected\<close> of the installed handlers, if there is one.\<close>

definition on_pc_state_change_callback :: "(addr \<Rightarrow> 'a world_scheme \<Rightarrow> 'a world_scheme) option
    \<Rightarrow> rtcState \<Rightarrow> addr \<Rightarrow> 'a world_scheme \<Rightarrow> 'a world_scheme" where
  "on_pc_state_change_callback on_connected s n w =
     (let set_status = (\<lambda>st. upd_node n (\<lambda>x. x\<lparr>status := st\<rparr>) w)
      in case s of
           RTC_NEW \<Rightarrow> set_status Disconnected
         | RTC_CONNECTING \<Rightarrow> set_status Connecting
         | RTC_CONNECTED \<Rightarrow>
             let w = set_status Connected
             in if signal_callbacks w
                then (case on_connected of None \<Rightarrow> w | Some f \<Rightarrow> f n w) else w
         | RTC_DISCONNECTED \<Rightarrow> set_status Disconnected
         | RTC_FAILED \<Rightarrow> set_status Failed
         | RTC_CLOSED \<Rightarrow> set_status Closed
         | RTC_STATE_OTHER _ \<Rightarrow> set_status Disconnected)"

definition ice_score :: "rtcIceState \<Rightarrow> int" where
  "ice_score s =
     (case s of RTC_ICE_NEW \<Rightarrow> 0 | RTC_ICE_CHECKING \<Rightarrow> 25 | RTC_ICE_CONNECTED \<Rightarrow> 75
      | RTC_ICE_COMPLETED \<Rightarrow> 100 | RTC_ICE_FAILED \<Rightarrow> 0 | RTC_ICE_DISCONNECTED \<Rightarrow> 10
      | RTC_ICE_CLOSED \<Rightarrow> 0 | RTC_ICE_OTHER _ \<Rightarrow> 0)"

definition on_pc_ice_state_change_callback :: "rtcIceState \<Rightarrow> addr \<Rightarrow> 'a world_scheme
    \<Rightarrow> 'a world_scheme" where
  "on_pc_ice_state_change_callback s n w =
     upd_node n (\<lambda>x. x\<lparr>network_quality := (network_quality x)\<lparr>ice_connectivity_score := ice_score s\<rparr>\<rparr>) w"

text \<open>A new data channel; a failed allocation is dereferenced, which ends the process.\<close>

definition on_pc_data_channel_callback :: "ext \<Rightarrow> int \<Rightarrow> addr \<Rightarrow> 'a world_scheme \<Rightarrow> 'a world_scheme" where
  "on_pc_data_channel_callback E dc n w =
     (case find_track n dc w of Some _ \<Rightarrow> w
      | None \<Rightarrow>
          let (a, w) = alloc_track E w
          in case a of None \<Rightarrow> ext_do Abort w
             | Some t \<Rightarrow> snd (setup_track_common_logic E n t dc (- 1) TrackType_ProbeChannel w))"

section \<open>Received tracks\<close>

definition has :: "string \<Rightarrow> string \<Rightarrow> bool" where
  "has s needle \<longleftrightarrow> strstr s needle \<noteq> None"

definition recv_video_codec :: "string \<Rightarrow> AVCodecID" where
  "recv_video_codec codec =
     (if has codec ''h264'' then CODEC_H264
      else if has codec ''h265'' \<or> has codec ''hevc'' then CODEC_HEVC
      else if has codec ''vp8'' then CODEC_VP8
      else if has codec ''vp9'' then CODEC_VP9
      else CODEC_H264)"

definition recv_audio_codec :: "string \<Rightarrow> AVCodecID" where
  "recv_audio_codec codec =
     (if has codec ''opus'' then CODEC_OPUS
      else if has codec ''aac'' then CODEC_AAC
      else if has codec ''pcm'' then CODEC_PCM_S16LE
      else CODEC_OPUS)"

text \<open>
  A new track of a kind: its stream, its RTP context, and on a failure there the track is
  freed. \<open>None\<close> is the early return; otherwise the track is stored in the node by the caller.
\<close>

definition new_recv_track :: "ext \<Rightarrow> AVStream \<Rightarrow> PeerConnectionTrackType \<Rightarrow> int \<Rightarrow> addr \<Rightarrow> 'a world_scheme
    \<Rightarrow> addr option \<times> 'a world_scheme" where
  "new_recv_track E st ty tr n w =
     (let (a, w) = alloc_track E w
      in case a of None \<Rightarrow> (None, w)
      | Some t \<Rightarrow>
          let w = upd_track t (\<lambda>x. x\<lparr>track_type := ty, track_id := tr\<rparr>) w;
              (ret, w) = ext_int E Avformat_new_stream w
          in if ret = 0 then (Some t, w)
             else let si = length (streams w);
                      w = w\<lparr>streams := streams w @ [st]\<rparr>;
                      w = (if ty = TrackType_Audio then upd_track t (\<lambda>x. x\<lparr>stream_index := int si\<rparr>) w else w);
                      (r, w) = init_recv_track_ex E si n t ty tr w
             in (case r of Inl e \<Rightarrow> (None, free_track t w) | Inr _ \<Rightarrow> (Some t, w)))"

text \<open>
  \<open>rtcGetTrackPayloadTypesForCodec\<close> takes the codec name as an input, so the buffer \<open>codec\<close>
  stays empty. \<open>strcmp\<close> is true where the strings differ. The value of
  \<open>RTC_DIRECTION_SENDONLY\<close> is 1.
\<close>

definition on_pc_track_callback :: "ext \<Rightarrow> int \<Rightarrow> addr \<Rightarrow> 'a world_scheme \<Rightarrow> 'a world_scheme" where
  "on_pc_track_callback E tr n w =
     (let (direct, w) = ext_int E (RtcGetTrackDirection tr) w
      in if direct = 1 then w
      else let ((_, sdp), w) = ext_call E (RtcGetTrackDescription tr) w;
               codec = [];
               w = ext_do (RtcGetTrackPayloadTypesForCodec tr) w
      in if sdp \<noteq> ''m=video'' \<or> has codec ''h264'' \<or> has codec ''h265'' \<or> has codec ''vp8''
            \<or> has codec ''vp9''
         then (if video_track (node_at w n) = None then
             (case new_recv_track E (zero_stream\<lparr>codec_type := AVMEDIA_TYPE_VIDEO,
                      codec_id := recv_video_codec codec\<rparr>) TrackType_Video tr n w of
                (None, w) \<Rightarrow> w
              | (Some t, w) \<Rightarrow> upd_node n (\<lambda>x. x\<lparr>video_track := Some t\<rparr>) w)
             else w)
         else if sdp \<noteq> ''m=audio'' \<or> has codec ''opus'' \<or> has codec ''aac'' \<or> has codec ''pcm''
         then (if audio_track (node_at w n) = None then
             (case new_recv_track E (zero_stream\<lparr>codec_type := AVMEDIA_TYPE_AUDIO,
                      codec_id := recv_audio_codec codec\<rparr>) TrackType_Audio tr n w of
                (None, w) \<Rightarrow> w
              | (Some t, w) \<Rightarrow> upd_node n (\<lambda>x. x\<lparr>audio_track := Some t\<rparr>) w)
             else w)
         else (let (a, w) = alloc_track E w
               in case a of None \<Rightarrow> w
                  | Some t \<Rightarrow> append_track n t
                      (upd_track t (\<lambda>x. x\<lparr>track_id := tr, track_type := TrackType_Unknown\<rparr>) w)))"

declare actual_media.simps [simp del]

section \<open>Properties\<close>

lemma find_last:
  "(\<forall>x \<in> set xs. \<not> P x) \<Longrightarrow> P y \<Longrightarrow> find P (xs @ [y]) = Some y"
  by (simp add: find_append find_none)

text \<open>No two cached nodes have the same remote id.\<close>

definition remote_ids_distinct :: "'a world_scheme \<Rightarrow> bool" where
  "remote_ids_distinct w \<longleftrightarrow>
     distinct (map (\<lambda>n. remote_id (node_at w n)) (peer_connection_node_caches w))"

lemma node_at_free: "x \<noteq> u \<Longrightarrow> node_at (free_node u w) x = node_at w x"
  by (simp add: node_at_def free_node_def)

text \<open>A node that is appended is found under its id, in the place of one that had the id before.\<close>

lemma append_node_found:
  assumes "remote_id (node_at v a) = Some rid" "a \<notin> set (peer_connection_node_caches v)"
    and "distinct (map (\<lambda>n. remote_id (node_at v n)) (peer_connection_node_caches v))"
  shows "find_node (Some rid) (append_node a v) = Some a \<and> node_at (append_node a v) a = node_at v a"
proof (cases "find_node (Some rid) v")
  case None
  have c: "peer_connection_node_caches (append_node a v) = peer_connection_node_caches v @ [a]"
    "nodes (append_node a v) = nodes v"
    by (simp_all add: append_node_def assms(1) None Let_def)
  then have "node_at (append_node a v) = node_at v" by (simp add: node_at_def fun_eq_iff)
  then show ?thesis using None assms(1) by (simp add: find_node_def c find_append)
next
  case (Some u)
  let ?P = "\<lambda>n. remote_id (node_at v n) = Some rid" and ?w = "append_node a v"
  let ?l = "remove_first ?P (peer_connection_node_caches v)"
  have ua: "u \<noteq> a" using find_set [of ?P "peer_connection_node_caches v" u] Some assms(2) by (auto simp: find_node_def)
  have c: "peer_connection_node_caches ?w = ?l @ [a]" "nodes ?w = (nodes v)(u := None)"
    by (simp_all add: append_node_def assms(1) Some Let_def free_node_def)
  have at: "node_at ?w n = (if n = u then zero_node else node_at v n)" for n
    by (simp add: node_at_def c)
  have np: "\<not> ?P n" if "n \<in> set ?l" for n using that by (rule remove_first_key [OF assms(3)])
  have "remote_id (node_at ?w n) \<noteq> Some rid" if "n \<in> set ?l" for n
    using np [OF that] by (cases "n = u") (simp_all only: at if_True if_False, simp_all add: zero_node_def)
  then have "find_node (Some rid) ?w = Some a" using ua assms(1) by (simp add: find_node_def c find_last at)
  then show ?thesis using ua by (simp add: at)
qed

lemma next_addr_fresh: "world_wf w \<Longrightarrow> nodes w (next_addr w) = None"
proof (rule ccontr)
  assume "world_wf w" "nodes w (next_addr w) \<noteq> None"
  moreover from this have "caches_of w (next_addr w) \<noteq> None" by (simp add: caches_of_def)
  ultimately show False by (auto simp: world_wf_def)
qed



text \<open>Initialising a connection registers the eight callbacks of a peer connection on it, in
  the order of the code and nothing else; when one registration fails, the connection is deleted.\<close>

theorem init_peer_connection_registers:
  "case init_peer_connection E pc w of
      (Inr _, w') \<Rightarrow> calls w' = calls w @ RtcSetUserPointer pc #
          map (\<lambda>h. RtcSetCallback h pc)
            [On_pc_local_description, On_pc_local_candidate, On_pc_state_change,
             On_pc_ice_state_change, On_pc_gathering_state, On_pc_signaling_state,
             On_pc_data_channel, On_pc_track]
    | (Inl e, w') \<Rightarrow> e = AVERROR_EXTERNAL \<and> last (calls w') = RtcDeletePeerConnection pc"
proof (cases "set_callbacks E pc_handlers pc (ext_do (RtcSetUserPointer pc) w)")
  case (Pair ok w')
  show ?thesis
  proof (cases ok)
    case True
    with Pair have s: "set_callbacks E pc_handlers pc (ext_do (RtcSetUserPointer pc) w) = (True, w')"
      by simp
    from set_callbacks_calls [OF s] show ?thesis
      by (simp add: init_peer_connection_def Let_def s) (simp add: pc_handlers_def)
  next
    case False
    with Pair show ?thesis by (simp add: init_peer_connection_def Let_def)
  qed
qed

text \<open>The status of a node follows the reported connection state, every other node keeps
  its own, and the application is told of a connection exactly when the reported state is
  connected and handlers are installed.\<close>

theorem state_change_status:
  fixes s :: rtcState
  assumes "nodes w n \<noteq> None"
  defines "v \<equiv> on_pc_state_change_callback None s n w"
  shows "status (node_at v n) = (case s of RTC_CONNECTING \<Rightarrow> Connecting | RTC_CONNECTED \<Rightarrow> Connected
            | RTC_FAILED \<Rightarrow> Failed | RTC_CLOSED \<Rightarrow> Closed | _ \<Rightarrow> Disconnected)
       \<and> (\<forall>m. m \<noteq> n \<longrightarrow> node_at v m = node_at w m)
       \<and> on_pc_state_change_callback (Some f) s n w
           = (if s = RTC_CONNECTED \<and> signal_callbacks w then f n v else v)"
  using assms(1) unfolding v_def
  by (cases s) (auto simp: on_pc_state_change_callback_def Let_def node_at_upd_node)

theorem state_change_status_witness:
  "status (node_at (on_pc_state_change_callback None RTC_FAILED 1 example_node_world) 1) = Failed"
  using state_change_status [of example_node_world 1 RTC_FAILED "\<lambda>_ w. w"]
  by (simp add: example_node_world_def)

lemma has_Nil [simp]: "has [] (c # cs) = False"
  by (simp add: has_def strstr_Nil)

lemma fail_track_frame [simp]:
  "node_at (fail_track t w) = node_at w" "streams (fail_track t w) = streams w"
  by (simp_all add: fail_track_def Let_def split: option.split)

lemma init_urlcontext_frame [simp]:
  "node_at (snd (p2p_rtp_init_urlcontext E t w)) = node_at w"
  "streams (snd (p2p_rtp_init_urlcontext E t w)) = streams w"
  by (simp_all add: p2p_rtp_init_urlcontext_def Let_def case_prod_beta)

lemma recv_track_steps_frame:
  "video_track (node_at (snd (recv_track_steps E si n t ty tid w)) m) = video_track (node_at w m)"
  "audio_track (node_at (snd (recv_track_steps E si n t ty tid w)) m) = audio_track (node_at w m)"
  "streams (snd (recv_track_steps E si n t ty tid w)) = streams w"
  by (simp_all add: recv_track_steps_def Let_def case_prod_beta split: sum.split)

lemma init_recv_track_media [simp]:
  "video_track (node_at (snd (init_recv_track_ex E si n t ty tid w)) m) = video_track (node_at w m)"
  "audio_track (node_at (snd (init_recv_track_ex E si n t ty tid w)) m) = audio_track (node_at w m)"
  "streams (snd (init_recv_track_ex E si n t ty tid w)) = streams w"
  using recv_track_steps_frame [of E si n t ty tid w]
  by (auto simp: init_recv_track_ex_def split: prod.split sum.split)

lemma free_track_simps [simp]:
  "node_at (free_track t w) = node_at w" "streams (free_track t w) = streams w"
  "nodes (free_track t w) = nodes w"
  by (simp_all add: free_track_def node_at_def fun_eq_iff)

lemma streams_upd_node [simp]: "node_at (w\<lparr>streams := ss\<rparr>) = node_at w"
  by (simp add: node_at_def fun_eq_iff)

lemma alloc_track_frame:
  "node_at (snd (alloc_track E w)) = node_at w" "streams (snd (alloc_track E w)) = streams w"
  "fst (alloc_track E w) \<in> {None, Some (next_addr w)}"
  by (simp_all add: alloc_track_def Let_def case_prod_beta node_at_def fun_eq_iff)

lemma new_recv_track_media:
  "video_track (node_at (snd (new_recv_track E st ty tr n w)) m) = video_track (node_at w m)
   \<and> audio_track (node_at (snd (new_recv_track E st ty tr n w)) m) = audio_track (node_at w m)
   \<and> streams (snd (new_recv_track E st ty tr n w)) \<in> {streams w, streams w @ [st]}
   \<and> fst (new_recv_track E st ty tr n w) \<in> {None, Some (next_addr w)}"
proof (cases "alloc_track E w")
  case (Pair a v)
  have f: "node_at v = node_at w" "streams v = streams w" "a \<in> {None, Some (next_addr w)}"
    using alloc_track_frame [of E w] Pair by simp_all
  show ?thesis
    using f(3) by (cases a) (auto simp: new_recv_track_def Pair Let_def case_prod_beta f(1,2)
        split: sum.split)
qed

lemma upd_video_track:
  "video_track (node_at (upd_node n (\<lambda>x. x\<lparr>video_track := Some t\<rparr>) w) n)
     = (case nodes w n of None \<Rightarrow> None | Some _ \<Rightarrow> Some t)"
  "audio_track (node_at (upd_node n (\<lambda>x. x\<lparr>video_track := Some t\<rparr>) w) m) = audio_track (node_at w m)"
  by (simp_all add: node_at_def zero_node_def split: option.split)

text \<open>Whatever the description of a received track says, unless it is the bare text
  \<open>m=video\<close>, the track becomes the H264 video track of the node: the comparison of the
  description is inverted and the codec name is never filled in. The audio track stays unset.\<close>

theorem recv_track_is_video:
  assumes "nodes w n = Some nd" and "fst (E (calls w) (RtcGetTrackDirection tr)) \<noteq> 1"
    and "snd (E (calls w @ [RtcGetTrackDirection tr]) (RtcGetTrackDescription tr)) \<noteq> ''m=video''"
  defines "w' \<equiv> on_pc_track_callback E tr n w"
  shows "audio_track (node_at w' n) = audio_track nd
     \<and> (video_track nd = None \<longrightarrow> video_track (node_at w' n) \<in> {None, Some (next_addr w)})
     \<and> streams w' \<in> {streams w,
           streams w @ [zero_stream\<lparr>codec_type := AVMEDIA_TYPE_VIDEO, codec_id := CODEC_H264\<rparr>]}"
proof -
  let ?st = "zero_stream\<lparr>codec_type := AVMEDIA_TYPE_VIDEO, codec_id := CODEC_H264\<rparr>"
  let ?w = "ext_do (RtcGetTrackPayloadTypesForCodec tr)
     (snd (ext_call E (RtcGetTrackDescription tr) (snd (ext_int E (RtcGetTrackDirection tr) w))))"
  have nd: "node_at w n = nd" using assms(1) by (simp add: node_at_def)
  have c: "recv_video_codec [] = CODEC_H264" by (simp add: recv_video_codec_def)
  have w': "w' = (if video_track nd = None then
      (case new_recv_track E ?st TrackType_Video tr n ?w of
         (None, w) \<Rightarrow> w | (Some t, w) \<Rightarrow> upd_node n (\<lambda>x. x\<lparr>video_track := Some t\<rparr>) w) else ?w)"
    using assms(2,3) nd
    by (simp add: w'_def on_pc_track_callback_def Let_def case_prod_beta c)
      (simp add: ext_int_def ext_call_def)
  show ?thesis
    using new_recv_track_media [of E ?st TrackType_Video tr n ?w n] nd
    by (cases "new_recv_track E ?st TrackType_Video tr n ?w")
      (auto simp: w' upd_video_track split: option.splits)
qed

theorem recv_track_is_video_witness:
  "streams (on_pc_track_callback (\<lambda>_ _. (4, ''m=audio 9'')) 8 1 example_node_world)
     \<in> {[example_stream], [example_stream,
           zero_stream\<lparr>codec_type := AVMEDIA_TYPE_VIDEO, codec_id := CODEC_H264\<rparr>]}"
  using recv_track_is_video [of example_node_world 1 "zero_node\<lparr>pc_id := 5\<rparr>" "\<lambda>_ _. (4, ''m=audio 9'')" 8]
  by (simp add: example_node_world_def)

lemma setup_cached:
  assumes "nodes w n \<noteq> None"
  shows "t \<in> set (track_caches (node_at (snd (setup_track_common_logic E n t tid sidx ty w)) n))"
proof -
  let ?w = "upd_track t (\<lambda>x. x\<lparr>track_id := tid, track_type := ty, stream_index := sidx\<rparr>) w"
  from assms obtain nd where "nodes ?w n = Some nd" by auto
  from append_track_caches [OF this, of t] show ?thesis
    by (simp add: setup_track_common_logic_def Let_def case_prod_beta split: option.split)
qed

lemma recv_track_steps_cached:
  assumes "nodes w n \<noteq> None" and "\<And>past. fst (E past Av_mallocz) \<noteq> 0"
  shows "t \<in> set (track_caches (node_at (snd (recv_track_steps E si n t ty tid w)) n))"
proof -
  have u: "p2p_rtp_init_urlcontext E t w = (Ok (), snd (p2p_rtp_init_urlcontext E t w))"
    using assms(2) by (simp add: p2p_rtp_init_urlcontext_def Let_def case_prod_beta ext_int_def)
  have "nodes (snd (p2p_rtp_init_urlcontext E t w)) n \<noteq> None"
    using assms by (simp add: p2p_rtp_init_urlcontext_def Let_def case_prod_beta)
  from setup_cached [OF this, of t E tid "int si" ty] show ?thesis
    by (subst recv_track_steps_def, subst u) (simp add: Let_def case_prod_beta split: sum.split)
qed

text \<open>A received track whose RTP context cannot be opened is freed although it is already in
  the cache of the node: after the early return the cache holds a dangling entry.\<close>

theorem failed_recv_track_dangles:
  assumes "nodes w n \<noteq> None" and "\<And>past. fst (E past Av_mallocz) \<noteq> 0"
    and "new_recv_track E st ty tr n w = (None, w')"
  shows "\<exists>t \<in> set (track_caches (node_at w' n)). tracks w' t = None"
proof -
  let ?t = "next_addr w"
  obtain v where a: "alloc_track E w = (Some ?t, v)" and nv: "nodes v n \<noteq> None"
    using assms(1,2) by (simp add: alloc_track_def Let_def case_prod_beta ext_int_def)
  obtain si u where u: "w' = free_track ?t (snd (init_recv_track_ex E si n ?t ty tr u))"
      and f: "\<not> is_ok (fst (init_recv_track_ex E si n ?t ty tr u))" and nu: "nodes u n \<noteq> None"
  proof -
    let ?u = "(snd (ext_int E Avformat_new_stream
        (upd_track ?t (\<lambda>x. x\<lparr>track_type := ty, track_id := tr\<rparr>) v)))
          \<lparr>streams := streams v @ [st]\<rparr>"
    let ?u' = "if ty = TrackType_Audio
       then upd_track ?t (\<lambda>x. x\<lparr>stream_index := int (length (streams v))\<rparr>) ?u else ?u"
    have "w' = free_track ?t (snd (init_recv_track_ex E (length (streams v)) n ?t ty tr ?u'))
        \<and> \<not> is_ok (fst (init_recv_track_ex E (length (streams v)) n ?t ty tr ?u'))"
      using assms(3) by (auto simp: new_recv_track_def a Let_def case_prod_beta split: if_splits sum.splits)
    moreover have "nodes ?u' n \<noteq> None" using nv by auto
    ultimately show ?thesis using that by blast
  qed
  have "?t \<in> set (track_caches (node_at (snd (recv_track_steps E si n ?t ty tr u)) n))"
    by (rule recv_track_steps_cached) (rule nu, rule assms(2))
  then have "?t \<in> set (track_caches (node_at w' n))"
    by (auto simp: u init_recv_track_ex_def split: prod.split sum.split)
  moreover have "tracks w' ?t = None" by (simp add: u free_track_def)
  ultimately show ?thesis by blast
qed

text \<open>The context cannot be opened: every call answers 1 but \<open>avformat_open_input\<close>.\<close>

definition no_open :: ext where
  "no_open past c = (case c of Avformat_open_input _ _ \<Rightarrow> (- 5, []) | _ \<Rightarrow> (1, []))"

lemma new_recv_track_no_open:
  "fst (new_recv_track no_open st ty tr n w) = None"
proof -
  have o: "fst (ext_int no_open (Avformat_open_input c u) v) < 0" for c u and v :: "'a world_scheme"
    by (simp add: ext_int_def no_open_def)
  have s: "fst (ext_int no_open Avformat_new_stream v) \<noteq> 0" for v :: "'a world_scheme"
    by (simp add: ext_int_def no_open_def)
  have "fst (recv_track_steps no_open si n t ty tr v) \<noteq> Ok ()" for si t and v :: "'a world_scheme"
    by (simp add: recv_track_steps_def Let_def case_prod_beta o split: sum.split)
  then have r: "\<exists>e. fst (init_recv_track_ex no_open si n t ty tr v) = Inl e" for si t and v :: "'a world_scheme"
    by (auto simp: init_recv_track_ex_def split: prod.split sum.split) (metis fst_conv)
  show ?thesis
    by (auto simp: new_recv_track_def Let_def case_prod_beta s split: option.split sum.split)
      (metis r sum.distinct(1))+
qed

theorem failed_recv_track_dangles_witness:
  "\<exists>t \<in> set (track_caches (node_at (snd (new_recv_track no_open zero_stream TrackType_Video 9 1
          example_node_world)) 1)).
        tracks (snd (new_recv_track no_open zero_stream TrackType_Video 9 1 example_node_world)) t = None"
proof (rule failed_recv_track_dangles)
  show "new_recv_track no_open zero_stream TrackType_Video 9 1 example_node_world
      = (None, snd (new_recv_track no_open zero_stream TrackType_Video 9 1 example_node_world))"
    by (rule prod_eqI) (simp_all add: new_recv_track_no_open)
qed (simp_all add: example_node_world_def no_open_def)

end
