(* ===== verification/StateMachine.thy ===== *)
theory StateMachine
  imports Main
begin

text \<open>
  The contract of \<open>set_sender_state\<close> and \<open>set_receiver_state\<close>: the states of the publisher and
  of the receiver are ordered, and setting a state never goes back. What follows from it for
  runs of operations is proved once here and used for both.
\<close>

locale forward_state =
  fixes st :: "'s \<Rightarrow> 'q::linorder"
    and set_st :: "'q \<Rightarrow> 's \<Rightarrow> 's"
  assumes st_set: "st (set_st q s) = max (st s) q"
begin

lemma set_never_lowers: "st s \<le> st (set_st q s)"
  by (simp add: st_set)

lemma set_reaches: "q \<le> st (set_st q s)"
  by (simp add: st_set)

lemma set_below: "q \<le> st s \<Longrightarrow> st (set_st q s) = st s"
  by (simp add: st_set max_def)

lemma set_exactly: "st s < p \<Longrightarrow> st (set_st q s) = p \<Longrightarrow> p = q"
  by (auto simp: st_set max_def split: if_splits)

text \<open>A run of operations that do not lower the state does not lower it.\<close>

lemma run_never_lowers:
  assumes "\<And>f s. f \<in> set fs \<Longrightarrow> st s \<le> st (f s)"
  shows "st s \<le> st (fold (\<lambda>f. f) fs s)"
  using assms
proof (induction fs arbitrary: s)
  case (Cons f fs)
  have "st s \<le> st (f s)" by (rule Cons.prems) simp
  also have "\<dots> \<le> st (fold (\<lambda>f. f) fs (f s))" by (rule Cons.IH) (simp add: Cons.prems)
  finally show ?case by simp
qed simp

text \<open>So the greatest state is never left.\<close>

lemma top_is_final:
  assumes "\<And>q. q \<le> top_st" and "st s = top_st" and "\<And>f s. f \<in> set fs \<Longrightarrow> st s \<le> st (f s)"
  shows "st (fold (\<lambda>f. f) fs s) = top_st"
proof -
  have "st s \<le> st (fold (\<lambda>f. f) fs s)" by (rule run_never_lowers) (rule assms(3))
  with assms(1) [of "st (fold (\<lambda>f. f) fs s)"] assms(2) show ?thesis by simp
qed

end

end
