(* ===== verification/Frames.thy ===== *)
theory Frames
  imports PeerConn
begin

text \<open>
  What the operations on the shared world leave alone: the part of the state that the
  publisher or the receiver adds to it (\<open>world.more\<close>), and the selected node. Every operation
  of the lower layers is covered, so a handler changes its own state only where its own code
  says so.
\<close>

named_theorems frame_simps "frame conditions of the operations on the shared world"

definition own :: "'a world_scheme \<Rightarrow> 'a \<times> addr option \<times> bool" where
  "own w = (world.more w, selected_node w, signal_callbacks w)"

lemma own_basic [frame_simps]:
  "own (ext_do c w) = own w" "own (snd (ext_int E c w)) = own w" "own (snd (ext_call E c w)) = own w"
  "own (upd_node n f w) = own w" "own (upd_track t g w) = own w"
  "own (free_node n w) = own w" "own (free_track t w) = own w"
  "own (w\<lparr>calls := cs\<rparr>) = own w" "own (w\<lparr>nodes := ns\<rparr>) = own w" "own (w\<lparr>tracks := ts\<rparr>) = own w"
  "own (w\<lparr>next_addr := a\<rparr>) = own w" "own (w\<lparr>streams := ss\<rparr>) = own w"
  "own (w\<lparr>local_id := l\<rparr>) = own w" "own (w\<lparr>room_info_room_id := l\<rparr>) = own w"
  "own (w\<lparr>peer_connection_node_caches := cl\<rparr>) = own w"
  by (simp_all add: own_def ext_do_def ext_int_def ext_call_def upd_node_def upd_track_def
      free_node_def free_track_def)

lemma own_alloc [frame_simps]:
  "own (snd (alloc_node E w)) = own w" "own (snd (alloc_track E w)) = own w"
  by (simp_all add: alloc_node_def alloc_track_def Let_def case_prod_beta frame_simps)

lemma own_append [frame_simps]:
  "own (append_node n w) = own w" "own (append_track n t w) = own w"
  by (simp_all add: append_node_def append_track_def Let_def frame_simps split: option.split)

lemma own_set_callbacks [frame_simps]: "own (snd (set_callbacks E hs i w)) = own w"
  by (induction hs arbitrary: w) (simp_all add: Let_def case_prod_beta frame_simps)

lemma own_setup [frame_simps]:
  "own (snd (setup_track_common_logic E n t tid sidx ty w)) = own w"
  "own (snd (setup_probe_track E n t tid w)) = own w"
  by (simp_all add: setup_track_common_logic_def setup_probe_track_def Let_def case_prod_beta frame_simps)

lemma own_track_parts [frame_simps]:
  "own (fail_track t w) = own w" "own (set_pts_info si d w) = own w"
  "own (snd (p2p_rtp_init_urlcontext E t w)) = own w"
  "own (snd (webrtc_generate_media_stream_id E w)) = own w"
  "own (snd (create_track E si n init w)) = own w"
  by (simp_all add: fail_track_def set_pts_info_def p2p_rtp_init_urlcontext_def create_track_def
      webrtc_generate_media_stream_id_def Let_def case_prod_beta frame_simps split: option.split)

lemma own_create_send_track [frame_simps]:
  "own (snd (create_send_track E si n t index w)) = own w"
  by (simp add: create_send_track_def Let_def case_prod_beta frame_simps split: sum.split)

lemma own_init_probe_track [frame_simps]:
  "own (snd (init_probe_track_ex E n t w)) = own w"
  by (simp add: init_probe_track_ex_def Let_def case_prod_beta frame_simps split: option.split sum.split)

lemma own_init_send_track [frame_simps]:
  "own (snd (init_send_track_ex E si n t tid index w)) = own w"
  by (simp add: init_send_track_ex_def Let_def case_prod_beta frame_simps
      split: option.split sum.split AVMediaType.split)

lemma own_create_peer_connection [frame_simps]:
  "own (snd (create_peer_connection E rid w)) = own w"
  by (simp add: create_peer_connection_def Let_def case_prod_beta frame_simps split: option.split)

lemma own_init_peer_connection [frame_simps]:
  "own (snd (init_peer_connection E pc w)) = own w"
  by (simp add: init_peer_connection_def Let_def case_prod_beta frame_simps)

lemma own_send [frame_simps]:
  "own (snd (p2p_send_signal_message E pr m w)) = own w"
  "own (snd (send_local_description E pr n role w)) = own w"
  by (simp_all add: p2p_send_signal_message_def send_local_description_def Let_def case_prod_beta
      frame_simps split: option.split)

lemma own_random [frame_simps]: "own (snd (random_bytes E k w)) = own w"
  by (induction k arbitrary: w) (simp_all add: Let_def case_prod_beta frame_simps)

lemma own_probe_packet [frame_simps]: "own (snd (send_probe_packet E n tid i w)) = own w"
  by (simp add: send_probe_packet_def Let_def case_prod_beta frame_simps)

lemma own_probe_loop [frame_simps]: "own (snd (send_probe_loop E n tid is w)) = own w"
proof (induction "is" arbitrary: w)
  case (Cons i rest)
  have "own (snd (send_probe_packet E n tid i w)) = own w" by (rule own_probe_packet)
  then show ?case
    by (cases "send_probe_packet E n tid i w"; cases "fst (send_probe_packet E n tid i w)")
      (simp_all add: Cons.IH)
qed simp

lemma own_probe_packets [frame_simps]: "own (snd (send_probe_packets E n w)) = own w"
  by (simp add: send_probe_packets_def Let_def frame_simps split: option.split)

lemma own_requests [frame_simps]:
  "own (snd (send_probe_request_to_publisher E pr n w)) = own w"
  "own (snd (send_stream_request E pr node w)) = own w"
  by (simp_all add: send_probe_request_to_publisher_def send_stream_request_def Let_def case_prod_beta
      frame_simps split: option.split)

lemma own_recv_track [frame_simps]:
  "own (snd (recv_track_steps E si n t ty tid w)) = own w"
  by (simp add: recv_track_steps_def Let_def case_prod_beta frame_simps split: sum.split)

lemma own_init_recv_track [frame_simps]:
  "own (snd (init_recv_track_ex E si n t ty tid w)) = own w"
proof (cases "recv_track_steps E si n t ty tid w")
  case (Pair r v)
  with own_recv_track [of E si n t ty tid w] show ?thesis
    by (simp add: init_recv_track_ex_def frame_simps split: sum.split)
qed

lemma ownD:
  "own v = own w \<Longrightarrow> world.more v = world.more w"
  "own v = own w \<Longrightarrow> selected_node v = selected_node w"
  "own v = own w \<Longrightarrow> signal_callbacks v = signal_callbacks w"
  by (simp_all add: own_def)

end
