(* ===== verification/Sender.thy ===== *)
theory Sender
  imports Frames StateMachine
begin

text \<open>
  The publisher, \<^verbatim>\<open>libavformat/p2p_rtp_mux.c\<close>: its states, its reaction to each signalling
  message, and the muxer entry points. The state mutex is not modelled: each handler and each
  entry point is one atomic step, and what other threads do while the muxer waits is a
  parameter of the waiting loop.
\<close>

section \<open>States\<close>

datatype SenderState =
    SENDER_STATE_IDLE | SENDER_STATE_JOINING_ROOM | SENDER_STATE_WAITING_FOR_RECEIVER
  | SENDER_STATE_SIGNALING | SENDER_STATE_P2P_CONNECTING | SENDER_STATE_DATACHANNEL_READY
  | SENDER_STATE_PROBING | SENDER_STATE_WAITING_STREAM_REQUEST | SENDER_STATE_CREATING_TRACKS
  | SENDER_STATE_STREAMING | SENDER_STATE_ERROR

text \<open>The values of the C enumeration, by which states are compared.\<close>

fun sender_code :: "SenderState \<Rightarrow> nat" where
  "sender_code SENDER_STATE_IDLE = 0"
| "sender_code SENDER_STATE_JOINING_ROOM = 1"
| "sender_code SENDER_STATE_WAITING_FOR_RECEIVER = 2"
| "sender_code SENDER_STATE_SIGNALING = 3"
| "sender_code SENDER_STATE_P2P_CONNECTING = 4"
| "sender_code SENDER_STATE_DATACHANNEL_READY = 5"
| "sender_code SENDER_STATE_PROBING = 6"
| "sender_code SENDER_STATE_WAITING_STREAM_REQUEST = 7"
| "sender_code SENDER_STATE_CREATING_TRACKS = 8"
| "sender_code SENDER_STATE_STREAMING = 9"
| "sender_code SENDER_STATE_ERROR = 10"

lemma sender_code_inj [simp]: "sender_code p = sender_code q \<longleftrightarrow> p = q"
  by (cases p; cases q) simp_all

instantiation SenderState :: linorder
begin

definition less_eq_SenderState :: "SenderState \<Rightarrow> SenderState \<Rightarrow> bool" where
  "p \<le> q \<longleftrightarrow> sender_code p \<le> sender_code q"

definition less_SenderState :: "SenderState \<Rightarrow> SenderState \<Rightarrow> bool" where
  "p < q \<longleftrightarrow> sender_code p < sender_code q"

instance
  by standard (auto simp: less_eq_SenderState_def less_SenderState_def)

end

lemma sender_error_greatest: "q \<le> SENDER_STATE_ERROR"
  by (cases q) (simp_all add: less_eq_SenderState_def)

record mux = world +
  current_state :: SenderState
  state_enter_time :: int
  mux_room_id :: "string option"
  wait_timeout :: int

definition set_sender_state :: "ext \<Rightarrow> SenderState \<Rightarrow> mux \<Rightarrow> mux" where
  "set_sender_state E q w =
     (if current_state w < q
      then let (now, w) = ext_int E Av_gettime w in w\<lparr>current_state := q, state_enter_time := now\<rparr>
      else w)"

lemma set_sender_state_max: "current_state (set_sender_state E q w) = max (current_state w) q"
  by (auto simp: set_sender_state_def Let_def ext_int_def max_def)

interpretation sender: forward_state current_state "set_sender_state E" for E
  by unfold_locales (rule set_sender_state_max)

definition on_pc_connected_callback :: "ext \<Rightarrow> addr \<Rightarrow> mux \<Rightarrow> mux" where
  "on_pc_connected_callback E n w = set_sender_state E SENDER_STATE_DATACHANNEL_READY w"

section \<open>Signalling messages\<close>

definition mux_room_joined :: "ext \<Rightarrow> string option \<Rightarrow> string option \<Rightarrow> mux \<Rightarrow> int res \<times> mux" where
  "mux_room_joined E room lid w =
     (let w = (if room \<noteq> None then w\<lparr>room_info_room_id := room\<rparr> else w);
          w = (if lid \<noteq> None then w\<lparr>local_id := lid\<rparr> else w)
      in (Ok 0, set_sender_state E SENDER_STATE_WAITING_FOR_RECEIVER w))"

text \<open>
  One media track of a new receiver. The allocation is used before it is checked, so a failed
  allocation ends the process. \<open>None\<close> goes on, \<open>Some e\<close> is the early return.
\<close>

definition mux_add_track :: "ext \<Rightarrow> nat \<Rightarrow> addr \<Rightarrow> (addr \<Rightarrow> PeerConnectionNode \<Rightarrow> PeerConnectionNode)
    \<Rightarrow> mux \<Rightarrow> averror option \<times> mux" where
  "mux_add_track E i n store w =
     (let (a, w) = alloc_track E w
      in case a of None \<Rightarrow> (Some ENOMEM, ext_do Abort w)
      | Some t \<Rightarrow>
          let w = upd_track t (\<lambda>x. x\<lparr>stream_index := int i\<rparr>) w;
              (r, w) = create_send_track E i n t (int i) w
          in (case r of
                Inl e \<Rightarrow> (Some e, free_track t w)
              | Inr tid \<Rightarrow>
                  let (r, w) = init_send_track_ex E (Some i) (Some n) (Some t) tid (int i) w
                  in (case r of
                        Inl e \<Rightarrow> (Some e, free_track t w)
                      | Inr _ \<Rightarrow> (None, upd_node n (store t) w))))"

fun mux_add_tracks :: "ext \<Rightarrow> nat list \<Rightarrow> addr \<Rightarrow> mux \<Rightarrow> averror option \<times> mux" where
  "mux_add_tracks E [] n w = (None, w)"
| "mux_add_tracks E (i # rest) n w =
     (let ty = codec_type (streams w ! i);
          (e, w) =
            (if ty = AVMEDIA_TYPE_VIDEO \<and> video_track (node_at w n) = None
             then mux_add_track E i n (\<lambda>t x. x\<lparr>video_track := Some t\<rparr>) w
             else if ty = AVMEDIA_TYPE_AUDIO \<and> audio_track (node_at w n) = None
             then mux_add_track E i n (\<lambda>t x. x\<lparr>audio_track := Some t\<rparr>) w
             else (None, w))
      in case e of Some e \<Rightarrow> (Some e, w) | None \<Rightarrow> mux_add_tracks E rest n w)"

definition mux_add_probe_track :: "ext \<Rightarrow> addr \<Rightarrow> mux \<Rightarrow> averror option \<times> mux" where
  "mux_add_probe_track E n w =
     (if probe_track (node_at w n) \<noteq> None then (None, w)
      else let (a, w) = alloc_track E w
      in case a of None \<Rightarrow> (Some ENOMEM, w)
      | Some t \<Rightarrow>
          let (r, w) = init_probe_track_ex E (Some n) (Some t) w
          in (case r of
                Inl e \<Rightarrow> (Some e, free_track t w)
              | Inr _ \<Rightarrow> (None, upd_node n (\<lambda>x. x\<lparr>probe_track := Some t\<rparr>) w)))"

text \<open>The node of a peer, created where there is none yet.\<close>

definition find_or_create_node :: "ext \<Rightarrow> string option \<Rightarrow> mux \<Rightarrow> addr res \<times> mux" where
  "find_or_create_node E rid w =
     (case find_node rid w of
        Some n \<Rightarrow> (Ok n, w)
      | None \<Rightarrow>
          let (r, w) = create_peer_connection E rid w
          in (case r of Inl e \<Rightarrow> (Err e, w)
              | Inr _ \<Rightarrow> (case find_node rid w of Some n \<Rightarrow> (Ok n, w) | None \<Rightarrow> (Err ENOMEM, ext_do Abort w))))"

definition mux_connect_request :: "ext \<Rightarrow> (json \<Rightarrow> string) \<Rightarrow> string option \<Rightarrow> mux \<Rightarrow> int res \<times> mux" where
  "mux_connect_request E pr target w =
     (let (r, w) = find_or_create_node E target w
      in case r of Inl e \<Rightarrow> (Err e, w) | Inr n \<Rightarrow>
      let (e, w) = mux_add_tracks E [0..<length (streams w)] n w
      in case e of Some e \<Rightarrow> (Err e, w) | None \<Rightarrow>
      let (e, w) = mux_add_probe_track E n w
      in case e of Some e \<Rightarrow> (Err e, w) | None \<Rightarrow>
      let w = snd (init_peer_connection E (pc_id (node_at w n)) w);
          w = snd (send_local_description E pr n ''offer'' w)
      in (Ok 0, set_sender_state E SENDER_STATE_SIGNALING w))"

definition mux_offer :: "ext \<Rightarrow> string option \<Rightarrow> string option \<Rightarrow> mux \<Rightarrow> int res \<times> mux" where
  "mux_offer E rid description w =
     (let (r, w) = find_or_create_node E rid w
      in case r of Inl e \<Rightarrow> (Err e, w) | Inr n \<Rightarrow>
      let w = (case description of None \<Rightarrow> w
            | Some d \<Rightarrow> set_sender_state E SENDER_STATE_SIGNALING
                (ext_do (RtcSetRemoteDescription (pc_id (node_at w n)) d ''offer'') w))
      in (Ok 0, snd (init_peer_connection E (pc_id (node_at w n)) w)))"

definition mux_answer :: "string option \<Rightarrow> string option \<Rightarrow> 'a world_scheme \<Rightarrow> int res \<times> 'a world_scheme" where
  "mux_answer rid description w =
     (case (find_node rid w, description) of
        (Some n, Some d) \<Rightarrow> (Ok 0, ext_do (RtcSetRemoteDescription (pc_id (node_at w n)) d ''answer'') w)
      | _ \<Rightarrow> (Err EINVAL, w))"

definition mux_candidate :: "string option \<Rightarrow> string option \<Rightarrow> string option \<Rightarrow> 'a world_scheme
    \<Rightarrow> int res \<times> 'a world_scheme" where
  "mux_candidate rid cand mid w =
     (case (find_node rid w, cand, mid) of
        (Some n, Some c, Some m) \<Rightarrow> (Ok 0, ext_do (RtcAddRemoteCandidate (pc_id (node_at w n)) c m) w)
      | _ \<Rightarrow> (Err EINVAL, w))"

definition mux_probe_request :: "ext \<Rightarrow> string option \<Rightarrow> int \<Rightarrow> int \<Rightarrow> mux \<Rightarrow> int res \<times> mux" where
  "mux_probe_request E rid expected timeout w =
     (case find_node rid w of None \<Rightarrow> (Err EINVAL, w)
      | Some n \<Rightarrow>
          let upd = (\<lambda>f. upd_node n (\<lambda>x. x\<lparr>network_quality := f (network_quality x)\<rparr>));
              w = (if expected > 0 then upd (\<lambda>m. m\<lparr>expected_packets := expected\<rparr>) w else w);
              w = (if timeout > 0
                   then let (now, w) = ext_int E Av_gettime w
                        in upd (\<lambda>m. m\<lparr>timeout_ms := timeout, probe_start_time := now\<rparr>) w
                   else w);
              w = set_sender_state E SENDER_STATE_PROBING w
          in (Ok 0, snd (send_probe_packets E n w)))"

definition mux_stream_request :: "ext \<Rightarrow> (json \<Rightarrow> string) \<Rightarrow> string option \<Rightarrow> mux \<Rightarrow> int res \<times> mux" where
  "mux_stream_request E pr rid w =
     (case find_node rid w of None \<Rightarrow> (Err EINVAL, w)
      | Some n \<Rightarrow>
          let nd = node_at w n
          in if status nd \<noteq> Connected then (Err EINVAL, w)
             else if probe_track nd = None \<or> (video_track nd = None \<and> audio_track nd = None)
             then (Err EINVAL, w)
             else let msg = (p2p_create_signal_message P2P_MSG_STREAM_READY (local_id w) rid)
                        \<lparr>payload := P_stream_ready (Some ''main_stream'')\<rparr>;
                      w = snd (p2p_send_signal_message E pr (Some msg) w);
                      w = set_sender_state E SENDER_STATE_STREAMING w;
                      w = w\<lparr>selected_node := Some n\<rparr>
                  in (Ok 0, upd_node n (\<lambda>x. x\<lparr>status := Selected\<rparr>) w))"

definition p2p_rtp_mux_signal_handler :: "ext \<Rightarrow> (json \<Rightarrow> string) \<Rightarrow> P2PSignalMessage \<Rightarrow> mux
    \<Rightarrow> int res \<times> mux" where
  "p2p_rtp_mux_signal_handler E pr msg w =
     (let rid = sender_id msg
      in case (mtype msg, payload msg) of
           (P2P_MSG_ROOM_JOINED, P_room_joined room role lid) \<Rightarrow> mux_room_joined E room lid w
         | (P2P_MSG_CONNECT_REQUEST, P_connect_request target) \<Rightarrow> mux_connect_request E pr target w
         | (P2P_MSG_OFFER, P_description d) \<Rightarrow> mux_offer E rid d w
         | (P2P_MSG_ANSWER, P_description d) \<Rightarrow> mux_answer rid d w
         | (P2P_MSG_CANDIDATE, P_candidate c m) \<Rightarrow> mux_candidate rid c m w
         | (P2P_MSG_PROBE_REQUEST, P_probe_request pid psize n t) \<Rightarrow> mux_probe_request E rid n t w
         | (P2P_MSG_STREAM_REQUEST, P_stream_request s) \<Rightarrow> mux_stream_request E pr rid w
         | (P2P_MSG_ERROR, P_error c m) \<Rightarrow> (Ok 0, set_sender_state E SENDER_STATE_ERROR w)
         | _ \<Rightarrow> (Ok 0, w))"

section \<open>The muxer\<close>

definition p2p_join_room_as_sender :: "ext \<Rightarrow> (json \<Rightarrow> string) \<Rightarrow> string option \<Rightarrow> 'a world_scheme
    \<Rightarrow> int res \<times> 'a world_scheme" where
  "p2p_join_room_as_sender E pr room w =
     p2p_send_signal_message E pr (Some ((p2p_create_signal_message P2P_MSG_JOIN_ROOM (local_id w) None)
       \<lparr>payload := P_join_room (Some (case room of None \<Rightarrow> ''default_room'' | Some r \<Rightarrow> r))
          (Some ''sender'') None\<rparr>)) w"

text \<open>
  The wait for the streaming state. \<open>env k\<close> is the \<open>k\<close>-th timed wait on the condition: what the
  other threads did, and whether the wait timed out.
\<close>

fun mux_wait :: "nat \<Rightarrow> (nat \<Rightarrow> mux \<Rightarrow> bool \<times> mux) \<Rightarrow> nat \<Rightarrow> mux \<Rightarrow> (int res \<times> mux) option" where
  "mux_wait 0 env k w = None"
| "mux_wait (Suc fuel) env k w =
     (if current_state w = SENDER_STATE_STREAMING then Some (Ok 0, w)
      else let (timed_out, w) = env k w
      in if timed_out then Some (Err ETIMEDOUT, w)
         else if current_state w = SENDER_STATE_ERROR then Some (Err AVERROR_EXTERNAL, w)
         else mux_wait fuel env (Suc k) w)"

text \<open>
  \<open>ws_env\<close> is the signalling thread during the wait for the socket. The environment of the
  second wait gets the timeout in seconds.
\<close>

definition p2p_rtp_muxer_init :: "nat \<Rightarrow> ext \<Rightarrow> (json \<Rightarrow> string) \<Rightarrow> (nat \<Rightarrow> mux \<Rightarrow> mux)
    \<Rightarrow> (int \<Rightarrow> nat \<Rightarrow> mux \<Rightarrow> bool \<times> mux) \<Rightarrow> mux \<Rightarrow> (int res \<times> mux) option" where
  "p2p_rtp_muxer_init fuel E pr ws_env env w =
     (let w = set_sender_state E SENDER_STATE_IDLE w;
          w = set_sender_state E SENDER_STATE_JOINING_ROOM w
      in case p2p_init_signal_server fuel E ws_env w of None \<Rightarrow> None
      | Some (_, w) \<Rightarrow>
          (case p2p_set_signal_message_handler E w of
             (Inl e, w) \<Rightarrow> Some (Err e, w)
           | (Inr _, w) \<Rightarrow>
               let w = snd (p2p_join_room_as_sender E pr (mux_room_id w) w);
                   w = set_sender_state E SENDER_STATE_WAITING_FOR_RECEIVER w;
                   timeout_sec = (if wait_timeout w \<noteq> 0 then wait_timeout w
                                  else P2P_WAITING_RECEIVER_TIMEOUT_SEC)
               in mux_wait fuel (env timeout_sec) 0 w))"

definition p2p_rtp_muxer_write_header :: "mux \<Rightarrow> unit res" where
  "p2p_rtp_muxer_write_header w = (if selected_node w = None then Err EINVAL else Ok ())"

definition p2p_rtp_muxer_write_packet :: "ext \<Rightarrow> int \<Rightarrow> int \<Rightarrow> mux \<Rightarrow> int res \<times> mux" where
  "p2p_rtp_muxer_write_packet E sidx pkt w =
     (if current_state w \<noteq> SENDER_STATE_STREAMING then (Err EINVAL, w)
      else case selected_node w of None \<Rightarrow> (Err EINVAL, w)
      | Some n \<Rightarrow>
          (case find_track_by_stream n sidx w of None \<Rightarrow> (Err EINVAL, w)
           | Some t \<Rightarrow>
               let (ret, w) = ext_int E (Av_write_frame
                     (case rtp_ctx (track_at w t) of None \<Rightarrow> 0 | Some c \<Rightarrow> c) pkt) w
               in (int_res ret, w)))"

definition stream_end_json :: "string option \<Rightarrow> json" where
  "stream_end_json lid =
     JObject (cJSON_AddStringToObject ''sender_id'' lid
       (cJSON_AddStringToObject ''type'' (Some ''stream_end'') []))"

definition p2p_rtp_muxer_write_trailer :: "(json \<Rightarrow> string) \<Rightarrow> mux \<Rightarrow> mux" where
  "p2p_rtp_muxer_write_trailer pr w =
     (if selected_node w = None then w
      else ext_do (RtcSendMessage (web_socket w) (text_bytes (pr (stream_end_json (local_id w))))) w)"

definition p2p_rtp_muxer_deinit :: "mux \<Rightarrow> mux" where
  "p2p_rtp_muxer_deinit w = w\<lparr>room_info_room_id := None\<rparr>"

definition p2p_rtp_muxer_query_codec :: "AVCodecID \<Rightarrow> bool" where
  "p2p_rtp_muxer_query_codec c =
     (case c of
        CODEC_OPUS \<Rightarrow> True | CODEC_AAC \<Rightarrow> True | CODEC_PCM_MULAW \<Rightarrow> True
      | CODEC_PCM_ALAW \<Rightarrow> True | CODEC_H264 \<Rightarrow> True | CODEC_HEVC \<Rightarrow> True
      | CODEC_AV1 \<Rightarrow> True | CODEC_VP9 \<Rightarrow> True
      | _ \<Rightarrow> False)"

definition p2p_rtp_muxer_check_bitstream :: "AVStream \<Rightarrow> (string \<times> string) option" where
  "p2p_rtp_muxer_check_bitstream st =
     (if extradata st \<noteq> [] \<and> codec_type st = AVMEDIA_TYPE_VIDEO
      then Some (''dump_extra'', ''freq=keyframe'') else None)"

section \<open>The publisher's own state\<close>

lemma mux_state_frame: "own v = own w \<Longrightarrow> current_state v = current_state (w :: mux)"
  by (drule ownD(1), cases v, cases w) simp

lemma mux_state_frames [simp]:
  fixes w :: mux
  shows "current_state (snd (find_or_create_node E rid w)) = current_state w"
    and "current_state (snd (init_peer_connection E pc w)) = current_state w"
    and "current_state (snd (send_local_description E pr n role w)) = current_state w"
    and "current_state (snd (p2p_send_signal_message E pr m w)) = current_state w"
    and "current_state (snd (send_probe_packets E n w)) = current_state w"
    and "current_state (upd_node n f w) = current_state w"
    and "current_state (ext_do c w) = current_state w"
    and "current_state (snd (ext_int E c w)) = current_state w"
  by (rule mux_state_frame, simp add: find_or_create_node_def Let_def case_prod_beta frame_simps
      split: option.split sum.split)+

lemma own_mux_add_track [frame_simps]: "own (snd (mux_add_track E i n st w)) = own w"
  by (simp add: mux_add_track_def Let_def case_prod_beta frame_simps split: option.split sum.split)

lemma own_mux_add_tracks [frame_simps]: "own (snd (mux_add_tracks E is n w)) = own w"
  by (induction "is" arbitrary: w) (simp_all add: Let_def case_prod_beta frame_simps split: option.split)

lemma own_mux_add_probe [frame_simps]: "own (snd (mux_add_probe_track E n w)) = own w"
  by (simp add: mux_add_probe_track_def Let_def case_prod_beta frame_simps split: option.split sum.split)

lemma mux_add_state [simp]:
  "current_state (snd (mux_add_tracks E is n w)) = current_state w"
  "current_state (snd (mux_add_probe_track E n w)) = current_state w"
  by (rule mux_state_frame, simp add: frame_simps)+

text \<open>The state a message leads to, where it leads to one.\<close>

fun message_goal :: "P2PMessageType \<Rightarrow> SenderState option" where
  "message_goal P2P_MSG_ROOM_JOINED = Some SENDER_STATE_WAITING_FOR_RECEIVER"
| "message_goal P2P_MSG_CONNECT_REQUEST = Some SENDER_STATE_SIGNALING"
| "message_goal P2P_MSG_OFFER = Some SENDER_STATE_SIGNALING"
| "message_goal P2P_MSG_PROBE_REQUEST = Some SENDER_STATE_PROBING"
| "message_goal P2P_MSG_STREAM_REQUEST = Some SENDER_STATE_STREAMING"
| "message_goal P2P_MSG_ERROR = Some SENDER_STATE_ERROR"
| "message_goal _ = None"

lemma connect_request_state:
  "current_state (snd (mux_connect_request E pr target w))
     \<in> {current_state w, max (current_state w) SENDER_STATE_SIGNALING}"
  by (simp add: mux_connect_request_def Let_def case_prod_beta set_sender_state_max split: sum.split option.split)

lemma offer_state:
  "current_state (snd (mux_offer E rid d w))
     \<in> {current_state w, max (current_state w) SENDER_STATE_SIGNALING}"
  by (simp add: mux_offer_def Let_def case_prod_beta set_sender_state_max split: sum.split option.split)

lemma probe_request_state:
  "current_state (snd (mux_probe_request E rid n t w))
     \<in> {current_state w, max (current_state w) SENDER_STATE_PROBING}"
  by (simp add: mux_probe_request_def Let_def case_prod_beta set_sender_state_max split: option.split)

lemma stream_request_state:
  "current_state (snd (mux_stream_request E pr rid w))
     \<in> {current_state w, max (current_state w) SENDER_STATE_STREAMING}"
  by (simp add: mux_stream_request_def Let_def case_prod_beta set_sender_state_max
      node_at_def [of "w\<lparr>selected_node := a\<rparr>" for w a] split: option.split)

lemma handler_state:
  "current_state (snd (p2p_rtp_mux_signal_handler E pr msg w)) = current_state w
   \<or> (\<exists>q. message_goal (mtype msg) = Some q
        \<and> current_state (snd (p2p_rtp_mux_signal_handler E pr msg w)) = max (current_state w) q)"
  using connect_request_state [of E pr _ w] offer_state [of E "sender_id msg" _ w]
    probe_request_state [of E "sender_id msg" _ _ w] stream_request_state [of E pr "sender_id msg" w]
  by (cases "mtype msg"; cases "payload msg")
    (auto simp: p2p_rtp_mux_signal_handler_def mux_room_joined_def mux_answer_def mux_candidate_def
      set_sender_state_max Let_def split: option.split)

lemma handler_never_lowers:
  "current_state w \<le> current_state (snd (p2p_rtp_mux_signal_handler E pr msg w))"
  using handler_state [of E pr msg w] by auto

text \<open>A run of received messages.\<close>

definition mux_run :: "ext \<Rightarrow> (json \<Rightarrow> string) \<Rightarrow> P2PSignalMessage list \<Rightarrow> mux \<Rightarrow> mux" where
  "mux_run E pr msgs w =
     fold (\<lambda>f. f) (map (\<lambda>m w. snd (p2p_rtp_mux_signal_handler E pr m w)) msgs) w"

section \<open>Properties\<close>

text \<open>C8. No run of signalling messages takes the publisher back to an earlier state; and the
  error state is final: once it is reached no packet is written any more.\<close>

theorem sender_runs_forward:
  "current_state w \<le> current_state (mux_run E pr msgs w)
   \<and> (current_state w = SENDER_STATE_ERROR \<longrightarrow>
        p2p_rtp_muxer_write_packet E2 sidx pkt (mux_run E pr msgs w) = (Err EINVAL, mux_run E pr msgs w))"
proof -
  have step: "current_state v \<le> current_state (f v)"
    if "f \<in> set (map (\<lambda>m w. snd (p2p_rtp_mux_signal_handler E pr m w)) msgs)" for f v
    using that handler_never_lowers by auto
  have "current_state w \<le> current_state (mux_run E pr msgs w)"
    unfolding mux_run_def by (rule sender.run_never_lowers) (rule step)
  moreover have "current_state (mux_run E pr msgs w) = SENDER_STATE_ERROR"
    if "current_state w = SENDER_STATE_ERROR"
    unfolding mux_run_def by (rule sender.top_is_final [OF sender_error_greatest that]) (rule step)
  ultimately show ?thesis by (simp add: p2p_rtp_muxer_write_packet_def)
qed

definition example_mux :: mux where
  "example_mux = \<lparr>calls = [], nodes = [1 \<mapsto> zero_node\<lparr>pc_id := 5, remote_id := Some ''r'',
       status := Connected, probe_track := Some 2, video_track := Some 3, track_caches := [2, 3]\<rparr>],
     tracks = [2 \<mapsto> zero_track\<lparr>track_id := 4, stream_index := - 1\<rparr>,
       3 \<mapsto> zero_track\<lparr>track_id := 6, rtp_ctx := Some 8\<rparr>], next_addr = 4,
     streams = [example_stream], local_id = Some ''s'', web_socket = 7, web_socket_connected = 1,
     web_socket_server = None, room_info_room_id = None, peer_connection_node_caches = [1],
     selected_node = None, signal_callbacks = True, config = [],
     current_state = SENDER_STATE_PROBING, state_enter_time = 0, mux_room_id = None, wait_timeout = 0\<rparr>"

theorem sender_runs_forward_witness:
  "fst (p2p_rtp_muxer_write_packet (\<lambda>_ _. (0, [])) 0 1
     (mux_run (\<lambda>_ _. (0, [])) (\<lambda>_. []) [p2p_create_signal_message P2P_MSG_STREAM_REQUEST (Some ''r'') None]
        (example_mux\<lparr>current_state := SENDER_STATE_ERROR\<rparr>))) = Err EINVAL"
  using sender_runs_forward [of "example_mux\<lparr>current_state := SENDER_STATE_ERROR\<rparr>"] by simp

text \<open>C9. The publisher starts streaming only for a stream request of a peer whose connection is
  established and whose probe track and media tracks exist; that peer is then the selected
  node, and one message, the stream-ready message, went out on the signalling socket.\<close>

theorem streaming_gate:
  assumes "p2p_rtp_mux_signal_handler E pr msg w = (r, w')"
    and "current_state w < SENDER_STATE_STREAMING" "current_state w' = SENDER_STATE_STREAMING"
  shows "r = Ok 0 \<and> mtype msg = P2P_MSG_STREAM_REQUEST
    \<and> (\<exists>n. find_node (sender_id msg) w = Some n \<and> status (node_at w n) = Connected
         \<and> probe_track (node_at w n) \<noteq> None
         \<and> (video_track (node_at w n) \<noteq> None \<or> audio_track (node_at w n) \<noteq> None)
         \<and> selected_node w' = Some n
         \<and> (\<exists>txt. sent_on (web_socket w) (calls w') = sent_on (web_socket w) (calls w) @ [txt]))"
proof -
  have "message_goal (mtype msg) = Some SENDER_STATE_STREAMING"
    using handler_state [of E pr msg w] assms by (auto simp: max_def split: if_splits)
  then have ty: "mtype msg = P2P_MSG_STREAM_REQUEST" by (cases "mtype msg") simp_all
  have ws: "web_socket (snd (ext_int E c v)) = web_socket v" for c and v :: mux
    by (simp add: ext_int_def)
  show ?thesis
  proof (cases "payload msg")
    case (P_stream_request s)
    then show ?thesis
      using assms ty
      by (auto simp: p2p_rtp_mux_signal_handler_def mux_stream_request_def p2p_send_signal_message_def
          set_sender_state_def Let_def case_prod_beta ws split: option.splits if_splits)
  qed (use assms ty in \<open>auto simp: p2p_rtp_mux_signal_handler_def\<close>)
qed

theorem streaming_gate_witness:
  "selected_node (snd (p2p_rtp_mux_signal_handler (\<lambda>_ _. (0, [])) (\<lambda>_. [])
     (p2p_create_signal_message P2P_MSG_STREAM_REQUEST (Some ''r'') None) example_mux)) = Some 1"
proof -
  let ?m = "p2p_create_signal_message P2P_MSG_STREAM_REQUEST (Some ''r'') None"
  let ?r = "p2p_rtp_mux_signal_handler (\<lambda>_ _. (0, [])) (\<lambda>_. []) ?m example_mux"
  have f: "find_node (Some ''r'') example_mux = Some 1"
    by (simp add: find_node_def example_mux_def node_at_def)
  have "current_state (snd ?r) = SENDER_STATE_STREAMING"
    by (simp add: p2p_rtp_mux_signal_handler_def mux_stream_request_def p2p_create_signal_message_def f
        set_sender_state_max Let_def case_prod_beta)
      (simp add: example_mux_def node_at_def max_def less_eq_SenderState_def)
  moreover have "current_state example_mux < SENDER_STATE_STREAMING"
    by (simp add: example_mux_def less_SenderState_def)
  ultimately obtain n where "find_node (sender_id ?m) example_mux = Some n" "selected_node (snd ?r) = Some n"
    using streaming_gate [OF prod.collapse [symmetric], where E = "\<lambda>_ _. (0, [])" and pr = "\<lambda>_. []"
        and msg = ?m and w = example_mux] by blast
  with f show ?thesis by (simp add: p2p_create_signal_message_def)
qed

text \<open>A packet is handed on only while streaming, and then to the RTP context of the cached
  track of its stream in the selected node; in every other case no call is made.\<close>

theorem write_packet_routes:
  assumes "p2p_rtp_muxer_write_packet E sidx pkt w = (r, w')"
  shows "(calls w' = calls w \<and> r = Err EINVAL)
    \<or> (current_state w = SENDER_STATE_STREAMING
        \<and> (\<exists>n t. selected_node w = Some n \<and> t \<in> set (track_caches (node_at w n))
             \<and> stream_index (track_at w t) = sidx
             \<and> (\<forall>c. rtp_ctx (track_at w t) = Some c \<longrightarrow> calls w' = calls w @ [Av_write_frame c pkt])))"
  using assms
  by (auto simp: p2p_rtp_muxer_write_packet_def find_track_by_stream_def ext_int_def Let_def
      split: if_splits option.splits dest!: find_set)

theorem write_packet_routes_witness:
  "calls (snd (p2p_rtp_muxer_write_packet (\<lambda>_ _. (0, [])) 0 11
      (example_mux\<lparr>current_state := SENDER_STATE_STREAMING, selected_node := Some 1\<rparr>))) \<in> {[], [Av_write_frame 8 11]}"
proof -
  let ?w = "example_mux\<lparr>current_state := SENDER_STATE_STREAMING, selected_node := Some 1\<rparr>"
  have t: "track_caches (node_at ?w 1) = [2, 3]" "rtp_ctx (track_at ?w 3) = Some 8"
    "stream_index (track_at ?w 2) = - 1" "calls ?w = []" "selected_node ?w = Some 1"
    by (simp_all add: example_mux_def node_at_def track_at_def)
  show ?thesis
    using write_packet_routes [OF prod.collapse [symmetric], where E = "\<lambda>_ _. (0, [])" and sidx = 0
        and pkt = 11 and w = ?w] t by auto
qed

text \<open>When the muxer is initialised without an error the publisher is in the streaming state;
  a timeout is reported only when a wait timed out, and an external error only in the error state.\<close>

theorem muxer_init_outcome:
  assumes "p2p_rtp_muxer_init fuel E pr ws_env env w = Some (r, w')"
  shows "(is_ok r \<longrightarrow> current_state w' = SENDER_STATE_STREAMING)
     \<and> (r = Err AVERROR_EXTERNAL \<longrightarrow> current_state w' = SENDER_STATE_ERROR)
     \<and> (r = Err ETIMEDOUT \<longrightarrow> (\<exists>s k v. env s k v = (True, w')))"
proof -
  have wait: "(is_ok r \<longrightarrow> current_state w' = SENDER_STATE_STREAMING)
     \<and> (r = Err AVERROR_EXTERNAL \<longrightarrow> current_state w' = SENDER_STATE_ERROR)
     \<and> (r = Err ETIMEDOUT \<longrightarrow> (\<exists>s k v. env s k v = (True, w')))"
    if "mux_wait fuel (env s) k v = Some (r, w')" for fuel s k v
    using that
    by (induction fuel arbitrary: k v) (auto split: if_splits prod.splits)
  show ?thesis
    using assms wait
    by (auto simp: p2p_rtp_muxer_init_def p2p_set_signal_message_handler_def Let_def case_prod_beta
        split: option.splits if_splits)
qed

definition ws_opens :: "nat \<Rightarrow> mux \<Rightarrow> mux" where
  "ws_opens k w = on_ws_open_callback w"

definition receiver_selects :: "int \<Rightarrow> nat \<Rightarrow> mux \<Rightarrow> bool \<times> mux" where
  "receiver_selects s k w = (False, w\<lparr>current_state := SENDER_STATE_STREAMING\<rparr>)"

theorem muxer_init_outcome_witness:
  "\<exists>r w'. p2p_rtp_muxer_init 2 (\<lambda>_ _. (1, [])) (\<lambda>_. []) ws_opens receiver_selects example_mux = Some (r, w')
     \<and> current_state w' = SENDER_STATE_STREAMING"
proof -
  have "map_option (is_ok \<circ> fst) (p2p_rtp_muxer_init 2 (\<lambda>_ _. (1, [])) (\<lambda>_. []) ws_opens receiver_selects example_mux)
      = Some True"
    by code_simp
  then obtain r w' where w': "p2p_rtp_muxer_init 2 (\<lambda>_ _. (1, [])) (\<lambda>_. []) ws_opens receiver_selects example_mux = Some (r, w')"
      and r: "is_ok r" by auto
  from muxer_init_outcome [OF w'] r w' show ?thesis by auto
qed

text \<open>A stream request is refused, and nothing changes, for a peer that is not connected or
  whose tracks are missing; in particular a peer that is already selected cannot be served again.\<close>

theorem stream_request_refused:
  assumes "find_node (sender_id msg) w = Some n" "mtype msg = P2P_MSG_STREAM_REQUEST"
    and "status (node_at w n) \<noteq> Connected \<or> probe_track (node_at w n) = None
       \<or> (video_track (node_at w n) = None \<and> audio_track (node_at w n) = None)"
    and "payload_fits (mtype msg) (payload msg)"
  shows "p2p_rtp_mux_signal_handler E pr msg w = (Err EINVAL, w)"
  using assms
  by (cases "payload msg")
    (auto simp: p2p_rtp_mux_signal_handler_def mux_stream_request_def payload_fits_def Let_def)

theorem stream_request_refused_witness:
  "p2p_rtp_mux_signal_handler (\<lambda>_ _. (0, [])) (\<lambda>_. [])
     (p2p_create_signal_message P2P_MSG_STREAM_REQUEST (Some ''r'') None)
     (upd_node 1 (\<lambda>x. x\<lparr>status := Selected\<rparr>) example_mux)
   = (Err EINVAL, upd_node 1 (\<lambda>x. x\<lparr>status := Selected\<rparr>) example_mux)"
  by (rule stream_request_refused [where n = 1])
    (simp_all add: p2p_create_signal_message_def find_node_def example_mux_def node_at_def payload_fits_def)

end
