(* ===== verification/Receiver.thy ===== *)
theory Receiver
  imports Frames StateMachine NalScan
begin

text \<open>
  The receiver, \<^verbatim>\<open>libavformat/p2p_rtp_demux.c\<close>, first half: its state, its reaction to
  each signalling message, and the background thread that probes the publishers, selects one and
  asks it for the stream. Each handler is one atomic step; what other threads do while the
  thread sleeps is a parameter of its loops.
\<close>

section \<open>States\<close>

datatype ReceiverState =
    RECEIVER_STATE_IDLE | RECEIVER_STATE_JOINING_ROOM | RECEIVER_STATE_WAITING_FOR_SENDER
  | RECEIVER_STATE_SIGNALING | RECEIVER_STATE_P2P_CONNECTING | RECEIVER_STATE_DATACHANNEL_READY
  | RECEIVER_STATE_PROBING | RECEIVER_STATE_PROBE_COMPLETED | RECEIVER_STATE_REQUESTING_STREAM
  | RECEIVER_STATE_STREAMING | RECEIVER_STATE_ERROR

fun receiver_code :: "ReceiverState \<Rightarrow> nat" where
  "receiver_code RECEIVER_STATE_IDLE = 0"
| "receiver_code RECEIVER_STATE_JOINING_ROOM = 1"
| "receiver_code RECEIVER_STATE_WAITING_FOR_SENDER = 2"
| "receiver_code RECEIVER_STATE_SIGNALING = 3"
| "receiver_code RECEIVER_STATE_P2P_CONNECTING = 4"
| "receiver_code RECEIVER_STATE_DATACHANNEL_READY = 5"
| "receiver_code RECEIVER_STATE_PROBING = 6"
| "receiver_code RECEIVER_STATE_PROBE_COMPLETED = 7"
| "receiver_code RECEIVER_STATE_REQUESTING_STREAM = 8"
| "receiver_code RECEIVER_STATE_STREAMING = 9"
| "receiver_code RECEIVER_STATE_ERROR = 10"

lemma receiver_code_inj [simp]: "receiver_code p = receiver_code q \<longleftrightarrow> p = q"
  by (cases p; cases q) simp_all

instantiation ReceiverState :: linorder
begin

definition less_eq_ReceiverState :: "ReceiverState \<Rightarrow> ReceiverState \<Rightarrow> bool" where
  "p \<le> q \<longleftrightarrow> receiver_code p \<le> receiver_code q"

definition less_ReceiverState :: "ReceiverState \<Rightarrow> ReceiverState \<Rightarrow> bool" where
  "p < q \<longleftrightarrow> receiver_code p < receiver_code q"

instance
  by standard (auto simp: less_eq_ReceiverState_def less_ReceiverState_def)

end

lemmas receiver_order = less_eq_ReceiverState_def less_ReceiverState_def

lemma receiver_error_greatest: "q \<le> RECEIVER_STATE_ERROR"
  by (cases q) (simp_all add: receiver_order)

datatype SwitchTarget = SWITCH_NONE | SWITCH_TO_P2P | SWITCH_TO_CDN

datatype ActiveSource = ACTIVE_NONE | ACTIVE_CDN | ACTIVE_P2P

record P2PRtpDemuxSwitchState =
  active_source :: ActiveSource
  pending_switch :: SwitchTarget
  pending_pkt :: AVPacket
  pending_pkt_valid :: bool
  pending_pkt_from :: ActiveSource
  pending_pkt_out_stream_index :: int
  pending_pkt_src_tb :: "int \<times> int"

text \<open>
  The context of the demuxer. \<open>cdn_fmt_ctx\<close> is the handle of the inner WHEP demuxer;
  \<open>metadata\<close> holds the dictionaries of the RTP contexts, by handle.
\<close>

record demux = world +
  output_video_stream_index :: int
  output_audio_stream_index :: int
  cdn_url :: "string option"
  cdn_fmt_ctx :: "int option"
  cdn_video_stream_index :: int
  cdn_audio_stream_index :: int
  cdn_active :: bool
  last_p2p_packet_time :: int
  recv_state :: ReceiverState
  recv_enter_time :: int
  room :: "string option"
  recv_wait_timeout :: int
  p2p_transport_error_times :: int
  p2p_connect_thread_active :: bool
  p2p_connect_ready :: bool
  repair_rtp_pkt_host :: "string option"
  repair_rtp_pkt_port :: int
  repair_http_timeout_ms :: int
  sw :: P2PRtpDemuxSwitchState
  cdn_started :: bool
  metadata :: "int \<Rightarrow> (string \<times> string) list"

definition set_receiver_state :: "ext \<Rightarrow> ReceiverState \<Rightarrow> demux \<Rightarrow> demux" where
  "set_receiver_state E q w =
     (if recv_state w < q
      then let (now, w) = ext_int E Av_gettime w in w\<lparr>recv_state := q, recv_enter_time := now\<rparr>
      else w)"

lemma set_receiver_state_max: "recv_state (set_receiver_state E q w) = max (recv_state w) q"
  by (auto simp: set_receiver_state_def Let_def ext_int_def max_def)

interpretation receiver: forward_state recv_state "set_receiver_state E" for E
  by unfold_locales (rule set_receiver_state_max)

definition demux_pc_connected :: "ext \<Rightarrow> addr \<Rightarrow> demux \<Rightarrow> demux" where
  "demux_pc_connected E n w =
     (let (now, w) = ext_int E Av_gettime w;
          w = upd_node n (\<lambda>x. x\<lparr>network_quality := probe_data_init now\<rparr>) w
      in set_receiver_state E RECEIVER_STATE_DATACHANNEL_READY w)"

section \<open>Signalling messages\<close>

definition demux_room_joined :: "ext \<Rightarrow> string option \<Rightarrow> string option \<Rightarrow> demux \<Rightarrow> int res \<times> demux" where
  "demux_room_joined E rm lid w =
     (let w = (if rm \<noteq> None then w\<lparr>room_info_room_id := rm\<rparr> else w);
          w = (if lid \<noteq> None then w\<lparr>local_id := lid\<rparr> else w)
      in (Ok 0, set_receiver_state E RECEIVER_STATE_WAITING_FOR_SENDER w))"

text \<open>
  The connection is created for the sender of the request, and looked up under the target it
  names; when there is no such node the code dereferences NULL.
\<close>

definition demux_connect_request :: "ext \<Rightarrow> string option \<Rightarrow> string option \<Rightarrow> demux \<Rightarrow> int res \<times> demux" where
  "demux_connect_request E rid target w =
     (let (r, w) = (case find_node target w of
              Some n \<Rightarrow> (Ok (), w)
            | None \<Rightarrow> create_peer_connection E rid w)
      in case r of Inl e \<Rightarrow> (Err e, w) | Inr _ \<Rightarrow>
         (case find_node target w of
            None \<Rightarrow> (Err EINVAL, ext_do Abort w)
          | Some n \<Rightarrow>
              let w = snd (init_peer_connection E (pc_id (node_at w n)) w)
              in (Ok 0, set_receiver_state E RECEIVER_STATE_SIGNALING w)))"

definition demux_offer :: "ext \<Rightarrow> (json \<Rightarrow> string) \<Rightarrow> string option \<Rightarrow> string option \<Rightarrow> demux
    \<Rightarrow> int res \<times> demux" where
  "demux_offer E pr rid description w =
     (let (r, w) = (case find_node rid w of
              Some n \<Rightarrow> (Ok (), w)
            | None \<Rightarrow> create_peer_connection E rid w)
      in case r of Inl e \<Rightarrow> (Err e, w) | Inr _ \<Rightarrow>
         (case (find_node rid w, description) of
            (Some n, Some d) \<Rightarrow>
              let w = ext_do (RtcSetRemoteDescription (pc_id (node_at w n)) d ''offer'') w;
                  w = snd (init_peer_connection E (pc_id (node_at w n)) w);
                  w = snd (send_local_description E pr n ''answer'' w)
              in (Ok 0, set_receiver_state E RECEIVER_STATE_SIGNALING w)
          | _ \<Rightarrow> (Ok 0, w)))"

definition demux_answer :: "string option \<Rightarrow> string option \<Rightarrow> demux \<Rightarrow> int res \<times> demux" where
  "demux_answer rid description w =
     (case (find_node rid w, description) of
        (Some n, Some d) \<Rightarrow> (Ok 0, ext_do (RtcSetRemoteDescription (pc_id (node_at w n)) d ''answer'') w)
      | _ \<Rightarrow> (Err EINVAL, w))"

definition demux_candidate :: "string option \<Rightarrow> string option \<Rightarrow> string option \<Rightarrow> demux
    \<Rightarrow> int res \<times> demux" where
  "demux_candidate rid cand mid w =
     (case (find_node rid w, cand, mid) of
        (Some n, Some c, Some m) \<Rightarrow> (Ok 0, ext_do (RtcAddRemoteCandidate (pc_id (node_at w n)) c m) w)
      | _ \<Rightarrow> (Err EINVAL, w))"

definition demux_stream_ready :: "ext \<Rightarrow> string option \<Rightarrow> demux \<Rightarrow> int res \<times> demux" where
  "demux_stream_ready E rid w =
     (if find_node rid w \<noteq> None \<and> find_node rid w = selected_node w
      then (Ok 0, set_receiver_state E RECEIVER_STATE_STREAMING w)
      else (Ok 0, w))"

definition p2p_rtp_demux_signal_handler :: "ext \<Rightarrow> (json \<Rightarrow> string) \<Rightarrow> P2PSignalMessage \<Rightarrow> demux
    \<Rightarrow> int res \<times> demux" where
  "p2p_rtp_demux_signal_handler E pr msg w =
     (let rid = sender_id msg
      in case (mtype msg, payload msg) of
           (P2P_MSG_ROOM_JOINED, P_room_joined rm role lid) \<Rightarrow> demux_room_joined E rm lid w
         | (P2P_MSG_CONNECT_REQUEST, P_connect_request target) \<Rightarrow> demux_connect_request E rid target w
         | (P2P_MSG_OFFER, P_description d) \<Rightarrow> demux_offer E pr rid d w
         | (P2P_MSG_ANSWER, P_description d) \<Rightarrow> demux_answer rid d w
         | (P2P_MSG_CANDIDATE, P_candidate c m) \<Rightarrow> demux_candidate rid c m w
         | (P2P_MSG_STREAM_READY, P_stream_ready s) \<Rightarrow> demux_stream_ready E rid w
         | (P2P_MSG_ERROR, P_error c m) \<Rightarrow> (Ok 0, set_receiver_state E RECEIVER_STATE_ERROR w)
         | _ \<Rightarrow> (Ok 0, w))"

definition p2p_join_room_as_receiver :: "ext \<Rightarrow> (json \<Rightarrow> string) \<Rightarrow> string option \<Rightarrow> demux
    \<Rightarrow> int res \<times> demux" where
  "p2p_join_room_as_receiver E pr rm w =
     p2p_send_signal_message E pr (Some ((p2p_create_signal_message P2P_MSG_JOIN_ROOM (local_id w) None)
       \<lparr>payload := P_join_room (Some (case rm of None \<Rightarrow> ''default_room'' | Some r \<Rightarrow> r))
          (Some ''receiver'') (Some ''video:h264,h265;audio:aac,opus;max_bitrate:10000kbps'')\<rparr>)) w"

section \<open>Probing, selecting and requesting\<close>

text \<open>The cached nodes whose connection is established.\<close>

definition connected_nodes :: "demux \<Rightarrow> addr list" where
  "connected_nodes w = filter (\<lambda>n. status (node_at w n) = Connected) (peer_connection_node_caches w)"

fun init_probe_data :: "ext \<Rightarrow> addr list \<Rightarrow> demux \<Rightarrow> demux" where
  "init_probe_data E [] w = w"
| "init_probe_data E (n # ns) w =
     (let (now, w) = ext_int E Av_gettime w
      in init_probe_data E ns (upd_node n (\<lambda>x. x\<lparr>network_quality := probe_data_init now\<rparr>) w))"

text \<open>The number of requests sent, and the state.\<close>

fun send_probe_requests :: "ext \<Rightarrow> (json \<Rightarrow> string) \<Rightarrow> addr list \<Rightarrow> demux \<Rightarrow> nat \<times> demux" where
  "send_probe_requests E pr [] w = (0, w)"
| "send_probe_requests E pr (n # ns) w =
     (let (r, w) = send_probe_request_to_publisher E pr n w;
          (k, w) = send_probe_requests E pr ns w
      in (if is_ok r then Suc k else k, w))"

text \<open>
  The turn of the thread in \<open>DATACHANNEL_READY\<close>. \<open>None\<close>: no request could be sent, and the loop
  that waits for that to change never looks again.
\<close>

definition datachannel_ready :: "ext \<Rightarrow> (json \<Rightarrow> string) \<Rightarrow> demux \<Rightarrow> demux option" where
  "datachannel_ready E pr w =
     (let ns = connected_nodes w; w = init_probe_data E ns w
      in if ns = [] then Some (ext_do (Av_usleep 100000) w)
         else let (sent, w) = send_probe_requests E pr ns w
         in if sent = 0 then None
            else Some (set_receiver_state E RECEIVER_STATE_PROBING w))"

text \<open>One look at the nodes: \<open>completed\<close> of \<open>total\<close> connected nodes are done.\<close>

fun poll_nodes :: "int \<Rightarrow> addr list \<Rightarrow> demux \<Rightarrow> nat \<times> nat \<times> demux" where
  "poll_nodes now [] w = (0, 0, w)"
| "poll_nodes now (n # ns) w =
     (let q = network_quality (node_at w n);
          timed_out = (timeout_ms q > 0 \<and> probe_start_time q > 0
                       \<and> c_div (now - probe_start_time q) 1000 \<ge> timeout_ms q);
          complete = (phase q = PROBING_COMPLETE);
          w = (if \<not> complete \<and> timed_out
               then upd_node n (\<lambda>x. x\<lparr>network_quality := (network_quality x)\<lparr>phase := PROBING_COMPLETE\<rparr>\<rparr>) w
               else w);
          (total, completed, w) = poll_nodes now ns w
      in (Suc total, if complete \<or> timed_out then Suc completed else completed, w))"

definition force_complete :: "addr list \<Rightarrow> demux \<Rightarrow> demux" where
  "force_complete ns w =
     fold (\<lambda>n. upd_node n (\<lambda>x. x\<lparr>network_quality := (network_quality x)\<lparr>phase := PROBING_COMPLETE\<rparr>\<rparr>)) ns w"

text \<open>
  The loop in \<open>PROBING\<close>, until the state changes, every node is done or 30 seconds have
  passed. The result has the error of an early return, the number of sleeps so far and the state;
  \<open>env k\<close> is what other threads do during the \<open>k\<close>-th sleep.
\<close>

fun probing_loop :: "nat \<Rightarrow> ext \<Rightarrow> (nat \<Rightarrow> demux \<Rightarrow> demux) \<Rightarrow> nat \<Rightarrow> int \<Rightarrow> demux
    \<Rightarrow> (averror option \<times> nat \<times> demux) option" where
  "probing_loop 0 E env k start w = None"
| "probing_loop (Suc fuel) E env k start w =
     (if recv_state w \<noteq> RECEIVER_STATE_PROBING then Some (None, k, w)
      else let (now, w) = ext_int E Av_gettime w
      in if now - start > 30 * 1000000
         then Some (None, k, force_complete (connected_nodes w) w)
         else let (total, completed, w) = poll_nodes now (connected_nodes w) w
         in if total = 0 then Some (Some EINVAL, k, set_receiver_state E RECEIVER_STATE_ERROR w)
            else if completed \<ge> total then Some (None, k, w)
            else probing_loop fuel E env (Suc k) start (env k (ext_do (Av_usleep 100000) w)))"

definition probe_completed :: "ext \<Rightarrow> demux \<Rightarrow> averror option \<times> demux" where
  "probe_completed E w =
     (if filter (\<lambda>n. phase (network_quality (node_at w n)) = PROBING_COMPLETE) (connected_nodes w) = []
      then (Some EINVAL, set_receiver_state E RECEIVER_STATE_ERROR w)
      else let (best, w) = select_best_node w
      in case best of
           None \<Rightarrow> (Some EINVAL, set_receiver_state E RECEIVER_STATE_ERROR w)
         | Some n \<Rightarrow>
             let w = w\<lparr>selected_node := Some n\<rparr>;
                 w = upd_node n (\<lambda>x. x\<lparr>status := Selected\<rparr>) w
             in (None, set_receiver_state E RECEIVER_STATE_REQUESTING_STREAM w))"

definition requesting_stream :: "ext \<Rightarrow> (json \<Rightarrow> string) \<Rightarrow> demux \<Rightarrow> averror option \<times> demux" where
  "requesting_stream E pr w =
     (if selected_node w = None then (Some EINVAL, set_receiver_state E RECEIVER_STATE_ERROR w)
      else let (r, w) = send_stream_request E pr (selected_node w) w
      in case r of
           Inl e \<Rightarrow> (Some e, set_receiver_state E RECEIVER_STATE_ERROR w)
         | Inr _ \<Rightarrow> (None, ext_do (Av_usleep 100000) w))"

text \<open>
  The loop of the thread. After each turn that does not return, \<open>env k\<close> is what the other
  threads did meanwhile. \<open>None\<close> for every fuel: the function does not return.
\<close>

fun pending_loop :: "nat \<Rightarrow> ext \<Rightarrow> (json \<Rightarrow> string) \<Rightarrow> (nat \<Rightarrow> demux \<Rightarrow> demux) \<Rightarrow> nat \<Rightarrow> int \<Rightarrow> demux
    \<Rightarrow> (int res \<times> demux) option" where
  "pending_loop 0 E pr env k start w = None"
| "pending_loop (Suc fuel) E pr env k start w =
     (if recv_state w = RECEIVER_STATE_STREAMING then Some (Ok 0, w)
      else let (now, w) = ext_int E Av_gettime w
      in if now - start > recv_wait_timeout w * 1000000 then Some (Err ETIMEDOUT, w)
      else if recv_state w = RECEIVER_STATE_ERROR then Some (Err AVERROR_EXTERNAL, w)
      else if recv_state w = RECEIVER_STATE_DATACHANNEL_READY then
        (case datachannel_ready E pr w of None \<Rightarrow> None
         | Some w \<Rightarrow> pending_loop fuel E pr env (Suc k) start (env k w))
      else if recv_state w = RECEIVER_STATE_PROBING then
        (case probing_loop fuel E env k (recv_enter_time w) w of None \<Rightarrow> None
         | Some (Some e, k, w) \<Rightarrow> Some (Err e, w)
         | Some (None, k, w) \<Rightarrow>
             let w = (if recv_state w = RECEIVER_STATE_PROBING
                      then set_receiver_state E RECEIVER_STATE_PROBE_COMPLETED w else w)
             in pending_loop fuel E pr env (Suc k) start (env k w))
      else if recv_state w = RECEIVER_STATE_PROBE_COMPLETED then
        (case probe_completed E w of
           (Some e, w) \<Rightarrow> Some (Err e, w)
         | (None, w) \<Rightarrow> pending_loop fuel E pr env (Suc k) start (env k w))
      else if recv_state w = RECEIVER_STATE_REQUESTING_STREAM then
        (case requesting_stream E pr w of
           (Some e, w) \<Rightarrow> Some (Err e, w)
         | (None, w) \<Rightarrow> pending_loop fuel E pr env (Suc k) start (env k w))
      else pending_loop fuel E pr env (Suc k) start (env k (ext_do (Av_usleep 100000) w)))"

definition p2p_pending_for_probing_node :: "nat \<Rightarrow> ext \<Rightarrow> (json \<Rightarrow> string) \<Rightarrow> (nat \<Rightarrow> demux \<Rightarrow> demux)
    \<Rightarrow> demux \<Rightarrow> (int res \<times> demux) option" where
  "p2p_pending_for_probing_node fuel E pr env w =
     (let (start, w) = ext_int E Av_gettime w in pending_loop fuel E pr env 0 start w)"

definition p2p_connect_thread_fn :: "nat \<Rightarrow> ext \<Rightarrow> (json \<Rightarrow> string) \<Rightarrow> (nat \<Rightarrow> demux \<Rightarrow> demux) \<Rightarrow> demux
    \<Rightarrow> demux option" where
  "p2p_connect_thread_fn fuel E pr env w =
     map_option (\<lambda>(r, w). w\<lparr>p2p_connect_ready := (r = Ok 0 \<or> p2p_connect_ready w),
         p2p_connect_thread_active := False\<rparr>)
       (p2p_pending_for_probing_node fuel E pr env w)"

section \<open>The receiver's own state\<close>

lemma recv_state_frame: "own v = own w \<Longrightarrow> recv_state v = recv_state (w :: demux)"
  by (drule ownD(1), cases v, cases w) simp

lemma recv_frames [simp]:
  fixes w :: demux
  shows "recv_state (snd (create_peer_connection E rid w)) = recv_state w"
    and "recv_state (snd (init_peer_connection E pc w)) = recv_state w"
    and "recv_state (snd (send_local_description E pr n role w)) = recv_state w"
    and "recv_state (snd (p2p_send_signal_message E pr m w)) = recv_state w"
    and "recv_state (snd (send_probe_request_to_publisher E pr n w)) = recv_state w"
    and "recv_state (snd (send_stream_request E pr node w)) = recv_state w"
    and "recv_state (upd_node n f w) = recv_state w"
    and "recv_state (ext_do c w) = recv_state w"
    and "recv_state (snd (ext_int E c w)) = recv_state w"
  by (rule recv_state_frame, simp add: frame_simps)+

lemma own_select_loop [frame_simps]: "own (snd (select_loop ns b s w)) = own w"
  by (induction ns arbitrary: b s w) (simp_all add: Let_def case_prod_beta frame_simps)

lemma own_select [frame_simps]: "own (snd (select_best_node w)) = own w"
  by (simp add: select_best_node_def frame_simps)

lemma own_init_probe_data [frame_simps]: "own (init_probe_data E ns w) = own w"
  by (induction ns arbitrary: w) (simp_all add: Let_def case_prod_beta frame_simps)

lemma own_send_probe_requests [frame_simps]: "own (snd (send_probe_requests E pr ns w)) = own w"
  by (induction ns arbitrary: w) (simp_all add: Let_def case_prod_beta frame_simps)

lemma own_poll [frame_simps]: "own (snd (snd (poll_nodes now ns w))) = own w"
  by (induction ns arbitrary: w) (simp_all add: Let_def case_prod_beta frame_simps)

lemma own_force [frame_simps]: "own (force_complete ns w) = own w"
  by (induction ns arbitrary: w) (simp_all add: force_complete_def frame_simps)

lemma recv_frames_probing [simp]:
  fixes w :: demux
  shows "recv_state (snd (select_best_node w)) = recv_state w"
    and "recv_state (init_probe_data E ns w) = recv_state w"
    and "recv_state (snd (send_probe_requests E pr ns w)) = recv_state w"
    and "recv_state (snd (snd (poll_nodes now ns w))) = recv_state w"
    and "recv_state (force_complete ns w) = recv_state w"
  by (rule recv_state_frame, simp add: frame_simps)+

lemma selected_frames [simp]:
  fixes w :: demux
  shows "selected_node (snd (create_peer_connection E rid w)) = selected_node w"
    and "selected_node (snd (init_peer_connection E pc w)) = selected_node w"
    and "selected_node (snd (send_local_description E pr n role w)) = selected_node w"
    and "selected_node (snd (ext_int E c w)) = selected_node w"
    and "selected_node (init_probe_data E ns w) = selected_node w"
    and "selected_node (snd (send_probe_requests E pr ns w)) = selected_node w"
    and "selected_node (snd (snd (poll_nodes now ns w))) = selected_node w"
    and "selected_node (snd (send_stream_request E pr node w)) = selected_node w"
    and "selected_node (force_complete ns w) = selected_node w"
  by (rule ownD(2), simp add: frame_simps)+

lemma selected_set_state [simp]: "selected_node (set_receiver_state E q w) = selected_node w"
  by (simp add: set_receiver_state_def Let_def case_prod_beta)

text \<open>The state a message leads to, where it leads to one.\<close>

fun recv_goal :: "P2PMessageType \<Rightarrow> ReceiverState option" where
  "recv_goal P2P_MSG_ROOM_JOINED = Some RECEIVER_STATE_WAITING_FOR_SENDER"
| "recv_goal P2P_MSG_CONNECT_REQUEST = Some RECEIVER_STATE_SIGNALING"
| "recv_goal P2P_MSG_OFFER = Some RECEIVER_STATE_SIGNALING"
| "recv_goal P2P_MSG_STREAM_READY = Some RECEIVER_STATE_STREAMING"
| "recv_goal P2P_MSG_ERROR = Some RECEIVER_STATE_ERROR"
| "recv_goal _ = None"

lemma demux_connect_state:
  "recv_state (snd (demux_connect_request E rid target w))
     \<in> {recv_state w, max (recv_state w) RECEIVER_STATE_SIGNALING}"
  by (simp add: demux_connect_request_def Let_def case_prod_beta set_receiver_state_max
      split: sum.split option.split)

lemma demux_offer_state:
  "recv_state (snd (demux_offer E pr rid d w)) \<in> {recv_state w, max (recv_state w) RECEIVER_STATE_SIGNALING}"
  by (simp add: demux_offer_def Let_def case_prod_beta set_receiver_state_max split: sum.split option.split)

lemma demux_handler_state:
  "recv_state (snd (p2p_rtp_demux_signal_handler E pr msg w)) = recv_state w
   \<or> (\<exists>q. recv_goal (mtype msg) = Some q
        \<and> recv_state (snd (p2p_rtp_demux_signal_handler E pr msg w)) = max (recv_state w) q)"
  using demux_connect_state [of E "sender_id msg" _ w] demux_offer_state [of E pr "sender_id msg" _ w]
  by (cases "mtype msg"; cases "payload msg")
    (auto simp: p2p_rtp_demux_signal_handler_def demux_room_joined_def demux_answer_def demux_candidate_def
      demux_stream_ready_def set_receiver_state_max Let_def split: option.split)

lemma demux_handler_selected:
  "selected_node (snd (p2p_rtp_demux_signal_handler E pr msg w)) = selected_node w"
  by (cases "mtype msg"; cases "payload msg")
    (auto simp: p2p_rtp_demux_signal_handler_def demux_room_joined_def demux_answer_def demux_candidate_def
      demux_connect_request_def demux_offer_def demux_stream_ready_def Let_def case_prod_beta
      split: option.split sum.split)

section \<open>Steps of the receiver\<close>

text \<open>
  What can happen to the receiver, in any order: a signalling message is handled, a connection
  is reported, and the turns of the background thread, each in its state.
\<close>

inductive recv_step :: "ext \<Rightarrow> (json \<Rightarrow> string) \<Rightarrow> demux \<Rightarrow> demux \<Rightarrow> bool" for E pr where
  Message: "recv_step E pr w (snd (p2p_rtp_demux_signal_handler E pr msg w))"
| Connected: "recv_step E pr w (demux_pc_connected E n w)"
| Ready: "recv_state w = RECEIVER_STATE_DATACHANNEL_READY \<Longrightarrow> datachannel_ready E pr w = Some w'
    \<Longrightarrow> recv_step E pr w w'"
| Poll: "recv_state w = RECEIVER_STATE_PROBING
    \<Longrightarrow> recv_step E pr w (snd (snd (poll_nodes now (connected_nodes w) w)))"
| Force: "recv_state w = RECEIVER_STATE_PROBING \<Longrightarrow> recv_step E pr w (force_complete (connected_nodes w) w)"
| Probed: "recv_state w = RECEIVER_STATE_PROBING
    \<Longrightarrow> recv_step E pr w (set_receiver_state E RECEIVER_STATE_PROBE_COMPLETED w)"
| Completed: "recv_state w = RECEIVER_STATE_PROBE_COMPLETED \<Longrightarrow> recv_step E pr w (snd (probe_completed E w))"
| Requesting: "recv_state w = RECEIVER_STATE_REQUESTING_STREAM
    \<Longrightarrow> recv_step E pr w (snd (requesting_stream E pr w))"
| Failed: "recv_step E pr w (set_receiver_state E RECEIVER_STATE_ERROR w)"

lemma datachannel_ready_state:
  "datachannel_ready E pr w = Some w' \<Longrightarrow> recv_state w' \<in> {recv_state w, max (recv_state w) RECEIVER_STATE_PROBING}
     \<and> selected_node w' = selected_node w"
  by (auto simp: datachannel_ready_def Let_def case_prod_beta set_receiver_state_max split: if_splits)

lemma probe_completed_state:
  "recv_state (snd (probe_completed E w)) = max (recv_state w)
     (if fst (probe_completed E w) = None then RECEIVER_STATE_REQUESTING_STREAM else RECEIVER_STATE_ERROR)
   \<and> (fst (probe_completed E w) = None \<longrightarrow> selected_node (snd (probe_completed E w)) \<noteq> None)"
  by (simp add: probe_completed_def Let_def case_prod_beta set_receiver_state_max split: option.split)

lemma requesting_stream_state:
  "recv_state (snd (requesting_stream E pr w)) = (if fst (requesting_stream E pr w) = None
     then recv_state w else RECEIVER_STATE_ERROR)
   \<and> selected_node (snd (requesting_stream E pr w)) = selected_node w"
  using receiver_error_greatest [of "recv_state w"]
  by (auto simp: requesting_stream_def Let_def case_prod_beta set_receiver_state_max max_def split: sum.split)

text \<open>A receiver that asks for a stream or receives one has selected a node.\<close>

definition recv_ok :: "demux \<Rightarrow> bool" where
  "recv_ok w \<longleftrightarrow> (recv_state w \<in> {RECEIVER_STATE_REQUESTING_STREAM, RECEIVER_STATE_STREAMING}
     \<longrightarrow> selected_node w \<noteq> None)"

lemma message_ok:
  assumes "recv_ok w"
  shows "recv_ok (snd (p2p_rtp_demux_signal_handler E pr msg w))"
proof (cases "recv_goal (mtype msg) = Some RECEIVER_STATE_STREAMING")
  case True
  then have "mtype msg = P2P_MSG_STREAM_READY" by (cases "mtype msg") simp_all
  then show ?thesis
    using assms by (cases "payload msg"; cases "selected_node w")
      (auto simp: p2p_rtp_demux_signal_handler_def demux_stream_ready_def recv_ok_def Let_def)
next
  case False
  then have "recv_goal (mtype msg) = Some q \<Longrightarrow> q \<notin> {RECEIVER_STATE_REQUESTING_STREAM, RECEIVER_STATE_STREAMING}" for q
    by (cases "mtype msg") auto
  with demux_handler_state [of E pr msg w] assms show ?thesis
    by (auto simp: recv_ok_def demux_handler_selected max_def split: if_splits)
qed

lemma recv_step_mono: "recv_step E pr w w' \<Longrightarrow> recv_state w \<le> recv_state w'"
proof (induction rule: recv_step.induct)
  case (Message w msg)
  then show ?case using demux_handler_state [of E pr msg w] by auto
next
  case (Ready w w')
  then show ?case using datachannel_ready_state by fastforce
next
  case (Requesting w)
  then show ?case using requesting_stream_state [of E pr w] receiver_error_greatest by auto
qed (simp_all add: demux_pc_connected_def Let_def case_prod_beta set_receiver_state_max probe_completed_state)

lemma recv_step_ok: "recv_step E pr w w' \<Longrightarrow> recv_ok w \<Longrightarrow> recv_ok w'"
proof (induction rule: recv_step.induct)
  case (Message w msg)
  then show ?case by (intro message_ok)
next
  case (Ready w w')
  then show ?case using datachannel_ready_state [of E pr w w'] by (auto simp: recv_ok_def max_def split: if_splits)
next
  case (Completed w)
  then show ?case using probe_completed_state [of E w] by (auto simp: recv_ok_def max_def receiver_order split: if_splits)
next
  case (Requesting w)
  then show ?case using requesting_stream_state [of E pr w] by (auto simp: recv_ok_def)
qed (auto simp: recv_ok_def demux_pc_connected_def Let_def case_prod_beta set_receiver_state_max max_def
    split: if_splits)

section \<open>Nodes that are not there\<close>

lemma not_found_iff:
  "find_node (Some t) w = None \<longleftrightarrow> (\<forall>x \<in> set (peer_connection_node_caches w). remote_id (node_at w x) \<noteq> Some t)"
  by (auto simp: find_node_def find_None_iff)

lemma node_at_free_node: "node_at (free_node u w) x = (if x = u then zero_node else node_at w x)"
  by (simp add: node_at_def free_node_def)

lemma append_not_found:
  assumes "find_node (Some t) w = None" "remote_id (node_at w n) \<noteq> Some t"
  shows "find_node (Some t) (append_node n w) = None"
proof (cases "find_node (remote_id (node_at w n)) w")
  case None
  have "nodes (append_node n w) = nodes w" by (simp add: append_node_def None)
  then have "node_at (append_node n w) = node_at w" by (simp add: fun_eq_iff node_at_def)
  with None assms show ?thesis by (auto simp: not_found_iff append_node_def)
next
  case (Some u)
  let ?l = "remove_first (\<lambda>a. remote_id (node_at w a) = remote_id (node_at w n)) (peer_connection_node_caches w)"
  have at: "node_at (append_node n w) x = (if x = u then zero_node else node_at w x)" for x
    by (simp add: append_node_def Some node_at_free_node) (simp add: node_at_def)
  have c: "peer_connection_node_caches (append_node n w) = ?l @ [n]"
    by (simp add: append_node_def Some free_node_def)
  have "x \<in> set (peer_connection_node_caches w) \<or> x = n" if "x \<in> set (?l @ [n])" for x
    using that by (auto dest: remove_first_sound)
  with assms show ?thesis
    unfolding not_found_iff c at by (auto simp: zero_node_def)
qed

lemma create_not_found:
  assumes "find_node (Some t) w = None" "rid \<noteq> Some t"
  shows "find_node (Some t) (snd (create_peer_connection E rid w)) = None"
proof -
  have same: "find_node (Some t) v = None"
    if "nodes v = nodes w" "peer_connection_node_caches v = peer_connection_node_caches w" for v :: "'a world_scheme"
    using assms(1) that by (simp add: not_found_iff node_at_def)
  let ?a = "next_addr w" and ?pc = "fst (ext_int E RtcCreatePeerConnection w)"
  let ?u = "snd (ext_int E RtcCreatePeerConnection w)"
  let ?v = "upd_node ?a (\<lambda>x. x\<lparr>status := Disconnected, pc_id := ?pc, remote_id := rid\<rparr>)
      ((snd (ext_int E Av_mallocz ?u))\<lparr>nodes := (nodes w)(?a \<mapsto> zero_node), next_addr := ?a + 1\<rparr>)"
  have at: "node_at ?v x = (if x = ?a then zero_node\<lparr>status := Disconnected, pc_id := ?pc, remote_id := rid\<rparr>
      else node_at w x)" for x
    by (simp add: node_at_def)
  have "find_node (Some t) ?v = None"
    using assms unfolding not_found_iff at by auto
  moreover have "remote_id (node_at ?v ?a) \<noteq> Some t" using assms(2) unfolding at by simp
  ultimately have "find_node (Some t) (append_node ?a ?v) = None" by (rule append_not_found)
  then show ?thesis
    by (auto simp: create_peer_connection_def alloc_node_def Let_def case_prod_beta intro!: same)
qed

section \<open>The loops of the thread\<close>

lemma calls_poll [simp]: "calls (snd (snd (poll_nodes now ns w))) = calls w"
  by (induction ns arbitrary: w) (simp_all add: Let_def case_prod_beta)

lemma probing_loop_error:
  "probing_loop fuel E env k start w = Some (Some e, k', w') \<Longrightarrow> recv_state w' = RECEIVER_STATE_ERROR"
proof (induction fuel arbitrary: k w)
  case (Suc fuel)
  then show ?case
    using receiver_error_greatest
    by (auto simp: Let_def case_prod_beta set_receiver_state_max max_def split: if_splits)
qed simp

lemma pending_loop_outcome:
  "pending_loop fuel E pr env k start w = Some (r, w')
   \<Longrightarrow> (is_ok r \<longrightarrow> r = Ok 0 \<and> recv_state w' = RECEIVER_STATE_STREAMING)
     \<and> (\<not> is_ok r \<and> r \<noteq> Err ETIMEDOUT \<longrightarrow> recv_state w' = RECEIVER_STATE_ERROR)"
proof (induction fuel arbitrary: k w)
  case (Suc fuel)
  let ?v = "snd (ext_int E Av_gettime w)"
  have c: "recv_state (snd (probe_completed E ?v)) = RECEIVER_STATE_ERROR" if "fst (probe_completed E ?v) \<noteq> None"
    using that probe_completed_state [of E ?v] receiver_error_greatest [of "recv_state ?v"]
    by (auto simp: max_def)
  have q: "recv_state (snd (requesting_stream E pr ?v)) = RECEIVER_STATE_ERROR" if "fst (requesting_stream E pr ?v) \<noteq> None"
    using that requesting_stream_state [of E pr ?v] by (auto split: if_splits)
  from Suc.prems show ?case
    by (auto simp: Let_def case_prod_beta c q dest: probing_loop_error dest!: Suc.IH
        split: if_splits option.splits prod.splits)
qed simp

section \<open>An example\<close>

text \<open>A receiver that has probed: one node is connected and received nothing, another has the
  better score, but its connection has failed.\<close>

definition example_sw :: P2PRtpDemuxSwitchState where
  "example_sw = \<lparr>active_source = ACTIVE_NONE, pending_switch = SWITCH_NONE,
     pending_pkt = \<lparr>pkt_data = [], pkt_stream = 0, pkt_key = False, pkt_pts = 0, pkt_dts = 0, pkt_duration = 0\<rparr>,
     pending_pkt_valid = False, pending_pkt_from = ACTIVE_NONE, pending_pkt_out_stream_index = 0,
     pending_pkt_src_tb = (0, 0)\<rparr>"

definition example_demux :: demux where
  "example_demux = \<lparr>calls = [], nodes = [2 \<mapsto> zero_node\<lparr>pc_id := 5, remote_id := Some ''s'',
       status := Connected, network_quality := zero_metrics\<lparr>phase := PROBING_COMPLETE\<rparr>\<rparr>,
       3 \<mapsto> zero_node\<lparr>pc_id := 6, remote_id := Some ''t'', status := Failed,
         network_quality := zero_metrics\<lparr>packets_received := 1, rtt_count := 1\<rparr>\<rparr>],
     tracks = Map.empty, next_addr = 4, streams = [], local_id = Some ''r'', web_socket = 7,
     web_socket_connected = 1, web_socket_server = None, room_info_room_id = None,
     peer_connection_node_caches = [2, 3], selected_node = None, signal_callbacks = True, config = [],
     output_video_stream_index = - 1, output_audio_stream_index = - 1, cdn_url = None,
     cdn_fmt_ctx = None, cdn_video_stream_index = - 1, cdn_audio_stream_index = - 1,
     cdn_active = False, last_p2p_packet_time = 0, recv_state = RECEIVER_STATE_PROBE_COMPLETED,
     recv_enter_time = 0, room = None, recv_wait_timeout = 10, p2p_transport_error_times = 0,
     p2p_connect_thread_active = True, p2p_connect_ready = False, repair_rtp_pkt_host = None,
     repair_rtp_pkt_port = 1985, repair_http_timeout_ms = 800, sw = example_sw, cdn_started = False,
     metadata = (\<lambda>_. [])\<rparr>"

lemma example_demux_nodes:
  "node_at example_demux 2 = zero_node\<lparr>pc_id := 5, remote_id := Some ''s'',
       status := Connected, network_quality := zero_metrics\<lparr>phase := PROBING_COMPLETE\<rparr>\<rparr>"
  "node_at example_demux 3 = zero_node\<lparr>pc_id := 6, remote_id := Some ''t'', status := Failed,
         network_quality := zero_metrics\<lparr>packets_received := 1, rtt_count := 1\<rparr>\<rparr>"
  "peer_connection_node_caches example_demux = [2, 3]"
  by (simp_all add: example_demux_def node_at_def)

section \<open>Properties\<close>



text \<open>C6. The receiver starts streaming only for a stream-ready message of the node it has
  selected; nothing is sent in answer.\<close>

theorem receiver_streaming_gate:
  assumes "p2p_rtp_demux_signal_handler E pr msg w = (r, w')"
    and "recv_state w < RECEIVER_STATE_STREAMING" "recv_state w' = RECEIVER_STATE_STREAMING"
  shows "r = Ok 0 \<and> mtype msg = P2P_MSG_STREAM_READY \<and> selected_node w \<noteq> None
    \<and> find_node (sender_id msg) w = selected_node w \<and> calls w' = calls w @ [Av_gettime]"
proof -
  have "recv_goal (mtype msg) = Some RECEIVER_STATE_STREAMING"
    using demux_handler_state [of E pr msg w] assms by (auto simp: max_def split: if_splits)
  then have ty: "mtype msg = P2P_MSG_STREAM_READY" by (cases "mtype msg") simp_all
  show ?thesis
    using assms ty by (cases "payload msg"; cases "selected_node w")
      (auto simp: p2p_rtp_demux_signal_handler_def demux_stream_ready_def set_receiver_state_def
        Let_def case_prod_beta split: if_splits)
qed

theorem receiver_streaming_gate_witness:
  "calls (snd (p2p_rtp_demux_signal_handler (\<lambda>_ _. (0, [])) (\<lambda>_. [])
     (p2p_create_signal_message P2P_MSG_STREAM_READY (Some ''t'') None)
     (example_demux\<lparr>selected_node := Some 3, recv_state := RECEIVER_STATE_REQUESTING_STREAM\<rparr>))) = [Av_gettime]"
proof -
  let ?m = "p2p_create_signal_message P2P_MSG_STREAM_READY (Some ''t'') None"
  let ?w = "example_demux\<lparr>selected_node := Some 3, recv_state := RECEIVER_STATE_REQUESTING_STREAM\<rparr>"
  have f: "find_node (Some ''t'') ?w = Some 3" by (simp add: find_node_def example_demux_def node_at_def)
  have "recv_state (snd (p2p_rtp_demux_signal_handler (\<lambda>_ _. (0, [])) (\<lambda>_. []) ?m ?w)) = RECEIVER_STATE_STREAMING"
    by (simp add: p2p_rtp_demux_signal_handler_def demux_stream_ready_def p2p_create_signal_message_def f
        set_receiver_state_max) (simp add: example_demux_def max_def receiver_order)
  moreover have "calls ?w = []" by (simp add: example_demux_def)
  ultimately show ?thesis
    using receiver_streaming_gate [OF prod.collapse [symmetric], where E = "\<lambda>_ _. (0, [])"
        and pr = "\<lambda>_. []" and msg = ?m and w = ?w]
    by (simp add: receiver_order)
qed

text \<open>A connect request for a target without a node that is not the sender ends the process: the
  connection is created under the id of the sender and then looked up under the target.\<close>

theorem connect_request_for_other_aborts:
  assumes "mtype msg = P2P_MSG_CONNECT_REQUEST" "payload msg = P_connect_request (Some t)"
    and "find_node (Some t) w = None" "sender_id msg \<noteq> Some t"
    and "create_peer_connection E (sender_id msg) w = (Ok (), v)"
  shows "p2p_rtp_demux_signal_handler E pr msg w = (Err EINVAL, ext_do Abort v)"
  using create_not_found [OF assms(3,4), of E] assms
  by (simp add: p2p_rtp_demux_signal_handler_def demux_connect_request_def Let_def)

theorem connect_request_for_other_aborts_witness:
  "last (calls (snd (p2p_rtp_demux_signal_handler (\<lambda>_ _. (6, [])) (\<lambda>_. [])
     ((p2p_create_signal_message P2P_MSG_CONNECT_REQUEST (Some ''server'') None)
        \<lparr>payload := P_connect_request (Some ''u'')\<rparr>) example_demux))) = Abort"
proof -
  let ?m = "(p2p_create_signal_message P2P_MSG_CONNECT_REQUEST (Some ''server'') None)
        \<lparr>payload := P_connect_request (Some ''u'')\<rparr>"
  have "fst (create_peer_connection (\<lambda>_ _. (6, [])) (Some ''server'') example_demux) = Ok ()"
    by (simp add: create_peer_connection_def alloc_node_def Let_def case_prod_beta) (simp add: ext_int_def)
  then have "create_peer_connection (\<lambda>_ _. (6, [])) (sender_id ?m) example_demux
      = (Ok (), snd (create_peer_connection (\<lambda>_ _. (6, [])) (Some ''server'') example_demux))"
    by (simp add: p2p_create_signal_message_def prod_eq_iff)
  from connect_request_for_other_aborts [OF _ _ _ _ this, of "''u''" "\<lambda>_. []"] show ?thesis
    by (simp add: p2p_create_signal_message_def find_node_def example_demux_nodes)
qed

text \<open>When a connected node exists but no probe request can be sent, the thread never returns,
  whatever happens meanwhile: it waits in a loop whose condition nothing changes.\<close>

theorem unsent_requests_hang:
  assumes "recv_state w = RECEIVER_STATE_DATACHANNEL_READY" "connected_nodes w \<noteq> []"
    and "\<And>past. fst (E past Av_gettime) = now" "now - start \<le> recv_wait_timeout w * 1000000"
    and "\<And>v n. \<not> is_ok (fst (send_probe_request_to_publisher E pr n (v :: demux)))"
  shows "pending_loop fuel E pr env k start w = None"
proof -
  have none: "fst (send_probe_requests E pr ns v) = 0" for ns v
    by (induction ns arbitrary: v) (simp_all add: Let_def case_prod_beta assms(5))
  have at: "connected_nodes (snd (ext_int E Av_gettime w)) = connected_nodes w"
    by (simp add: connected_nodes_def node_at_def)
  have "datachannel_ready E pr (snd (ext_int E Av_gettime w)) = None"
    by (simp add: datachannel_ready_def at assms(2) Let_def case_prod_beta none)
  moreover have "fst (ext_int E Av_gettime w) = now" by (simp add: ext_int_def assms(3))
  moreover have "recv_wait_timeout (snd (ext_int E Av_gettime w)) = recv_wait_timeout w"
    by (simp add: ext_int_def)
  ultimately show ?thesis
    using assms(1,4) by (cases fuel) (simp_all add: Let_def case_prod_beta)
qed

theorem unsent_requests_hang_witness:
  "pending_loop 1000 (\<lambda>_ _. (- 1, [])) (\<lambda>_. []) (\<lambda>_ w. w) 0 0
     (example_demux\<lparr>recv_state := RECEIVER_STATE_DATACHANNEL_READY\<rparr>) = None"
  by (rule unsent_requests_hang [where now = "- 1"])
    (simp_all add: example_demux_def connected_nodes_def node_at_def send_probe_request_to_publisher_def
      p2p_send_signal_message_def Let_def case_prod_beta int_res_def ext_int_def)


definition publisher_ready :: "nat \<Rightarrow> demux \<Rightarrow> demux" where
  "publisher_ready k w = (if k = 1 then w\<lparr>recv_state := RECEIVER_STATE_STREAMING\<rparr> else w)"


text \<open>C34. The probing loop ends: when the clock is 30 seconds past its start from some call on and the
  other threads only add calls, at most that many polls are made; an early return leaves the
  receiver in the error state.\<close>

theorem probing_loop_ends:
  assumes "\<And>past. m \<le> length past \<Longrightarrow> 30 * 1000000 < fst (E past Av_gettime) - start"
    and "\<And>k v. length (calls v) \<le> length (calls (env k v))"
  shows "\<exists>e k' w'. probing_loop (Suc m) E env k start w = Some (e, k', w')
     \<and> (e \<noteq> None \<longrightarrow> recv_state w' = RECEIVER_STATE_ERROR)"
proof -
  have ends: "\<exists>e k' w'. probing_loop (Suc j) E env k start w = Some (e, k', w')"
    if "m \<le> length (calls w) + j" for j k w
    using that
  proof (induction j arbitrary: k w)
    case 0
    then show ?case using assms(1) [of "calls w"] by (auto simp: ext_int_def Let_def)
  next
    case (Suc j)
    let ?now = "fst (ext_int E Av_gettime w)" and ?v = "snd (ext_int E Av_gettime w)"
    let ?u = "env k (ext_do (Av_usleep 100000) (snd (snd (poll_nodes ?now (connected_nodes ?v) ?v))))"
    have "length (calls w) + 2 \<le> length (calls ?u)"
      using assms(2) [of "ext_do (Av_usleep 100000) (snd (snd (poll_nodes ?now (connected_nodes ?v) ?v)))" k]
      by simp
    then have "m \<le> length (calls ?u) + j" using Suc.prems by simp
    from Suc.IH [OF this, of "Suc k"] show ?case
      by (subst probing_loop.simps) (auto simp: Let_def case_prod_beta)
  qed
  from ends [OF le_add2] obtain e k' w' where p: "probing_loop (Suc m) E env k start w = Some (e, k', w')"
    by blast
  then have "e \<noteq> None \<longrightarrow> recv_state w' = RECEIVER_STATE_ERROR"
    using probing_loop_error by blast
  with p show ?thesis by blast
qed

theorem probing_loop_ends_witness:
  "\<exists>e k' w'. probing_loop (Suc 4) (\<lambda>past _. (int (length past) * 10000000, [])) (\<lambda>_ w. w) 0 0
       (example_demux\<lparr>recv_state := RECEIVER_STATE_PROBING\<rparr>) = Some (e, k', w')
     \<and> (e \<noteq> None \<longrightarrow> recv_state w' = RECEIVER_STATE_ERROR)"
  by (rule probing_loop_ends) simp_all

text \<open>C35. The node that is selected after probing has the greatest score of all cached nodes, whether
  its connection is still established or not, and the receiver then asks it for the stream.\<close>

theorem probe_completed_selects:
  assumes "probe_completed E w = (None, w')" "recv_state w = RECEIVER_STATE_PROBE_COMPLETED"
  shows "\<exists>n \<in> set (peer_connection_node_caches w). selected_node w' = Some n \<and> 0 < score_of w n
    \<and> (\<forall>m \<in> set (peer_connection_node_caches w). score_of w m \<le> score_of w n)
    \<and> recv_state w' = RECEIVER_STATE_REQUESTING_STREAM"
proof -
  let ?b = "first_best (score_of w) (peer_connection_node_caches w) None 0"
  have s: "fst (select_best_node w) = ?b" by (simp add: select_best_node_def select_loop_first_best)
  from assms(1) obtain n where n: "?b = Some n" "selected_node w' = Some n"
    by (auto simp: probe_completed_def Let_def case_prod_beta s split: if_splits option.splits)
  have "recv_state w' = RECEIVER_STATE_REQUESTING_STREAM"
    using probe_completed_state [of E w] assms by (simp add: max_def receiver_order)
  with n first_best_props [of "score_of w" "peer_connection_node_caches w" None 0] show ?thesis by auto
qed

theorem probe_completed_selects_witness:
  "\<exists>w'. probe_completed (\<lambda>_ _. (0, [])) example_demux = (None, w') \<and> selected_node w' = Some 3
     \<and> status (node_at example_demux 3) = Failed"
proof -
  have s: "score_of example_demux 2 = 0" "score_of example_demux 3 = 50"
    by (simp_all add: score_of_def example_demux_nodes zero_metrics_def calculate_node_score_def
        clip_double_def Let_def MIN_BANDWIDTH_KBPS_def MAX_RTT_MS_def MAX_PACKET_LOSS_def zero_node_def)
  then have "fst (select_best_node example_demux) = Some 3"
    by (simp only: select_best_node_def select_loop_first_best example_demux_nodes) simp
  then have "fst (probe_completed (\<lambda>_ _. (0, [])) example_demux) = None"
    by (simp add: probe_completed_def connected_nodes_def example_demux_nodes Let_def case_prod_beta)
  then obtain w' where w': "probe_completed (\<lambda>_ _. (0, [])) example_demux = (None, w')"
    by (cases "probe_completed (\<lambda>_ _. (0, [])) example_demux") simp
  from probe_completed_selects [OF w'] s have "selected_node w' = Some 3"
    by (auto simp: example_demux_nodes example_demux_def)
  with w' show ?thesis by (simp add: example_demux_nodes)
qed

end
