(* ===== verification/Switch.thy ===== *)
theory Switch
  imports Receiver Rescale Dict
begin

text \<open>
  The receiver as a demuxer, second half of \<^verbatim>\<open>libavformat/p2p_rtp_demux.c\<close>: its start,
  the reading of packets from the CDN and from the selected publisher, and the switching between
  the two sources. A result of None means that the code dereferences NULL, reads outside an
  array, or does not come back from the scan of a packet.
\<close>

section \<open>The layers below\<close>

text \<open>
  What the inner demuxers deliver: \<open>read_frame past h\<close> is the result of \<open>av_read_frame\<close> on the
  handle \<open>h\<close> after the calls \<open>past\<close>, \<open>inner_streams h\<close> are the streams of \<open>h\<close>. The macros
  \<open>P2P_DEFAULT_VIDEO_GOP\<close> and \<open>P2P_CDN_URL_REPAIR_APP\<close> have no definition in the repository, so
  their values are parameters. \<open>scan_fuel\<close> bounds the scan of a packet.
\<close>

record layers =
  read_frame :: "ext_call list \<Rightarrow> int \<Rightarrow> AVPacket res"
  inner_streams :: "int \<Rightarrow> AVStream list"
  scan_fuel :: nat
  video_gop :: nat
  repair_app :: string

definition av_read_frame :: "layers \<Rightarrow> int \<Rightarrow> demux \<Rightarrow> AVPacket res \<times> demux" where
  "av_read_frame L h w = (read_frame L (calls w) h, ext_do (Av_read_frame h) w)"

definition stream_at :: "AVStream list \<Rightarrow> int \<Rightarrow> AVStream option" where
  "stream_at ss i = (if 0 \<le> i \<and> i < int (length ss) then Some (ss ! nat i) else None)"

text \<open>The fields after \<open>av_packet_unref\<close>, and after \<open>memset\<close>.\<close>

definition blank_packet :: AVPacket where
  "blank_packet = \<lparr>pkt_data = [], pkt_stream = 0, pkt_key = False, pkt_pts = AV_NOPTS_VALUE,
     pkt_dts = AV_NOPTS_VALUE, pkt_duration = 0\<rparr>"

definition zero_packet :: AVPacket where
  "zero_packet = \<lparr>pkt_data = [], pkt_stream = 0, pkt_key = False, pkt_pts = 0, pkt_dts = 0,
     pkt_duration = 0\<rparr>"

definition av_packet_rescale_ts :: "AVPacket \<Rightarrow> int \<times> int \<Rightarrow> int \<times> int \<Rightarrow> AVPacket" where
  "av_packet_rescale_ts p src_tb dst_tb =
     p\<lparr>pkt_pts := (if pkt_pts p \<noteq> AV_NOPTS_VALUE then av_rescale_q (pkt_pts p) src_tb dst_tb else pkt_pts p),
       pkt_dts := (if pkt_dts p \<noteq> AV_NOPTS_VALUE then av_rescale_q (pkt_dts p) src_tb dst_tb else pkt_dts p),
       pkt_duration := (if pkt_duration p > 0 then av_rescale_q (pkt_duration p) src_tb dst_tb
                        else pkt_duration p)\<rparr>"

section \<open>Switch state\<close>

abbreviation upd_sw :: "(P2PRtpDemuxSwitchState \<Rightarrow> P2PRtpDemuxSwitchState) \<Rightarrow> demux \<Rightarrow> demux" where
  "upd_sw f w \<equiv> w\<lparr>sw := f (sw w)\<rparr>"

definition switch_state_init :: "P2PRtpDemuxSwitchState \<Rightarrow> P2PRtpDemuxSwitchState" where
  "switch_state_init st = st\<lparr>active_source := ACTIVE_NONE, pending_switch := SWITCH_NONE,
     pending_pkt_valid := False, pending_pkt := zero_packet\<rparr>"

definition map_fallback_stream_index :: "layers \<Rightarrow> int \<Rightarrow> demux \<Rightarrow> int" where
  "map_fallback_stream_index L fb_si w =
     (case cdn_fmt_ctx w of None \<Rightarrow> - 1
      | Some h \<Rightarrow>
          (case stream_at (inner_streams L h) fb_si of None \<Rightarrow> - 1
           | Some st \<Rightarrow> if codec_type st = AVMEDIA_TYPE_VIDEO then output_video_stream_index w
               else if codec_type st = AVMEDIA_TYPE_AUDIO then output_audio_stream_index w
               else - 1))"

section \<open>Reading from one source\<close>

definition read_one_from_cdn :: "layers \<Rightarrow> demux \<Rightarrow> (AVPacket res \<times> demux) option" where
  "read_one_from_cdn L w =
     (if \<not> cdn_active w then Some (Err EAGAIN, w)
      else case cdn_fmt_ctx w of None \<Rightarrow> Some (Err EAGAIN, w)
      | Some h \<Rightarrow>
         (case av_read_frame L h w of
            (Inl e, w) \<Rightarrow> Some (Err e, w)
          | (Inr p, w) \<Rightarrow>
             (case stream_at (inner_streams L h) (pkt_stream p) of None \<Rightarrow> None
              | Some st \<Rightarrow>
                  let out = (if codec_type st = AVMEDIA_TYPE_VIDEO then output_video_stream_index w
                             else if codec_type st = AVMEDIA_TYPE_AUDIO then output_audio_stream_index w
                             else - 1)
                  in (case stream_at (streams w) out of
                        None \<Rightarrow> Some (Err EAGAIN, ext_do Av_packet_unref w)
                      | Some dst \<Rightarrow>
                          if \<not> cdn_started w \<and> out = cdn_video_stream_index w \<and> \<not> pkt_key p
                          then Some (Err EAGAIN, ext_do Av_packet_unref w)
                          else let w = (if \<not> cdn_started w \<and> out = cdn_video_stream_index w
                                        then w\<lparr>cdn_started := True\<rparr> else w)
                          in Some (Ok ((av_packet_rescale_ts p (time_base st) (time_base dst))
                                     \<lparr>pkt_stream := out\<rparr>), w)))))"

text \<open>The video track of a node has an RTP demuxer, and its handle.\<close>

definition video_rtp_ctx :: "demux \<Rightarrow> addr \<Rightarrow> int option" where
  "video_rtp_ctx w n =
     (case video_track (node_at w n) of None \<Rightarrow> None | Some t \<Rightarrow> rtp_ctx (track_at w t))"

text \<open>The packet, the output stream and the time base of the packet.\<close>

definition read_one_from_p2p :: "layers \<Rightarrow> demux \<Rightarrow> ((AVPacket \<times> int \<times> (int \<times> int)) res \<times> demux) option" where
  "read_one_from_p2p L w =
     (case selected_node w of None \<Rightarrow> None
      | Some n \<Rightarrow>
         (case video_rtp_ctx w n of None \<Rightarrow> Some (Err EAGAIN, w)
          | Some h \<Rightarrow>
             (case av_read_frame L h w of
                (Inl e, w) \<Rightarrow> Some (Err e, w)
              | (Inr p, w) \<Rightarrow>
                 (case stream_at (inner_streams L h) (pkt_stream p) of None \<Rightarrow> None
                  | Some st \<Rightarrow> Some (Ok (p, output_video_stream_index w, time_base st), w)))))"

section \<open>Preparing a switch\<close>

text \<open>
  A key frame is kept for the switch. When the reference cannot be taken \<open>av_packet_ref\<close> leaves
  an empty packet.
\<close>

definition keep_packet :: "ext \<Rightarrow> ActiveSource \<Rightarrow> SwitchTarget \<Rightarrow> AVPacket \<Rightarrow> int \<times> int \<Rightarrow> demux
    \<Rightarrow> bool \<times> demux" where
  "keep_packet E from target p tb w =
     (let (ret, w) = ext_int E Av_packet_ref w
      in if ret = 0
         then (True, ext_do Av_packet_unref (upd_sw (\<lambda>s. s\<lparr>pending_pkt := p, pending_pkt_valid := True,
                 pending_pkt_from := from, pending_pkt_out_stream_index := output_video_stream_index w,
                 pending_pkt_src_tb := tb, pending_switch := target\<rparr>) w))
         else (False, ext_do Av_packet_unref (upd_sw (\<lambda>s. s\<lparr>pending_pkt := blank_packet\<rparr>) w)))"

definition pending_result :: "SwitchTarget \<Rightarrow> demux \<Rightarrow> int res" where
  "pending_result target w =
     (if pending_pkt_valid (sw w) \<and> pending_switch (sw w) = target then Ok 0 else Err EAGAIN)"

text \<open>
  The loops over one group of pictures. The packet of a stream that does not exist would be
  skipped without being released, but \<open>read_one_from_p2p\<close> has read that stream before.
\<close>

fun prepare_p2p_loop :: "nat \<Rightarrow> layers \<Rightarrow> ext \<Rightarrow> demux \<Rightarrow> demux option" where
  "prepare_p2p_loop 0 L E w = Some w"
| "prepare_p2p_loop (Suc i) L E w =
     (case read_one_from_p2p L w of None \<Rightarrow> None
      | Some (Inl e, w) \<Rightarrow> Some (if e \<noteq> EAGAIN then ext_do Av_packet_unref w else w)
      | Some (Inr (p, out, tb), w) \<Rightarrow>
         (case selected_node w of None \<Rightarrow> None
          | Some n \<Rightarrow>
             (case (video_track (node_at w n), video_rtp_ctx w n) of
                (Some t, Some h) \<Rightarrow>
                  (case stream_at (inner_streams L h) (pkt_stream p) of
                     None \<Rightarrow> prepare_p2p_loop i L E w
                   | Some st \<Rightarrow>
                      (case has_keyframe_info (scan_fuel L) (Some st) p of None \<Rightarrow> None
                       | Some suitable \<Rightarrow>
                          if suitable then
                            (let w = (if output_video_stream_index w = - 1
                                      then w\<lparr>output_video_stream_index := stream_index (track_at w t)\<rparr>
                                      else w);
                                 (kept, w) = keep_packet E ACTIVE_P2P SWITCH_TO_P2P p tb w
                             in if kept then Some w else prepare_p2p_loop i L E w)
                          else prepare_p2p_loop i L E (ext_do Av_packet_unref w)))
              | _ \<Rightarrow> prepare_p2p_loop i L E w)))"

definition try_prepare_switch_to_p2p :: "layers \<Rightarrow> ext \<Rightarrow> demux \<Rightarrow> (int res \<times> demux) option" where
  "try_prepare_switch_to_p2p L E w =
     (if \<not> p2p_connect_ready w \<or> selected_node w = None then Some (Err EINVAL, w)
      else if pending_switch (sw w) = SWITCH_TO_P2P \<and> pending_pkt_valid (sw w) then Some (Err EINVAL, w)
      else map_option (\<lambda>w. (pending_result SWITCH_TO_P2P w, w)) (prepare_p2p_loop (video_gop L) L E w))"

fun prepare_cdn_loop :: "nat \<Rightarrow> layers \<Rightarrow> ext \<Rightarrow> int \<Rightarrow> demux \<Rightarrow> demux option" where
  "prepare_cdn_loop 0 L E h w = Some w"
| "prepare_cdn_loop (Suc i) L E h w =
     (case av_read_frame L h w of
        (Inl e, w) \<Rightarrow> Some (if e \<noteq> EAGAIN then ext_do Av_packet_unref w else w)
      | (Inr p, w) \<Rightarrow>
         (case stream_at (inner_streams L h) (pkt_stream p) of None \<Rightarrow> None
          | Some st \<Rightarrow>
              if codec_type st \<noteq> AVMEDIA_TYPE_VIDEO
              then prepare_cdn_loop i L E h (ext_do Av_packet_unref w)
              else
                (case has_keyframe_info (scan_fuel L) (Some st) p of None \<Rightarrow> None
                 | Some suitable \<Rightarrow>
                     if suitable then
                       (let w = (if output_video_stream_index w = - 1
                                 then w\<lparr>output_video_stream_index := cdn_video_stream_index w\<rparr> else w);
                            (kept, w) = keep_packet E ACTIVE_CDN SWITCH_TO_CDN p (time_base st) w
                        in if kept then Some w else prepare_cdn_loop i L E h w)
                     else prepare_cdn_loop i L E h (ext_do Av_packet_unref w))))"

definition try_prepare_switch_to_cdn :: "layers \<Rightarrow> ext \<Rightarrow> demux \<Rightarrow> (int res \<times> demux) option" where
  "try_prepare_switch_to_cdn L E w =
     (case cdn_fmt_ctx w of None \<Rightarrow> Some (Err EINVAL, w)
      | Some h \<Rightarrow>
          if pending_switch (sw w) = SWITCH_TO_CDN \<and> pending_pkt_valid (sw w) then Some (Err EINVAL, w)
          else map_option (\<lambda>w. (pending_result SWITCH_TO_CDN w, w))
                 (prepare_cdn_loop (video_gop L) L E h w))"

section \<open>Committing a switch\<close>

definition repair_url :: "layers \<Rightarrow> string \<Rightarrow> int \<Rightarrow> string \<Rightarrow> string" where
  "repair_url L host port rm =
     ''http://'' @ host @ '':'' @ fmt_d port @ ''/rtc/v1/repair/?app='' @ repair_app L
       @ ''&stream='' @ rm @ ''&kind=video&seq=%u''"

definition dict_store :: "ext \<Rightarrow> int \<Rightarrow> string \<Rightarrow> string \<Rightarrow> demux \<Rightarrow> demux" where
  "dict_store E h k v w =
     (let (a, w) = ext_int E Av_mallocz w
      in w\<lparr>metadata := (metadata w)(h := snd (av_dict_set (a \<noteq> 0) (metadata w h) (Some k) (Some v) {}))\<rparr>)"

text \<open>The repair server is announced to the RTP demuxer of the publisher, once.\<close>

definition install_repair :: "layers \<Rightarrow> ext \<Rightarrow> demux \<Rightarrow> demux option" where
  "install_repair L E w =
     (case (repair_rtp_pkt_host w, room w) of
        (Some host, Some rm) \<Rightarrow>
          if host \<noteq> [] \<and> repair_rtp_pkt_port w > 0 \<and> rm \<noteq> [] then
            (case selected_node w of None \<Rightarrow> None
             | Some n \<Rightarrow>
                (case video_rtp_ctx w n of None \<Rightarrow> None
                 | Some h \<Rightarrow>
                     if av_dict_get (metadata w h) ''repair_rtp_pkt_url'' None {} \<noteq> None then Some w
                     else let (tpl, w) = ext_int E Av_asprintf w;
                              w = (if tpl \<noteq> 0 then dict_store E h ''repair_rtp_pkt_url''
                                     (repair_url L host (repair_rtp_pkt_port w) rm) w else w)
                          in Some (if repair_http_timeout_ms w > 0
                                   then dict_store E h ''repair_http_timeout_ms''
                                          (take 31 (fmt_d (repair_http_timeout_ms w))) w
                                   else w)))
          else Some w
      | _ \<Rightarrow> Some w)"

definition commit_source :: "layers \<Rightarrow> ext \<Rightarrow> demux \<Rightarrow> demux option" where
  "commit_source L E w =
     (if pending_switch (sw w) = SWITCH_TO_P2P
      then install_repair L E (upd_sw (\<lambda>s. s\<lparr>active_source := ACTIVE_P2P\<rparr>) w)
      else if pending_switch (sw w) = SWITCH_TO_CDN
      then Some (upd_sw (\<lambda>s. s\<lparr>active_source := ACTIVE_CDN\<rparr>) w)
      else Some w)"

text \<open>The result has the packet that was put out, if any.\<close>

definition commit_packet :: "ext \<Rightarrow> AVStream \<Rightarrow> demux \<Rightarrow> AVPacket option \<times> demux" where
  "commit_packet E st w =
     (let p = av_packet_rescale_ts (pending_pkt (sw w)) (pending_pkt_src_tb (sw w)) (time_base st);
          (ret, w) = ext_int E Av_packet_ref w
      in (if ret = 0 then Some p else None,
          ext_do Av_packet_unref (upd_sw (\<lambda>s. s\<lparr>pending_pkt := blank_packet\<rparr>) w)))"

definition commit_pending_switch_if_ready :: "layers \<Rightarrow> ext \<Rightarrow> demux \<Rightarrow> (AVPacket option \<times> demux) option" where
  "commit_pending_switch_if_ready L E w =
     (if \<not> pending_pkt_valid (sw w) then Some (None, w)
      else
        let out_index = pending_pkt_out_stream_index (sw w)
        in (case commit_source L E
                  (upd_sw (\<lambda>s. s\<lparr>pending_pkt := (pending_pkt s)\<lparr>pkt_stream := out_index\<rparr>\<rparr>) w) of
              None \<Rightarrow> None
            | Some w \<Rightarrow>
                let w = upd_sw (\<lambda>s. s\<lparr>pending_switch := SWITCH_NONE\<rparr>) w;
                    w = w\<lparr>cdn_active := (active_source (sw w) = ACTIVE_CDN)\<rparr>;
                    w = upd_sw (\<lambda>s. s\<lparr>pending_pkt_valid := False\<rparr>) w
                in map_option (\<lambda>st. commit_packet E st w) (stream_at (streams w) out_index)))"

section \<open>The streams of the CDN\<close>

text \<open>The first video and the first audio stream are taken.\<close>

definition place_stream :: "AVStream \<Rightarrow> int \<Rightarrow> demux \<Rightarrow> demux" where
  "place_stream src si w =
     (let w = (if codec_type src = AVMEDIA_TYPE_VIDEO \<and> cdn_video_stream_index w < 0
               then let w = w\<lparr>cdn_video_stream_index := si\<rparr>
                    in if output_video_stream_index w = - 1
                       then w\<lparr>output_video_stream_index := si\<rparr> else w
               else w)
      in if codec_type src = AVMEDIA_TYPE_AUDIO \<and> cdn_audio_stream_index w < 0
         then let w = w\<lparr>cdn_audio_stream_index := si\<rparr>
              in if output_audio_stream_index w = - 1
                 then w\<lparr>output_audio_stream_index := si\<rparr> else w
         else w)"

fun create_cdn_loop :: "ext \<Rightarrow> AVStream list \<Rightarrow> demux \<Rightarrow> averror option \<times> demux" where
  "create_cdn_loop E [] w = (None, w)"
| "create_cdn_loop E (src # srcs) w =
     (if codec_type src \<notin> {AVMEDIA_TYPE_VIDEO, AVMEDIA_TYPE_AUDIO} then create_cdn_loop E srcs w
      else
        let (st, w) = ext_int E Avformat_new_stream w
        in if st = 0 then (Some ENOMEM, w)
        else
          let si = length (streams w);
              w = w\<lparr>streams := streams w @ [zero_stream]\<rparr>;
              (ret, w) = ext_int E (Avcodec_parameters_copy (int si)) w
          in if ret < 0 then (Some (Lib_error ret), w)
          else
            let w = place_stream src (int si) (w\<lparr>streams := (streams w)[si := src]\<rparr>)
            in if cdn_video_stream_index w \<ge> 0 \<and> cdn_audio_stream_index w \<ge> 0 then (None, w)
               else create_cdn_loop E srcs w)"

text \<open>
  For \<open>avformat_open_input\<close> a positive number is a success with that handle, 0 a success
  without a context; a failure leaves no context.
\<close>

definition create_cdn_streams :: "layers \<Rightarrow> ext \<Rightarrow> demux \<Rightarrow> int res \<times> demux" where
  "create_cdn_streams L E w =
     (if cdn_fmt_ctx w \<noteq> None \<and> cdn_active w then (Ok 0, w)
      else
        let (infmt, w) = ext_int E (Av_find_input_format ''whep'') w
        in if infmt = 0 then (Err AVERROR_DEMUXER_NOT_FOUND, w)
        else case cdn_url w of None \<Rightarrow> (Err EINVAL, w)
        | Some url \<Rightarrow>
          if url = [] then (Err EINVAL, w)
          else
            let (ret, w) = ext_int E (Avformat_open_input 0 url) w
            in if ret < 0 then (Err (Lib_error ret), w\<lparr>cdn_fmt_ctx := None\<rparr>)
            else if ret = 0 then (Err EINVAL, w\<lparr>cdn_fmt_ctx := None\<rparr>)
            else
              let h = ret;
                  (ret, w) = ext_int E (Avformat_find_stream_info h) (w\<lparr>cdn_fmt_ctx := Some h\<rparr>)
              in if ret < 0
                 then (Err (Lib_error ret), (ext_do (Avformat_close_input h) w)\<lparr>cdn_fmt_ctx := None\<rparr>)
                 else (case create_cdn_loop E (inner_streams L h) w of
                         (Some e, w) \<Rightarrow> (Err e, w)
                       | (None, w) \<Rightarrow> (if streams w \<noteq> [] then Ok 0 else Err EINVAL, w)))"

section \<open>The demuxer\<close>

text \<open>
  The start of the demuxer: its own state, then the signalling; \<open>ws_env\<close> is what the other
  threads do during the wait for the socket, the new thread included. The initial values of the
  options and of the rest of the zeroed context are those of \<open>w\<close>.
\<close>

definition demux_init_state :: "ext \<Rightarrow> string option \<Rightarrow> demux \<Rightarrow> demux" where
  "demux_init_state E url w =
     (let w = w\<lparr>cdn_video_stream_index := - 1, cdn_audio_stream_index := - 1,
                output_video_stream_index := - 1, output_audio_stream_index := - 1,
                cdn_active := False, cdn_started := False, sw := switch_state_init (sw w),
                p2p_connect_thread_active := True\<rparr>;
          w = ext_do Pthread_detach (ext_do (Pthread_create P2p_connect_thread_fn) w);
          w = set_receiver_state E RECEIVER_STATE_JOINING_ROOM w;
          (now, w) = ext_int E Av_gettime_relative w;
          w = w\<lparr>last_p2p_packet_time := now\<rparr>
      in if room w = None
         then (case parse_cdn_params url (Some ''stream'') of None \<Rightarrow> w | Some v \<Rightarrow> w\<lparr>room := Some v\<rparr>)
         else w)"

definition p2p_rtp_demux_init :: "nat \<Rightarrow> ext \<Rightarrow> (json \<Rightarrow> string) \<Rightarrow> (nat \<Rightarrow> demux \<Rightarrow> demux)
    \<Rightarrow> string option \<Rightarrow> demux \<Rightarrow> (int res \<times> demux) option" where
  "p2p_rtp_demux_init fuel E pr ws_env url w =
     (case p2p_init_signal_server fuel E ws_env (demux_init_state E url w) of None \<Rightarrow> None
      | Some (ret, w) \<Rightarrow>
          if ret < 0 then Some (Err (Lib_error ret), w)
          else (case p2p_set_signal_message_handler E w of
             (Inl e, w) \<Rightarrow> Some (Err e, w)
           | (Inr _, w) \<Rightarrow>
               (case p2p_join_room_as_receiver E pr
                       (Some (case room w of None \<Rightarrow> ''default_room'' | Some r \<Rightarrow> r)) w of
                  (Inl e, w) \<Rightarrow> Some (Err e, w)
                | (Inr _, w) \<Rightarrow> Some (Ok 0, w))))"

definition p2p_rtp_read_header :: "nat \<Rightarrow> layers \<Rightarrow> ext \<Rightarrow> (json \<Rightarrow> string) \<Rightarrow> (nat \<Rightarrow> demux \<Rightarrow> demux)
    \<Rightarrow> string option \<Rightarrow> demux \<Rightarrow> (int res \<times> demux) option" where
  "p2p_rtp_read_header fuel L E pr ws_env url w =
     (case p2p_rtp_demux_init fuel E pr ws_env url w of None \<Rightarrow> None
      | Some (Inl e, w) \<Rightarrow> Some (Err e, w)
      | Some (Inr _, w) \<Rightarrow>
          (case create_cdn_streams L E (w\<lparr>cdn_url := url\<rparr>) of
             (Inl e, w) \<Rightarrow> Some (Ok 0, w\<lparr>cdn_active := False\<rparr>)
           | (Inr _, w) \<Rightarrow>
               (case try_prepare_switch_to_cdn L E w of None \<Rightarrow> None
                | Some (Inl e, w) \<Rightarrow> Some (Ok 0, w)
                | Some (Inr _, w) \<Rightarrow>
                    Some (Ok 0, upd_sw (\<lambda>s. s\<lparr>active_source := ACTIVE_CDN\<rparr>) (w\<lparr>cdn_active := True\<rparr>)))))"

text \<open>The turn of \<open>p2p_rtp_read_packet\<close> for each active source.\<close>

definition read_turn_none :: "layers \<Rightarrow> ext \<Rightarrow> demux \<Rightarrow> (AVPacket res \<times> demux) option" where
  "read_turn_none L E w =
     (if p2p_connect_ready w \<and> selected_node w \<noteq> None
      then map_option (\<lambda>(r, w). (Err EAGAIN, w)) (try_prepare_switch_to_p2p L E w)
      else Some (Err EAGAIN, w))"

definition read_turn_cdn :: "layers \<Rightarrow> ext \<Rightarrow> demux \<Rightarrow> (AVPacket res \<times> demux) option" where
  "read_turn_cdn L E w =
     (case read_one_from_cdn L w of None \<Rightarrow> None
      | Some (r, w) \<Rightarrow>
          if p2p_connect_ready w \<and> selected_node w \<noteq> None then
            (case try_prepare_switch_to_p2p L E (upd_sw (\<lambda>s. s\<lparr>pending_switch := SWITCH_TO_P2P\<rparr>) w) of
               None \<Rightarrow> None
             | Some (_, w) \<Rightarrow>
                 (case commit_pending_switch_if_ready L E w of None \<Rightarrow> None
                  | Some (Some p, w) \<Rightarrow> Some (Ok p, w)
                  | Some (None, w) \<Rightarrow> Some (r, w)))
          else Some (r, w))"

text \<open>What a failing publisher leads to, with the error of the read.\<close>

definition fallback_to_cdn :: "layers \<Rightarrow> ext \<Rightarrow> averror \<Rightarrow> demux \<Rightarrow> (AVPacket res \<times> demux) option" where
  "fallback_to_cdn L E e w =
     (let w = upd_sw (\<lambda>s. s\<lparr>pending_switch := SWITCH_TO_CDN\<rparr>) w;
          w = (if cdn_fmt_ctx w = None \<and> cdn_url w \<noteq> None then snd (create_cdn_streams L E w) else w)
      in if cdn_fmt_ctx w \<noteq> None then
           (case try_prepare_switch_to_cdn L E w of None \<Rightarrow> None
            | Some (_, w) \<Rightarrow>
                (case commit_pending_switch_if_ready L E w of None \<Rightarrow> None
                 | Some (Some p, w) \<Rightarrow> Some (Ok p, w)
                 | Some (None, w) \<Rightarrow> Some (Err e, w)))
         else Some (Err e, w))"

definition read_turn_p2p :: "layers \<Rightarrow> ext \<Rightarrow> demux \<Rightarrow> (AVPacket res \<times> demux) option" where
  "read_turn_p2p L E w =
     (case read_one_from_p2p L w of None \<Rightarrow> None
      | Some (Inr (p, out, tb), w) \<Rightarrow>
          (case stream_at (streams w) out of None \<Rightarrow> None
           | Some dst \<Rightarrow>
               let (now, w) = ext_int E Av_gettime_relative w
               in Some (Ok ((av_packet_rescale_ts p tb (time_base dst))\<lparr>pkt_stream := out\<rparr>),
                        w\<lparr>last_p2p_packet_time := now, p2p_transport_error_times := 0\<rparr>))
      | Some (Inl e, w) \<Rightarrow>
          let w = w\<lparr>p2p_transport_error_times := p2p_transport_error_times w + 1\<rparr>
          in if p2p_transport_error_times w > 100 then fallback_to_cdn L E e w else Some (Err e, w))"

text \<open>
  Without an active source the code assigns the comparison \<open>try_prepare_switch_to_p2p(ctx) > 0\<close>,
  which is never true, so the turn always ends with \<open>EAGAIN\<close>.
\<close>

definition p2p_rtp_read_packet :: "layers \<Rightarrow> ext \<Rightarrow> demux \<Rightarrow> (AVPacket res \<times> demux) option" where
  "p2p_rtp_read_packet L E w =
     (case commit_pending_switch_if_ready L E w of None \<Rightarrow> None
      | Some (Some p, w) \<Rightarrow> Some (Ok p, w)
      | Some (None, w) \<Rightarrow>
          (case active_source (sw w) of
             ACTIVE_NONE \<Rightarrow> read_turn_none L E w
           | ACTIVE_CDN \<Rightarrow> read_turn_cdn L E w
           | ACTIVE_P2P \<Rightarrow> read_turn_p2p L E w))"

definition p2p_rtp_close :: "demux \<Rightarrow> demux" where
  "p2p_rtp_close w =
     (let w = (case cdn_fmt_ctx w of None \<Rightarrow> w
               | Some h \<Rightarrow> (ext_do (Avformat_close_input h) w)\<lparr>cdn_fmt_ctx := None\<rparr>);
          w = w\<lparr>room := None, signal_callbacks := False\<rparr>
      in if pending_pkt_valid (sw w)
         then ext_do Av_packet_unref (upd_sw (\<lambda>s. s\<lparr>pending_pkt := blank_packet, pending_pkt_valid := False\<rparr>) w)
         else w)"

section \<open>What a turn leaves alone\<close>

text \<open>The part of the state that only a commit changes.\<close>

definition base where
  "base w = (cdn_active w, active_source (sw w), streams w, selected_node w, p2p_connect_ready w, cdn_fmt_ctx w)"

definition tables where
  "tables w = (nodes (w :: demux), tracks w, p2p_transport_error_times w)"

named_theorems base_simps "frame conditions of the steps of the demuxer"

lemma base_basic [base_simps]:
  "base (ext_do c w) = base w" "base (snd (ext_int E c w)) = base w"
  "base (w\<lparr>cdn_started := b\<rparr>) = base w" "base (w\<lparr>output_video_stream_index := i\<rparr>) = base w"
  "base (w\<lparr>p2p_transport_error_times := k\<rparr>) = base w" "base (w\<lparr>last_p2p_packet_time := t\<rparr>) = base w"
  "base (snd (av_read_frame L h w)) = base w"
  "tables (ext_do c w) = tables w" "tables (snd (ext_int E c w)) = tables w"
  "tables (w\<lparr>cdn_started := b\<rparr>) = tables w" "tables (w\<lparr>output_video_stream_index := i\<rparr>) = tables w"
  "tables (w\<lparr>sw := s\<rparr>) = tables w" "tables (snd (av_read_frame L h w)) = tables w"
  by (simp_all add: base_def tables_def ext_do_def ext_int_def av_read_frame_def)

lemma sw_basic [simp]:
  "sw (ext_do c w) = sw w" "sw (snd (ext_int E c w)) = sw w" "sw (snd (av_read_frame L h w)) = sw w"
  by (cases w, simp add: ext_do_def ext_int_def av_read_frame_def)+

lemma read_cdn_frame:
  "read_one_from_cdn L w = Some (r, w') \<Longrightarrow> base w' = base w \<and> tables w' = tables w \<and> sw w' = sw w"
  by (auto simp: read_one_from_cdn_def av_read_frame_def base_simps Let_def
      split: if_splits option.splits sum.splits)

lemma read_p2p_frame:
  "read_one_from_p2p L w = Some (r, w') \<Longrightarrow> base w' = base w \<and> tables w' = tables w \<and> sw w' = sw w"
  by (auto simp: read_one_from_p2p_def av_read_frame_def base_simps split: option.splits sum.splits)

lemma keep_packet_cases:
  "keep_packet E from target p tb w =
     (if fst (E (calls w) Av_packet_ref) = 0
      then (True, ext_do Av_packet_unref (upd_sw (\<lambda>s. s\<lparr>pending_pkt := p, pending_pkt_valid := True,
                 pending_pkt_from := from, pending_pkt_out_stream_index := output_video_stream_index w,
                 pending_pkt_src_tb := tb, pending_switch := target\<rparr>) (ext_do Av_packet_ref w)))
      else (False, ext_do Av_packet_unref (upd_sw (\<lambda>s. s\<lparr>pending_pkt := blank_packet\<rparr>) (ext_do Av_packet_ref w))))"
  by (simp add: keep_packet_def ext_int_def ext_do_def Let_def)

lemma base_upd_sw [base_simps]:
  "active_source s = active_source (sw w) \<Longrightarrow> base (w\<lparr>sw := s\<rparr>) = base w"
  by (simp add: base_def)

lemma base_keep [base_simps]:
  "base (snd (keep_packet E from target p tb w)) = base w"
  "tables (snd (keep_packet E from target p tb w)) = tables w"
  by (simp_all add: keep_packet_cases base_simps)

section \<open>The packet that is kept\<close>

text \<open>It is a key frame of a stream with its time base, and the switch goes to its source.\<close>

definition kept_ok :: "layers \<Rightarrow> P2PRtpDemuxSwitchState \<Rightarrow> bool" where
  "kept_ok L s \<longleftrightarrow>
     (\<exists>st. has_keyframe_info (scan_fuel L) (Some st) (pending_pkt s) = Some True \<and> pending_pkt_src_tb s = time_base st)
     \<and> (pending_switch s = SWITCH_TO_P2P \<and> pending_pkt_from s = ACTIVE_P2P
        \<or> pending_switch s = SWITCH_TO_CDN \<and> pending_pkt_from s = ACTIVE_CDN)"

definition switch_ok :: "layers \<Rightarrow> demux \<Rightarrow> bool" where
  "switch_ok L w \<longleftrightarrow> (cdn_active w \<longleftrightarrow> active_source (sw w) = ACTIVE_CDN)
     \<and> (pending_pkt_valid (sw w) \<longrightarrow> kept_ok L (sw w))"

text \<open>What a loop of preparation does: it keeps a packet for its target, or none.\<close>

definition prepared :: "layers \<Rightarrow> SwitchTarget \<Rightarrow> demux \<Rightarrow> demux \<Rightarrow> bool" where
  "prepared L target w w' \<longleftrightarrow> base w' = base w \<and> tables w' = tables w
     \<and> (pending_pkt_valid (sw w') \<longrightarrow> kept_ok L (sw w') \<and> pending_switch (sw w') = target)"

lemma preparedI:
  "base w1 = base w \<Longrightarrow> tables w1 = tables w \<Longrightarrow> prepared L target w1 w' \<Longrightarrow> prepared L target w w'"
  by (simp add: prepared_def)

lemma keep_prepared:
  assumes "\<not> pending_pkt_valid (sw w)" "has_keyframe_info (scan_fuel L) (Some st) p = Some True"
    and "from = ACTIVE_P2P \<and> target = SWITCH_TO_P2P \<or> from = ACTIVE_CDN \<and> target = SWITCH_TO_CDN"
  shows "fst (keep_packet E from target p (time_base st) w)
      \<Longrightarrow> prepared L target w (snd (keep_packet E from target p (time_base st) w))"
    and "\<not> fst (keep_packet E from target p (time_base st) w)
      \<Longrightarrow> \<not> pending_pkt_valid (sw (snd (keep_packet E from target p (time_base st) w)))"
  using assms by (auto simp: prepared_def base_simps) (auto simp: keep_packet_cases kept_ok_def split: if_splits)

lemma prepare_p2p_prepared:
  "prepare_p2p_loop i L E w = Some w' \<Longrightarrow> \<not> pending_pkt_valid (sw w) \<Longrightarrow> prepared L SWITCH_TO_P2P w w'"
proof (induction i arbitrary: w)
  case 0
  then show ?case by (simp add: prepared_def)
next
  case (Suc i)
  from Suc.prems(1) obtain r v where r: "read_one_from_p2p L w = Some (r, v)" by (auto split: option.splits)
  note fr = read_p2p_frame [OF r]
  show ?case
  proof (cases r)
    case (Inl e)
    with Suc.prems r fr show ?thesis by (auto simp: prepared_def base_simps)
  next
    case (Inr x)
    obtain p out tb where x: "x = (p, out, tb)" by (cases x)
    have idle: "\<not> pending_pkt_valid (sw v)" using Suc.prems(2) fr by simp
    from Suc.prems(1) r Inr x obtain n where n: "selected_node v = Some n"
      by (auto split: option.splits)
    from r Inr x obtain h st where h: "video_rtp_ctx v n = Some h" "stream_at (inner_streams L h) (pkt_stream p) = Some st"
      and tb: "tb = time_base st"
      using fr n by (auto simp: read_one_from_p2p_def av_read_frame_def video_rtp_ctx_def node_at_def track_at_def
          base_def tables_def split: option.splits sum.splits)
    from h obtain t where t: "video_track (node_at v n) = Some t" by (auto simp: video_rtp_ctx_def split: option.splits)
    from Suc.prems(1) r Inr x n h t obtain b where b: "has_keyframe_info (scan_fuel L) (Some st) p = Some b"
      by (auto split: option.splits)
    show ?thesis
    proof (cases b)
      case False
      with Suc.prems(1) r Inr x n h t b have "prepare_p2p_loop i L E (ext_do Av_packet_unref v) = Some w'" by simp
      with Suc.IH idle have "prepared L SWITCH_TO_P2P (ext_do Av_packet_unref v) w'" by simp
      then show ?thesis by (rule preparedI [rotated 2]) (use fr in \<open>simp_all add: base_simps\<close>)
    next
      case True
      define u where "u = (if output_video_stream_index v = - 1
          then v\<lparr>output_video_stream_index := stream_index (track_at v t)\<rparr> else v)"
      let ?k = "keep_packet E ACTIVE_P2P SWITCH_TO_P2P p (time_base st) u"
      have u: "base u = base w" "tables u = tables w" "\<not> pending_pkt_valid (sw u)"
        using fr idle by (simp_all add: u_def base_simps)
      have w': "(if fst ?k then Some (snd ?k) else prepare_p2p_loop i L E (snd ?k)) = Some w'"
        using Suc.prems(1) True r Inr x n h t b
        by (simp add: u_def tb Let_def case_prod_beta split: if_splits)
      show ?thesis
      proof (cases "fst ?k")
        case True
        with keep_prepared(1) [OF u(3) b [unfolded \<open>b\<close> [THEN eqTrueI]], of ACTIVE_P2P SWITCH_TO_P2P E] w'
        have "prepared L SWITCH_TO_P2P u w'" using \<open>b\<close> by simp
        then show ?thesis by (rule preparedI [rotated 2]) (use u in simp_all)
      next
        case False
        with keep_prepared(2) [OF u(3) b [unfolded \<open>b\<close> [THEN eqTrueI]], of ACTIVE_P2P SWITCH_TO_P2P E] \<open>b\<close>
        have "\<not> pending_pkt_valid (sw (snd ?k))" by simp
        with Suc.IH False w' have "prepared L SWITCH_TO_P2P (snd ?k) w'" by simp
        then show ?thesis by (rule preparedI [rotated 2]) (use u in \<open>simp_all add: base_simps\<close>)
      qed
    qed
  qed
qed

lemma prepare_cdn_prepared:
  "prepare_cdn_loop i L E h w = Some w' \<Longrightarrow> \<not> pending_pkt_valid (sw w) \<Longrightarrow> prepared L SWITCH_TO_CDN w w'"
proof (induction i arbitrary: w)
  case 0
  then show ?case by (simp add: prepared_def)
next
  case (Suc i)
  let ?v = "ext_do (Av_read_frame h) w"
  show ?case
  proof (cases "read_frame L (calls w) h")
    case (Inl e)
    with Suc.prems show ?thesis by (auto simp: prepared_def base_simps av_read_frame_def split: if_splits)
  next
    case (Inr p)
    from Suc.prems(1) Inr obtain st where st: "stream_at (inner_streams L h) (pkt_stream p) = Some st"
      by (auto simp: av_read_frame_def split: option.splits)
    have skip: ?thesis if "prepare_cdn_loop i L E h (ext_do Av_packet_unref ?v) = Some w'"
    proof -
      have "prepared L SWITCH_TO_CDN (ext_do Av_packet_unref ?v) w'" using Suc.IH [OF that] Suc.prems(2) by simp
      then show ?thesis by (rule preparedI [rotated 2]) (simp_all add: base_simps)
    qed
    show ?thesis
    proof (cases "codec_type st = AVMEDIA_TYPE_VIDEO \<and> has_keyframe_info (scan_fuel L) (Some st) p = Some True")
      case False
      then have "prepare_cdn_loop i L E h (ext_do Av_packet_unref ?v) = Some w'"
        using Suc.prems(1) Inr st by (auto simp: av_read_frame_def split: if_splits option.splits)
      then show ?thesis by (rule skip)
    next
      case True
      define u where "u = (if output_video_stream_index ?v = - 1
          then ?v\<lparr>output_video_stream_index := cdn_video_stream_index ?v\<rparr> else ?v)"
      let ?k = "keep_packet E ACTIVE_CDN SWITCH_TO_CDN p (time_base st) u"
      have u: "base u = base w" "tables u = tables w" "\<not> pending_pkt_valid (sw u)"
        using Suc.prems(2) by (simp_all add: u_def base_simps)
      note kp = keep_prepared [OF u(3) conjunct2 [OF True], of ACTIVE_CDN SWITCH_TO_CDN E]
      have w': "(if fst ?k then Some (snd ?k) else prepare_cdn_loop i L E h (snd ?k)) = Some w'"
        using Suc.prems(1) True Inr st
        by (simp add: u_def av_read_frame_def Let_def case_prod_beta split: if_splits)
      show ?thesis
      proof (cases "fst ?k")
        case True
        with kp(1) w' have "prepared L SWITCH_TO_CDN u w'" by simp
        then show ?thesis by (rule preparedI [rotated 2]) (use u in simp_all)
      next
        case False
        with kp(2) have "\<not> pending_pkt_valid (sw (snd ?k))" by simp
        with Suc.IH False w' have "prepared L SWITCH_TO_CDN (snd ?k) w'" by simp
        then show ?thesis by (rule preparedI [rotated 2]) (use u in \<open>simp_all add: base_simps\<close>)
      qed
    qed
  qed
qed

lemma try_p2p_prepared:
  "try_prepare_switch_to_p2p L E w = Some (r, w') \<Longrightarrow> \<not> pending_pkt_valid (sw w) \<Longrightarrow> prepared L SWITCH_TO_P2P w w'"
  by (auto simp: try_prepare_switch_to_p2p_def prepared_def dest: prepare_p2p_prepared [unfolded prepared_def]
      split: if_splits)

lemma try_cdn_prepared:
  "try_prepare_switch_to_cdn L E w = Some (r, w') \<Longrightarrow> \<not> pending_pkt_valid (sw w) \<Longrightarrow> prepared L SWITCH_TO_CDN w w'"
  by (auto simp: try_prepare_switch_to_cdn_def prepared_def dest: prepare_cdn_prepared [unfolded prepared_def]
      split: if_splits option.splits)

section \<open>Commit\<close>

lemma dict_store_frame [base_simps]:
  "base (dict_store E h k v w) = base w" "sw (dict_store E h k v w) = sw w"
  by (simp_all add: dict_store_def base_def ext_int_def Let_def)

lemma install_repair_frame:
  "install_repair L E w = Some w' \<Longrightarrow> base w' = base w \<and> sw w' = sw w"
  by (auto simp: install_repair_def case_prod_beta base_simps Let_def split: option.splits if_splits)

text \<open>The source that a commit of the kept packet leads to.\<close>

fun target_source :: "SwitchTarget \<Rightarrow> ActiveSource \<Rightarrow> ActiveSource" where
  "target_source SWITCH_TO_P2P s = ACTIVE_P2P"
| "target_source SWITCH_TO_CDN s = ACTIVE_CDN"
| "target_source SWITCH_NONE s = s"

lemma commit_idle: "\<not> pending_pkt_valid (sw w) \<Longrightarrow> commit_pending_switch_if_ready L E w = Some (None, w)"
  by (simp add: commit_pending_switch_if_ready_def)

lemma commit_props:
  assumes "commit_pending_switch_if_ready L E w = Some (out, w')" "pending_pkt_valid (sw w)"
  shows "\<not> pending_pkt_valid (sw w')"
    and "active_source (sw w') = target_source (pending_switch (sw w)) (active_source (sw w))"
    and "cdn_active w' \<longleftrightarrow> active_source (sw w') = ACTIVE_CDN"
    and "\<exists>st. stream_at (streams w) (pending_pkt_out_stream_index (sw w)) = Some st \<and>
           (out = None \<or> out = Some (av_packet_rescale_ts ((pending_pkt (sw w))\<lparr>pkt_stream := pending_pkt_out_stream_index (sw w)\<rparr>)
              (pending_pkt_src_tb (sw w)) (time_base st)))"
    and "out = None \<Longrightarrow> \<exists>past. fst (E past Av_packet_ref) \<noteq> 0"
proof -
  define i where "i = pending_pkt_out_stream_index (sw w)"
  define v where "v = upd_sw (\<lambda>s. s\<lparr>pending_pkt := (pending_pkt s)\<lparr>pkt_stream := i\<rparr>\<rparr>) w"
  from assms obtain u where u: "commit_source L E v = Some u"
    by (cases "commit_source L E v") (simp_all add: commit_pending_switch_if_ready_def v_def i_def)
  have su: "sw u = (sw v)\<lparr>active_source := target_source (pending_switch (sw w)) (active_source (sw w))\<rparr>"
    "streams u = streams w"
    using u by (cases "pending_switch (sw w)"; force simp: commit_source_def v_def base_def dest!: install_repair_frame)+
  define z where "z = upd_sw (\<lambda>s. s\<lparr>pending_pkt_valid := False\<rparr>)
      (upd_sw (\<lambda>s. s\<lparr>pending_switch := SWITCH_NONE\<rparr>) u\<lparr>cdn_active := (active_source (sw u) = ACTIVE_CDN)\<rparr>)"
  have z: "sw z = (sw u)\<lparr>pending_switch := SWITCH_NONE, pending_pkt_valid := False\<rparr>" "streams z = streams w"
    "cdn_active z \<longleftrightarrow> active_source (sw u) = ACTIVE_CDN"
    by (simp_all add: z_def su)
  have com: "commit_pending_switch_if_ready L E w = map_option (\<lambda>st. commit_packet E st z) (stream_at (streams z) i)"
    using assms(2) by (simp add: commit_pending_switch_if_ready_def u v_def [symmetric] i_def [symmetric] z_def Let_def)
  from com assms(1) z(2) have "map_option (\<lambda>st. commit_packet E st z) (stream_at (streams w) i) = Some (out, w')"
    by (simp only:)
  then obtain st where st: "stream_at (streams w) i = Some st" and p: "commit_packet E st z = (out, w')"
    by (cases "stream_at (streams w) i") simp_all
  have w': "w' = ext_do Av_packet_unref (upd_sw (\<lambda>s. s\<lparr>pending_pkt := blank_packet\<rparr>) (snd (ext_int E Av_packet_ref z)))"
    and out: "out = (if fst (E (calls z) Av_packet_ref) = 0
      then Some (av_packet_rescale_ts (pending_pkt (sw z)) (pending_pkt_src_tb (sw z)) (time_base st)) else None)"
    using p by (simp_all add: commit_packet_def ext_int_def Let_def)
  show "\<not> pending_pkt_valid (sw w')" by (simp add: w' z)
  show a: "active_source (sw w') = target_source (pending_switch (sw w)) (active_source (sw w))"
    by (simp add: w' z su)
  have "cdn_active w' = cdn_active z" by (simp add: w' ext_do_def ext_int_def)
  with a su z show "cdn_active w' \<longleftrightarrow> active_source (sw w') = ACTIVE_CDN" by simp
  show "\<exists>st. stream_at (streams w) (pending_pkt_out_stream_index (sw w)) = Some st \<and>
      (out = None \<or> out = Some (av_packet_rescale_ts ((pending_pkt (sw w))\<lparr>pkt_stream := pending_pkt_out_stream_index (sw w)\<rparr>)
        (pending_pkt_src_tb (sw w)) (time_base st)))"
    using st out su z by (intro exI [of _ st]) (simp add: i_def v_def)
  assume "out = None"
  then show "\<exists>past. fst (E past Av_packet_ref) \<noteq> 0" using out by (auto split: if_splits)
qed

lemma commit_cleared:
  "commit_pending_switch_if_ready L E w = Some (out, w') \<Longrightarrow> \<not> pending_pkt_valid (sw w')"
  using commit_props(1) [of L E w out w'] commit_idle [of w L E] by (cases "pending_pkt_valid (sw w)") auto

section \<open>The turns of the demuxer\<close>

lemma keyframe_cong:
  "pkt_data p = pkt_data q \<Longrightarrow> pkt_key p = pkt_key q \<Longrightarrow> has_keyframe_info fuel st p = has_keyframe_info fuel st q"
  unfolding has_keyframe_info_def by (simp only:)

lemma rescale_data [simp]:
  "pkt_data (av_packet_rescale_ts p a b) = pkt_data p" "pkt_key (av_packet_rescale_ts p a b) = pkt_key p"
  "pkt_stream (av_packet_rescale_ts p a b) = pkt_stream p"
  by (simp_all add: av_packet_rescale_ts_def)

text \<open>A turn changes the source only together with the output of a key frame.\<close>

definition turn_ok :: "layers \<Rightarrow> ext \<Rightarrow> demux \<Rightarrow> AVPacket res \<Rightarrow> demux \<Rightarrow> bool" where
  "turn_ok L E w r w' \<longleftrightarrow> switch_ok L w' \<and>
     (active_source (sw w') \<noteq> active_source (sw w) \<longrightarrow>
        (\<exists>past. fst (E past Av_packet_ref) \<noteq> 0)
        \<or> (\<exists>p st. r = Ok p \<and> has_keyframe_info (scan_fuel L) (Some st) p = Some True))"

lemma commit_turn:
  assumes "commit_pending_switch_if_ready L E w = Some (out, w')" "switch_ok L w"
    and r: "\<And>p. out = Some p \<Longrightarrow> r = Ok p"
  shows "turn_ok L E w r w'"
proof (cases "pending_pkt_valid (sw w)")
  case False
  with assms commit_idle have "w' = w" by simp
  then show ?thesis using assms(2) by (simp add: turn_ok_def)
next
  case True
  note c = commit_props [OF assms(1) True]
  have k: "kept_ok L (sw w)" using assms(2) True by (simp add: switch_ok_def)
  show ?thesis
  proof (cases out)
    case None
    with c(5) have "\<exists>past. fst (E past Av_packet_ref) \<noteq> 0" by blast
    with c(1,3) show ?thesis by (simp add: turn_ok_def switch_ok_def)
  next
    case (Some q)
    from c(4) Some have "pkt_data q = pkt_data (pending_pkt (sw w))" "pkt_key q = pkt_key (pending_pkt (sw w))" by auto
    then obtain st where "has_keyframe_info (scan_fuel L) (Some st) q = Some True"
      using k keyframe_cong unfolding kept_ok_def by metis
    with r [OF Some] c(1,3) show ?thesis by (auto simp: turn_ok_def switch_ok_def)
  qed
qed

lemma prepared_switch_ok: "prepared L t w w' \<Longrightarrow> switch_ok L w \<Longrightarrow> switch_ok L w'"
  by (auto simp: prepared_def switch_ok_def base_def)

text \<open>Preparation keeps the source, so the turn after it is the turn of the whole.\<close>

lemma prepared_turn:
  "prepared L t w w1 \<Longrightarrow> turn_ok L E w1 r w' \<Longrightarrow> turn_ok L E w r w'"
  by (auto simp: prepared_def turn_ok_def base_def)

lemma switch_ok_pending:
  "switch_ok L w \<Longrightarrow> \<not> pending_pkt_valid (sw w) \<Longrightarrow> switch_ok L (upd_sw (\<lambda>s. s\<lparr>pending_switch := t\<rparr>) w)"
  by (simp add: switch_ok_def)

lemma switch_ok_base: "base w' = base w \<Longrightarrow> sw w' = sw w \<Longrightarrow> switch_ok L w' = switch_ok L w"
  by (simp add: switch_ok_def base_def)

lemma turn_ok_base: "base v = base w \<Longrightarrow> turn_ok L E v r w' = turn_ok L E w r w'"
  by (simp add: turn_ok_def base_def)

lemma turn_ok_same: "switch_ok L w' \<Longrightarrow> base w' = base w \<Longrightarrow> turn_ok L E w r w'"
  by (simp add: turn_ok_def base_def)

lemma turn_none:
  assumes "read_turn_none L E w = Some (r, w')" "switch_ok L w" "\<not> pending_pkt_valid (sw w)"
  shows "turn_ok L E w r w'"
proof (cases "p2p_connect_ready w \<and> selected_node w \<noteq> None")
  case True
  then obtain x where "try_prepare_switch_to_p2p L E w = Some (x, w')"
    using assms(1) by (auto simp: read_turn_none_def)
  then have "prepared L SWITCH_TO_P2P w w'" using assms(3) by (rule try_p2p_prepared)
  then show ?thesis
    using prepared_switch_ok [OF _ assms(2)] by (intro turn_ok_same) (simp_all add: prepared_def)
next
  case False
  then have "w' = w" using assms(1) unfolding read_turn_none_def if_not_P [OF False] by simp
  then show ?thesis using assms(2) by (intro turn_ok_same) simp_all
qed

lemma turn_cdn:
  assumes "read_turn_cdn L E w = Some (r, w')" "switch_ok L w" "\<not> pending_pkt_valid (sw w)"
  shows "turn_ok L E w r w'"
proof -
  from assms(1) obtain r1 v where v: "read_one_from_cdn L w = Some (r1, v)"
    by (auto simp: read_turn_cdn_def split: option.splits)
  note fr = read_cdn_frame [OF v]
  have ok: "switch_ok L v" "\<not> pending_pkt_valid (sw v)"
    using switch_ok_base [of v w L] fr assms(2,3) by simp_all
  let ?u = "upd_sw (\<lambda>s. s\<lparr>pending_switch := SWITCH_TO_P2P\<rparr>) v"
  show ?thesis
  proof (cases "p2p_connect_ready v \<and> selected_node v \<noteq> None")
    case False
    then have "w' = v"
      using assms(1) unfolding read_turn_cdn_def v option.case prod.case if_not_P [OF False] by simp
    then show ?thesis using ok fr by (intro turn_ok_same) simp_all
  next
    case True
    then obtain x t where t: "try_prepare_switch_to_p2p L E ?u = Some (x, t)"
      using assms(1) v by (auto simp: read_turn_cdn_def split: option.splits)
    have p: "prepared L SWITCH_TO_P2P ?u t" by (rule try_p2p_prepared [OF t]) (use ok in simp)
    have "switch_ok L ?u" using ok by (rule switch_ok_pending)
    with p have t': "switch_ok L t" "base t = base w"
      using prepared_switch_ok [OF p] fr by (simp_all add: prepared_def base_simps)
    obtain out where c: "commit_pending_switch_if_ready L E t = Some (out, w')" and "\<And>p. out = Some p \<Longrightarrow> r = Ok p"
      using assms(1) v t True by (auto simp: read_turn_cdn_def split: option.splits)
    then have "turn_ok L E t r w'" using t'(1) by (intro commit_turn)
    with turn_ok_base [OF t'(2)] show ?thesis by blast
  qed
qed

lemma create_loop_frame:
  "cdn_active (snd (create_cdn_loop E srcs w)) = cdn_active w \<and> sw (snd (create_cdn_loop E srcs w)) = sw w"
  by (induction srcs arbitrary: w) (simp_all add: Let_def case_prod_beta ext_int_def place_stream_def)

lemma create_frame:
  "cdn_active (snd (create_cdn_streams L E w)) = cdn_active w" "sw (snd (create_cdn_streams L E w)) = sw w"
proof -
  have "cdn_active (snd (create_cdn_streams L E w)) = cdn_active w \<and> sw (snd (create_cdn_streams L E w)) = sw w"
    by (simp add: create_cdn_streams_def Let_def case_prod_beta create_loop_frame ext_int_def ext_do_def
        split: option.split)
  then show "cdn_active (snd (create_cdn_streams L E w)) = cdn_active w" "sw (snd (create_cdn_streams L E w)) = sw w"
    by simp_all
qed

lemma fallback_turn:
  assumes "fallback_to_cdn L E e w = Some (r, w')" "switch_ok L w" "\<not> pending_pkt_valid (sw w)"
  shows "turn_ok L E w r w'"
proof -
  define u where "u = upd_sw (\<lambda>s. s\<lparr>pending_switch := SWITCH_TO_CDN\<rparr>) w"
  define c where "c = (if cdn_fmt_ctx u = None \<and> cdn_url u \<noteq> None then snd (create_cdn_streams L E u) else u)"
  have c: "cdn_active c = cdn_active w" "active_source (sw c) = active_source (sw w)" "\<not> pending_pkt_valid (sw c)"
    using assms(3) by (auto simp: c_def u_def create_frame)
  then have okc: "switch_ok L c" using assms(2) by (simp add: switch_ok_def)
  note turn = assms(1) [unfolded fallback_to_cdn_def Let_def, folded u_def, folded c_def]
  have "turn_ok L E c r w'"
  proof (cases "cdn_fmt_ctx c = None")
    case True
    then have "w' = c" using turn by simp
    with okc show ?thesis by (intro turn_ok_same) simp_all
  next
    case False
    then obtain x t where t: "try_prepare_switch_to_cdn L E c = Some (x, t)"
      using turn by (auto split: option.splits)
    then have p: "prepared L SWITCH_TO_CDN c t" using c(3) by (rule try_cdn_prepared)
    obtain out where "commit_pending_switch_if_ready L E t = Some (out, w')" "\<And>p. out = Some p \<Longrightarrow> r = Ok p"
      using turn t False by (auto split: option.splits)
    then have "turn_ok L E t r w'" using prepared_switch_ok [OF p okc] by (intro commit_turn)
    with p show ?thesis by (rule prepared_turn)
  qed
  then show ?thesis using c by (simp add: turn_ok_def)
qed

lemma turn_p2p:
  assumes "read_turn_p2p L E w = Some (r, w')" "switch_ok L w" "\<not> pending_pkt_valid (sw w)"
  shows "turn_ok L E w r w'"
proof -
  from assms(1) obtain r1 v where v: "read_one_from_p2p L w = Some (r1, v)"
    by (auto simp: read_turn_p2p_def split: option.splits)
  note fr = read_p2p_frame [OF v]
  have ok: "switch_ok L v" "\<not> pending_pkt_valid (sw v)"
    using switch_ok_base [of v w L] fr assms(2,3) by simp_all
  show ?thesis
  proof (cases r1)
    case (Inr x)
    obtain p out tb where x: "x = (p, out, tb)" by (cases x)
    from assms(1) v Inr x have "base w' = base v" "sw w' = sw v"
      by (auto simp: read_turn_p2p_def Let_def ext_int_def base_def split: option.splits)
    then show ?thesis using fr ok switch_ok_base [of w' v L] by (intro turn_ok_same) simp_all
  next
    case (Inl e)
    let ?v = "v\<lparr>p2p_transport_error_times := p2p_transport_error_times v + 1\<rparr>"
    have v1: "base ?v = base w" "switch_ok L ?v" "\<not> pending_pkt_valid (sw ?v)"
      using ok fr by (simp_all add: switch_ok_def base_simps)
    have turn: "(if p2p_transport_error_times ?v > 100 then fallback_to_cdn L E e ?v else Some (Err e, ?v)) = Some (r, w')"
      using assms(1) unfolding read_turn_p2p_def v Inl option.case prod.case sum.case Let_def .
    have "turn_ok L E ?v r w'"
    proof (cases "p2p_transport_error_times ?v > 100")
      case False
      then have "w' = ?v" using turn by simp
      with v1 show ?thesis by (intro turn_ok_same) simp_all
    next
      case True
      with turn have "fallback_to_cdn L E e ?v = Some (r, w')" by (simp only: if_True)
      then show ?thesis using v1(2,3) by (rule fallback_turn)
    qed
    with turn_ok_base [OF v1(1)] show ?thesis by blast
  qed
qed

lemma read_packet_turn:
  assumes "p2p_rtp_read_packet L E w = Some (r, w')" "switch_ok L w"
  shows "turn_ok L E w r w'"
proof -
  from assms(1) obtain out v where c: "commit_pending_switch_if_ready L E w = Some (out, v)"
    by (auto simp: p2p_rtp_read_packet_def split: option.splits)
  show ?thesis
  proof (cases out)
    case (Some p)
    with assms(1) c have "v = w'" "r = Ok p" by (simp_all add: p2p_rtp_read_packet_def)
    with c Some show ?thesis by (intro commit_turn [OF _ assms(2)]) auto
  next
    case None
    then have ok: "turn_ok L E w (Err EAGAIN) v" using commit_turn [OF c assms(2), of "Err EAGAIN"] by simp
    have idle: "\<not> pending_pkt_valid (sw v)" using c by (rule commit_cleared)
    have "turn_ok L E v r w'"
      using assms(1) c None idle ok turn_none [of L E v r w'] turn_cdn [of L E v r w'] turn_p2p [of L E v r w']
      by (cases "active_source (sw v)") (simp_all add: p2p_rtp_read_packet_def turn_ok_def)
    with ok show ?thesis by (auto simp: turn_ok_def)
  qed
qed

section \<open>Properties\<close>

text \<open>A sequence of reads; None when one of them does not come back.\<close>

fun reads :: "nat \<Rightarrow> layers \<Rightarrow> ext \<Rightarrow> demux \<Rightarrow> (AVPacket res list \<times> demux) option" where
  "reads 0 L E w = Some ([], w)"
| "reads (Suc k) L E w =
     (case p2p_rtp_read_packet L E w of None \<Rightarrow> None
      | Some (r, w) \<Rightarrow> map_option (\<lambda>(rs, w). (r # rs, w)) (reads k L E w))"

lemma read_packet_idle:
  assumes "\<not> pending_pkt_valid (sw w)"
  shows "p2p_rtp_read_packet L E w = (case active_source (sw w) of
       ACTIVE_NONE \<Rightarrow> read_turn_none L E w | ACTIVE_CDN \<Rightarrow> read_turn_cdn L E w | ACTIVE_P2P \<Rightarrow> read_turn_p2p L E w)"
  by (simp add: p2p_rtp_read_packet_def commit_idle [OF assms])

lemma read_p2p_fails:
  assumes "selected_node w = Some n" "video_rtp_ctx w n = Some h" "read_frame L (calls w) h = Err e"
  shows "read_one_from_p2p L w = Some (Err e, ext_do (Av_read_frame h) w)"
  using assms by (simp add: read_one_from_p2p_def av_read_frame_def)

lemma video_rtp_ctx_cong:
  "nodes w' = nodes w \<Longrightarrow> tracks w' = tracks w \<Longrightarrow> video_rtp_ctx w' n = video_rtp_ctx w n"
  by (simp add: video_rtp_ctx_def node_at_def track_at_def split: option.split)

lemma error_times_ext [simp]: "p2p_transport_error_times (ext_do c w) = p2p_transport_error_times w"
  by (cases w) (simp add: ext_do_def)

text \<open>The loop of preparation takes a key frame that comes first.\<close>

lemma prepare_cdn_first:
  assumes "read_frame L (calls w) h = Ok p" "stream_at (inner_streams L h) (pkt_stream p) = Some st"
    and "codec_type st = AVMEDIA_TYPE_VIDEO" "has_keyframe_info (scan_fuel L) (Some st) p = Some True"
    and "\<And>past. fst (E past Av_packet_ref) = 0" "output_video_stream_index w \<noteq> - 1"
  shows "prepare_cdn_loop (Suc i) L E h w = Some (snd (keep_packet E ACTIVE_CDN SWITCH_TO_CDN p (time_base st)
      (ext_do (Av_read_frame h) w))) \<and> fst (keep_packet E ACTIVE_CDN SWITCH_TO_CDN p (time_base st)
      (ext_do (Av_read_frame h) w))"
proof -
  have "output_video_stream_index (ext_do (Av_read_frame h) w) \<noteq> - 1"
    using assms(6) by (cases w) (simp add: ext_do_def)
  moreover have "fst (keep_packet E ACTIVE_CDN SWITCH_TO_CDN p (time_base st) (ext_do (Av_read_frame h) w))"
    using assms(5) by (simp add: keep_packet_cases)
  ultimately show ?thesis
    using assms by (simp add: av_read_frame_def Let_def case_prod_beta)
qed

lemma commit_to_cdn:
  assumes "pending_pkt_valid (sw w)" "pending_switch (sw w) = SWITCH_TO_CDN"
    and "stream_at (streams w) (pending_pkt_out_stream_index (sw w)) = Some dst"
    and "\<And>past. fst (E past Av_packet_ref) = 0"
  shows "\<exists>w'. commit_pending_switch_if_ready L E w = Some (Some (av_packet_rescale_ts
      ((pending_pkt (sw w))\<lparr>pkt_stream := pending_pkt_out_stream_index (sw w)\<rparr>)
      (pending_pkt_src_tb (sw w)) (time_base dst)), w')
    \<and> sw w' = (sw w)\<lparr>active_source := ACTIVE_CDN, pending_switch := SWITCH_NONE, pending_pkt_valid := False,
         pending_pkt := blank_packet\<rparr>
    \<and> w' = w\<lparr>calls := calls w', sw := sw w', cdn_active := True\<rparr>"
  using assms by (simp add: commit_pending_switch_if_ready_def commit_source_def commit_packet_def Let_def
      ext_int_def ext_do_def)

section \<open>The streams of the CDN are found\<close>

lemma stream_at_append: "stream_at ss i = Some s \<Longrightarrow> stream_at (ss @ ts) i = Some s"
  by (auto simp: stream_at_def nth_append split: if_splits)

definition is_video :: "AVStream \<Rightarrow> bool" where "is_video s \<longleftrightarrow> codec_type s = AVMEDIA_TYPE_VIDEO"
definition is_audio :: "AVStream \<Rightarrow> bool" where "is_audio s \<longleftrightarrow> codec_type s = AVMEDIA_TYPE_AUDIO"

text \<open>Where the first stream of a kind was put, if the index was not set before.\<close>

definition placed :: "(AVStream \<Rightarrow> bool) \<Rightarrow> AVStream list \<Rightarrow> AVStream list \<Rightarrow> int \<Rightarrow> int \<Rightarrow> bool" where
  "placed P srcs ss old new \<longleftrightarrow>
     (if old < 0 then (case find P srcs of None \<Rightarrow> new = old | Some s \<Rightarrow> stream_at ss new = Some s)
      else new = old)"

lemma stream_at_new [simp]: "stream_at ((ss @ [z])[length ss := s] @ ts) (int (length ss)) = Some s"
  by (simp add: stream_at_def nth_append)

lemma create_loop_places:
  "create_cdn_loop E srcs w = (None, w') \<Longrightarrow>
     (\<exists>ts. streams w' = streams w @ ts)
     \<and> placed is_video srcs (streams w') (cdn_video_stream_index w) (cdn_video_stream_index w')
     \<and> placed is_audio srcs (streams w') (cdn_audio_stream_index w) (cdn_audio_stream_index w')"
proof (induction srcs arbitrary: w)
  case Nil
  then show ?case by (simp add: placed_def)
next
  case (Cons src srcs)
  show ?case
  proof (cases "codec_type src \<in> {AVMEDIA_TYPE_VIDEO, AVMEDIA_TYPE_AUDIO}")
    case False
    then have "create_cdn_loop E srcs w = (None, w')" "\<not> is_video src" "\<not> is_audio src"
      using Cons.prems by (auto simp: is_video_def is_audio_def)
    with Cons.IH show ?thesis by (simp add: placed_def)
  next
    case True
    let ?si = "length (streams w)"
    define v where "v = snd (ext_int E (Avcodec_parameters_copy (int ?si))
        ((snd (ext_int E Avformat_new_stream w))\<lparr>streams := streams w @ [zero_stream]\<rparr>))"
    define v3 where "v3 = place_stream src (int ?si) (v\<lparr>streams := (streams v)[?si := src]\<rparr>)"
    have run: "(if cdn_video_stream_index v3 \<ge> 0 \<and> cdn_audio_stream_index v3 \<ge> 0 then (None, v3)
        else create_cdn_loop E srcs v3) = (None, w')"
      using Cons.prems True unfolding v3_def v_def
      by (auto simp: Let_def case_prod_beta split: if_splits)
    have sv: "streams v = streams w @ [zero_stream]" "cdn_video_stream_index v = cdn_video_stream_index w"
      "cdn_audio_stream_index v = cdn_audio_stream_index w"
      by (simp_all add: v_def ext_int_def)
    have ss: "streams v3 = (streams w @ [zero_stream])[?si := src]"
      by (simp add: v3_def place_stream_def Let_def sv)
    have vi: "cdn_video_stream_index v3 = (if is_video src \<and> cdn_video_stream_index w < 0 then int ?si else cdn_video_stream_index w)"
      by (simp add: v3_def place_stream_def is_video_def Let_def sv)
    have ai: "cdn_audio_stream_index v3 = (if is_audio src \<and> cdn_audio_stream_index w < 0 then int ?si else cdn_audio_stream_index w)"
      by (simp add: v3_def place_stream_def is_audio_def Let_def sv)
    have rest: "(\<exists>ts. streams w' = streams v3 @ ts)
       \<and> placed is_video srcs (streams w') (cdn_video_stream_index v3) (cdn_video_stream_index w')
       \<and> placed is_audio srcs (streams w') (cdn_audio_stream_index v3) (cdn_audio_stream_index w')"
      using run Cons.IH by (auto simp: placed_def split: if_splits)
    then obtain ts where ts: "streams w' = (streams w @ [zero_stream])[?si := src] @ ts" using ss by auto
    then have ex: "\<exists>ts. streams w' = streams w @ ts" by (simp add: list_update_append)
    have at: "stream_at (streams w') (int ?si) = Some src" unfolding ts by (rule stream_at_new)
    have "placed is_video (src # srcs) (streams w') (cdn_video_stream_index w) (cdn_video_stream_index w')"
      using rest vi at by (auto simp: placed_def split: if_splits)
    moreover have "placed is_audio (src # srcs) (streams w') (cdn_audio_stream_index w) (cdn_audio_stream_index w')"
      using rest ai at by (auto simp: placed_def split: if_splits)
    ultimately show ?thesis using ex by blast
  qed
qed

section \<open>An example\<close>

text \<open>The CDN delivers one key frame, then other pictures; the publisher's track has ended.\<close>

definition example_key :: AVPacket where
  "example_key = \<lparr>pkt_data = [0, 0, 0, 1, 0x67, 1, 0, 0, 0, 1, 0x68, 1, 0, 0, 0, 1, 0x65, 1], pkt_stream = 0,
     pkt_key = True, pkt_pts = 9000, pkt_dts = 9000, pkt_duration = 0\<rparr>"

definition example_picture :: AVPacket where
  "example_picture = example_key\<lparr>pkt_data := [0, 0, 0, 1, 0x41, 1], pkt_key := False\<rparr>"

definition cdn_stream :: AVStream where
  "cdn_stream = zero_stream\<lparr>codec_type := AVMEDIA_TYPE_VIDEO, codec_id := CODEC_H264, time_base := (1, 90000)\<rparr>"

definition example_layers :: layers where
  "example_layers = \<lparr>read_frame = (\<lambda>past h. if h = 8 then Err AVERROR_EOF
       else Ok (if Av_read_frame 9 \<in> set past then example_picture else example_key)),
     inner_streams = (\<lambda>h. [cdn_stream]), scan_fuel = 64, video_gop = 3, repair_app = ''live''\<rparr>"

definition example_live :: demux where
  "example_live = example_demux\<lparr>nodes := [2 \<mapsto> zero_node\<lparr>video_track := Some 2\<rparr>],
     tracks := [2 \<mapsto> zero_track\<lparr>rtp_ctx := Some 8\<rparr>], streams := [cdn_stream], selected_node := Some 2,
     output_video_stream_index := 0, cdn_video_stream_index := 0, cdn_fmt_ctx := Some 9,
     p2p_transport_error_times := 100, sw := example_sw\<lparr>active_source := ACTIVE_P2P\<rparr>\<rparr>"

lemma example_key_frame: "has_keyframe_info 64 (Some cdn_stream) example_key = Some True"
  by code_simp

lemma example_live_simps:
  "active_source (sw example_live) = ACTIVE_P2P" "\<not> pending_pkt_valid (sw example_live)"
  "selected_node example_live = Some 2" "video_rtp_ctx example_live 2 = Some 8" "\<not> cdn_active example_live"
  "p2p_transport_error_times example_live = 100" "cdn_fmt_ctx example_live = Some 9"
  "output_video_stream_index example_live = 0" "streams example_live = [cdn_stream]"
  "calls example_live = []"
  by (simp_all add: example_live_def example_demux_def example_sw_def video_rtp_ctx_def node_at_def track_at_def
      zero_node_def zero_track_def)

section \<open>Invariant and switching\<close>






lemma sw_frame: "own v = own w \<Longrightarrow> sw v = sw (w :: demux) \<and> cdn_active v = cdn_active w"
  by (drule ownD(1), cases v, cases w) simp

lemma ws_wait_sw:
  assumes "\<And>k v. sw (ws_env k v) = sw v \<and> cdn_active (ws_env k v) = cdn_active v"
  shows "ws_wait fuel ws_env k w = Some w' \<Longrightarrow> sw w' = sw w \<and> cdn_active w' = cdn_active w"
proof (induction fuel arbitrary: k w)
  case (Suc fuel)
  show ?case
  proof (cases "web_socket_connected w = 0")
    case True
    with Suc.prems have "ws_wait fuel ws_env (Suc k) (ws_env k (ext_do (Av_usleep 1000) w)) = Some w'" by simp
    from Suc.IH [OF this] assms [of k "ext_do (Av_usleep 1000) w"] show ?thesis by (simp add: ext_do_def)
  next
    case False
    with Suc.prems show ?thesis by simp
  qed
qed simp

lemma signal_server_sw:
  assumes "\<And>k v. sw (ws_env k v) = sw v \<and> cdn_active (ws_env k v) = cdn_active v"
    and "p2p_init_signal_server fuel E ws_env w = Some (ret, w')"
  shows "sw w' = sw w \<and> cdn_active w' = cdn_active w"
  using assms(2) ws_wait_sw [OF assms(1)]
  by (fastforce simp: p2p_init_signal_server_def init_ws_resource_def Let_def case_prod_beta ext_int_def ext_do_def)

lemma set_receiver_state_sw [simp]:
  "sw (set_receiver_state E q w) = sw w" "cdn_active (set_receiver_state E q w) = cdn_active w"
  by (simp_all add: set_receiver_state_def Let_def ext_int_def)

lemma init_switch:
  assumes "\<And>k v. sw (ws_env k v) = sw v \<and> cdn_active (ws_env k v) = cdn_active v"
    and "p2p_rtp_demux_init fuel E pr ws_env url w = Some (r, w')"
  shows "sw w' = switch_state_init (sw w) \<and> \<not> cdn_active w'"
proof -
  let ?w = "demux_init_state E url w"
  have w1: "sw ?w = switch_state_init (sw w)" "\<not> cdn_active ?w"
    by (simp_all add: demux_init_state_def Let_def case_prod_beta ext_int_def ext_do_def split: option.split)
  from assms(2) obtain ret v where v: "p2p_init_signal_server fuel E ws_env ?w = Some (ret, v)"
    by (auto simp: p2p_rtp_demux_init_def split: option.splits)
  define u where "u = snd (p2p_set_signal_message_handler E v)"
  have u: "sw u = sw v" "cdn_active u = cdn_active v"
    by (simp_all add: u_def p2p_set_signal_message_handler_def Let_def case_prod_beta ext_int_def)
  have j: "own (snd (p2p_join_room_as_receiver E pr rm u)) = own u" for rm
    by (simp add: p2p_join_room_as_receiver_def frame_simps)
  define rm where "rm = Some (case room u of None \<Rightarrow> ''default_room'' | Some r \<Rightarrow> r)"
  have "w' \<in> {v, u, snd (p2p_join_room_as_receiver E pr rm u)}"
    using assms(2) v unfolding p2p_rtp_demux_init_def
    by (cases "p2p_set_signal_message_handler E v"; cases "p2p_join_room_as_receiver E pr rm u")
      (auto simp: u_def rm_def split: if_splits sum.splits)
  then show ?thesis
    using signal_server_sw [OF assms(1) v] w1 u sw_frame [OF j] by auto
qed

text \<open>When the header has been read, the demuxer starts either from the CDN, with a key frame of the
  CDN ready to be put out first, or without a source.\<close>

theorem header_start:
  assumes "p2p_rtp_read_header fuel L E pr ws_env url w = Some (Ok r, w')"
    and "\<And>k v. sw (ws_env k v) = sw v \<and> cdn_active (ws_env k v) = cdn_active v"
  shows "r = 0 \<and> switch_ok L w'
    \<and> (active_source (sw w') = ACTIVE_CDN \<and> pending_pkt_valid (sw w') \<and> pending_switch (sw w') = SWITCH_TO_CDN
       \<or> active_source (sw w') = ACTIVE_NONE)"
proof -
  from assms(1) obtain r0 v where v: "p2p_rtp_demux_init fuel E pr ws_env url w = Some (Ok r0, v)"
    by (auto simp: p2p_rtp_read_header_def split: option.splits sum.splits)
  note init = init_switch [OF assms(2) v]
  define c where "c = create_cdn_streams L E (v\<lparr>cdn_url := url\<rparr>)"
  have c: "cdn_active (snd c) = cdn_active v" "sw (snd c) = sw v" by (simp_all add: c_def create_frame)
  then have ok: "switch_ok L (snd c)" "\<not> pending_pkt_valid (sw (snd c))" "active_source (sw (snd c)) = ACTIVE_NONE"
    using init by (simp_all add: switch_ok_def switch_state_init_def)
  show ?thesis
  proof (cases "fst c")
    case (Inl e)
    then have "r = 0" "w' = (snd c)\<lparr>cdn_active := False\<rparr>"
      using assms(1) v by (simp_all add: p2p_rtp_read_header_def c_def prod.case_eq_if)
    with ok show ?thesis by (simp add: switch_ok_def)
  next
    case (Inr x)
    then obtain y t where t: "try_prepare_switch_to_cdn L E (snd c) = Some (y, t)"
      using assms(1) v by (auto simp: p2p_rtp_read_header_def c_def prod.case_eq_if split: option.splits)
    then have p: "prepared L SWITCH_TO_CDN (snd c) t" using ok(2) by (rule try_cdn_prepared)
    then have a: "switch_ok L t" "active_source (sw t) = ACTIVE_NONE" "\<not> cdn_active t"
      using prepared_switch_ok [OF p ok(1)] ok c init by (simp_all add: prepared_def base_def)
    show ?thesis
    proof (cases y)
      case (Inl e)
      then have "r = 0" "w' = t" using assms(1) v Inr t by (simp_all add: p2p_rtp_read_header_def c_def prod.case_eq_if)
      with a show ?thesis by simp
    next
      case (Inr z)
      then have w': "r = 0" "w' = upd_sw (\<lambda>s. s\<lparr>active_source := ACTIVE_CDN\<rparr>) (t\<lparr>cdn_active := True\<rparr>)"
        using assms(1) v \<open>fst c = Inr x\<close> t by (simp_all add: p2p_rtp_read_header_def c_def prod.case_eq_if)
      have "pending_pkt_valid (sw t)"
        using t Inr by (auto simp: try_prepare_switch_to_cdn_def pending_result_def split: option.splits if_splits)
      with p w' show ?thesis by (auto simp: prepared_def switch_ok_def kept_ok_def)
    qed
  qed
qed

definition example_ext :: ext where
  "example_ext past c = (if c = Av_packet_ref then 0 else 9, [])"

definition socket_opens :: "nat \<Rightarrow> demux \<Rightarrow> demux" where
  "socket_opens k w = w\<lparr>web_socket_connected := 1\<rparr>"

theorem header_start_witness:
  "\<exists>w'. p2p_rtp_read_header 5 example_layers example_ext (\<lambda>_. []) socket_opens (Some ''u?stream=s'') example_demux
      = Some (Ok 0, w')
     \<and> active_source (sw w') = ACTIVE_CDN \<and> pending_pkt_valid (sw w') \<and> cdn_active w'"
proof -
  have "map_option (\<lambda>(r, w). (is_ok r, active_source (sw w))) (p2p_rtp_read_header 5 example_layers example_ext (\<lambda>_. [])
      socket_opens (Some ''u?stream=s'') example_demux) = Some (True, ACTIVE_CDN)"
    by code_simp
  then obtain r w' where r: "p2p_rtp_read_header 5 example_layers example_ext (\<lambda>_. [])
      socket_opens (Some ''u?stream=s'') example_demux = Some (Ok r, w')"
    and a: "active_source (sw w') = ACTIVE_CDN" by (auto simp: is_ok_iff)
  with header_start [OF r] show ?thesis by (simp add: socket_opens_def switch_ok_def)
qed

lemma one_loss:
  assumes "active_source (sw w) = ACTIVE_P2P" "\<not> pending_pkt_valid (sw w)" "selected_node w = Some n"
    and "video_rtp_ctx w n = Some h" "read_frame L (calls w) h = Err e" "p2p_transport_error_times w < 100"
  shows "p2p_rtp_read_packet L E w
    = Some (Err e, (ext_do (Av_read_frame h) w)\<lparr>p2p_transport_error_times := p2p_transport_error_times w + 1\<rparr>)"
  using assms(1,6) by (simp add: read_packet_idle [OF assms(2)] read_turn_p2p_def read_p2p_fails [OF assms(3-5)] Let_def)

text \<open>C25. A publisher that fails is given up only after more than a hundred failures in a row: up to
  then each read hands its error on, and the publisher stays the active source.\<close>

theorem losses_tolerated:
  assumes "active_source (sw w) = ACTIVE_P2P" "\<not> pending_pkt_valid (sw w)" "selected_node w = Some n"
    and "video_rtp_ctx w n = Some h" "\<And>past. read_frame L past h = Err e"
    and "p2p_transport_error_times w + int k \<le> 100"
  shows "\<exists>w'. reads k L E w = Some (replicate k (Err e), w') \<and> active_source (sw w') = ACTIVE_P2P
    \<and> p2p_transport_error_times w' = p2p_transport_error_times w + int k"
  using assms
proof (induction k arbitrary: w)
  case (Suc k)
  let ?v = "(ext_do (Av_read_frame h) w)\<lparr>p2p_transport_error_times := p2p_transport_error_times w + 1\<rparr>"
  have "p2p_rtp_read_packet L E w = Some (Err e, ?v)"
    by (rule one_loss) (use Suc.prems in simp_all)
  moreover have "\<exists>w'. reads k L E ?v = Some (replicate k (Err e), w') \<and> active_source (sw w') = ACTIVE_P2P
      \<and> p2p_transport_error_times w' = p2p_transport_error_times ?v + int k"
    by (rule Suc.IH) (use Suc.prems video_rtp_ctx_cong [of ?v w n] in simp_all)
  ultimately show ?case by auto
qed simp

theorem losses_tolerated_witness:
  "\<exists>w'. reads 3 example_layers (\<lambda>_ _. (0, [])) (example_live\<lparr>p2p_transport_error_times := 97\<rparr>)
     = Some ([Err AVERROR_EOF, Err AVERROR_EOF, Err AVERROR_EOF], w') \<and> active_source (sw w') = ACTIVE_P2P"
  using losses_tolerated [of "example_live\<lparr>p2p_transport_error_times := 97\<rparr>" 2 8 example_layers AVERROR_EOF 3 "\<lambda>_ _. (0, [])"]
    video_rtp_ctx_cong [of "example_live\<lparr>p2p_transport_error_times := 97\<rparr>" example_live 2]
  by (auto simp: example_live_simps example_layers_def numeral_3_eq_3)





text \<open>When the inner demuxer of the CDN opens, each of its first video and first audio stream has
  got an output stream of its own with the same parameters and time base, and the streams that
  were there before are unchanged.\<close>

theorem cdn_streams_created:
  assumes "create_cdn_streams L E w = (Ok r, w')" "\<not> cdn_active w"
    and "cdn_video_stream_index w < 0" "cdn_audio_stream_index w < 0"
  shows "\<exists>h. cdn_fmt_ctx w' = Some h \<and> (\<exists>ts. streams w' = streams w @ ts)
    \<and> (case find is_video (inner_streams L h) of
          None \<Rightarrow> cdn_video_stream_index w' < 0 | Some s \<Rightarrow> stream_at (streams w') (cdn_video_stream_index w') = Some s)
    \<and> (case find is_audio (inner_streams L h) of
          None \<Rightarrow> cdn_audio_stream_index w' < 0 | Some s \<Rightarrow> stream_at (streams w') (cdn_audio_stream_index w') = Some s)"
proof -
  have fmt: "cdn_fmt_ctx (snd (create_cdn_loop E srcs v)) = cdn_fmt_ctx v" for srcs v
    by (induction srcs arbitrary: v) (simp_all add: Let_def case_prod_beta ext_int_def place_stream_def)
  obtain h v where v: "create_cdn_loop E (inner_streams L h) v = (None, w')" "cdn_fmt_ctx v = Some h" "streams v = streams w"
    "cdn_video_stream_index v = cdn_video_stream_index w" "cdn_audio_stream_index v = cdn_audio_stream_index w"
  proof -
    from assms(1,2) obtain url where url: "cdn_url (snd (ext_int E (Av_find_input_format ''whep'') w)) = Some url"
      by (auto simp: create_cdn_streams_def Let_def case_prod_beta split: if_splits option.splits)
    define w1 where "w1 = snd (ext_int E (Av_find_input_format ''whep'') w)"
    define h where "h = fst (ext_int E (Avformat_open_input 0 url) w1)"
    define v where "v = snd (ext_int E (Avformat_find_stream_info h)
        ((snd (ext_int E (Avformat_open_input 0 url) w1))\<lparr>cdn_fmt_ctx := Some h\<rparr>))"
    have "fst (create_cdn_loop E (inner_streams L h) v) = None" "snd (create_cdn_loop E (inner_streams L h) v) = w'"
      using assms(1,2) url unfolding create_cdn_streams_def
      by (auto simp: Let_def case_prod_beta w1_def [symmetric] h_def [symmetric] v_def [symmetric]
          split: if_splits option.splits)
    then have "create_cdn_loop E (inner_streams L h) v = (None, w')" by (simp add: prod_eq_iff)
    moreover have "cdn_fmt_ctx v = Some h" "streams v = streams w"
      "cdn_video_stream_index v = cdn_video_stream_index w" "cdn_audio_stream_index v = cdn_audio_stream_index w"
      by (simp_all add: v_def w1_def ext_int_def)
    ultimately show thesis by (rule that)
  qed
  have "cdn_fmt_ctx w' = Some h" using fmt [of "inner_streams L h" v] v(1,2) by simp
  with create_loop_places [OF v(1)] v(3-5) assms(3,4) show ?thesis
    by (auto simp: placed_def split: option.splits)
qed

theorem cdn_streams_created_witness:
  "let w' = snd (create_cdn_streams (example_layers\<lparr>inner_streams := (\<lambda>_. [zero_stream, cdn_stream])\<rparr>)
        (\<lambda>_ _. (9, [])) (example_demux\<lparr>cdn_url := Some ''u''\<rparr>))
   in stream_at (streams w') (cdn_video_stream_index w') = Some cdn_stream \<and> cdn_audio_stream_index w' < 0"
proof -
  let ?L = "example_layers\<lparr>inner_streams := (\<lambda>_. [zero_stream, cdn_stream])\<rparr>"
  let ?w = "example_demux\<lparr>cdn_url := Some ''u''\<rparr>"
  have "fst (create_cdn_streams ?L (\<lambda>_ _. (9, [])) ?w) = Ok 0"
    by (simp add: create_cdn_streams_def place_stream_def Let_def ext_int_def zero_stream_def cdn_stream_def
        example_demux_def)
  then have "create_cdn_streams ?L (\<lambda>_ _. (9, [])) ?w = (Ok 0, snd (create_cdn_streams ?L (\<lambda>_ _. (9, [])) ?w))"
    by (simp add: prod_eq_iff)
  from cdn_streams_created [OF this] show ?thesis
    by (auto simp: example_demux_def is_video_def is_audio_def zero_stream_def cdn_stream_def Let_def)
qed

end
