(* ===== verification/Spec2Isabelle.thy ===== *)
theory Spec2Isabelle
  imports Rtp Srtp RtpDec RtpOrder RtpH264 RtpFeedback Avc RtpEnc RtpUnits RtpMux RtpReports RtpChain
    Base64 H264Sdp
    Prelude P2P_Lists P2P_Types Signal Crc Uuid Webrtc Tracks Probe PeerConn StateMachine
    Frames Sender NalScan Receiver Rescale Dict Switch
begin

text \<open>
  The P2P live streaming client of this repository, a fork of FFmpeg. A publisher
  (\<^verbatim>\<open>libavformat/p2p_rtp_mux.c\<close>) and a receiver (\<^verbatim>\<open>libavformat/p2p_rtp_demux.c\<close>) meet
  through a signalling server, open WebRTC connections with libdatachannel, measure them with
  probe packets, and then send RTP over tracks; the receiver falls back to a CDN, which it reads
  through the WHEP demuxer. The media go through FFmpeg's RTP stack: the RTP muxer cuts access units
  into packets, the RTP demuxer puts packets in order and makes byte streams and timestamps of them. The
  development models the fork's own code, the RTP stack and the FFmpeg routines their correctness
  rests on.

  \<^bold>\<open>Theories\<close>

  \<^item> \<open>Prelude\<close>: widths, bytes and their accessors, C division, error codes, lemma collections.
  \<^item> \<open>P2P_Lists\<close> (\<^verbatim>\<open>p2p.c\<close>): the linked lists of nodes, tracks and candidates as pointer
    programs on a heap of cells. The C walks are \<open>partial_function\<close>s, so a cycle is
    non-termination; the refinement lemmas show termination, absence of accesses to freed cells and
    agreement with operations on lists, for every key at once (locale over the key function).
  \<^item> \<open>P2P_Types\<close> (\<^verbatim>\<open>p2p.h\<close>): enumerations, structs, the world in which the code runs
    (allocated nodes and tracks, streams, calls made so far) and the caches as lists of addresses.
  \<^item> \<open>Signal\<close> (\<^verbatim>\<open>p2p_signal.c\<close>): messages, their JSON objects, sending, handling, freeing.
  \<^item> \<open>Crc\<close>, \<open>Uuid\<close>, \<open>Dict\<close>, \<open>Rescale\<close> (\<^verbatim>\<open>libavutil\<close>): checksum, identifiers, option
    dictionaries with their text form, and timestamp rescaling.
  \<^item> \<open>Webrtc\<close> (\<^verbatim>\<open>webrtc.c\<close>, \<^verbatim>\<open>webrtc_mux.c\<close>, \<^verbatim>\<open>webrtc_demux.c\<close>): the HTTP
    resource, the WHIP muxer and the WHEP demuxer.
  \<^item> \<open>Tracks\<close> (\<^verbatim>\<open>p2p_dc.c\<close> and the RTP protocol of \<^verbatim>\<open>p2p.c\<close>), \<open>Probe\<close>
    (\<^verbatim>\<open>p2p_probe.c\<close>), \<open>PeerConn\<close> (\<^verbatim>\<open>p2p_pc.c\<close>, \<^verbatim>\<open>p2p_ws.c\<close>): creation and
    callbacks of tracks, probing, peer connections and the signalling socket.
  \<^item> \<open>StateMachine\<close>: the locale of a state that is only ever raised, interpreted on the
    publisher in \<open>Sender\<close> and on the receiver in \<open>Receiver\<close>. \<open>Frames\<close>: what the shared operations
    leave alone.
  \<^item> \<open>Sender\<close>: publisher, all of \<^verbatim>\<open>p2p_rtp_mux.c\<close>.
  \<^item> \<open>NalScan\<close>, \<open>Receiver\<close>, \<open>Switch\<close>: receiver, all of \<^verbatim>\<open>p2p_rtp_demux.c\<close>: key frames and
    URL parameters; signalling and the background thread; the demuxer and its two sources.
  \<^item> \<open>Rtp\<close> (\<^verbatim>\<open>rtp.c\<close>, \<^verbatim>\<open>rtp.h\<close>, NTP time of \<^verbatim>\<open>utils.c\<close>): constants, payload types, the
    fixed header. \<open>Srtp\<close> (\<^verbatim>\<open>srtp.c\<close>): protection of RTP and RTCP packets.
  \<^item> \<open>RtpDec\<close> (\<^verbatim>\<open>rtpdec.c\<close>): the RTP demuxer; \<open>RtpOrder\<close>: its queue is sorted and puts a run of
    packets out in order; \<open>RtpFeedback\<close>: the loop that empties the queue, negative acknowledgements and
    repair; \<open>RtpReports\<close>: receiver and sender reports and presentation times; \<open>RtpH264\<close>
    (\<^verbatim>\<open>rtpdec_h264.c\<close>): the H.264 payload handler.
  \<^item> \<open>Avc\<close> (\<^verbatim>\<open>avc.c\<close>): the search for start codes; \<open>RtpEnc\<close> (\<^verbatim>\<open>rtpenc.c\<close>,
    \<^verbatim>\<open>rtpenc_h264_hevc.c\<close>): the RTP muxer; \<open>RtpUnits\<close>: how it cuts access units; \<open>RtpMux\<close>: the
    well-formedness of its context; \<open>RtpChain\<close>: access units from the muxer to the demuxer.
  \<^item> \<open>H264Sdp\<close> (\<^verbatim>\<open>sdp.c\<close>, \<^verbatim>\<open>rtsp.c\<close>, \<^verbatim>\<open>rtpdec_h264.c\<close>): the H.264 parameters in a session
    description, written and read; \<open>Base64\<close> (\<^verbatim>\<open>libavutil/base64.c\<close>): the encoding they use.
  \<^item> this theory: what publisher and receiver do together.

  \<^bold>\<open>State and operations\<close>

  The C context \<open>P2PContext\<close> is the record \<open>world\<close>; \<open>P2PRtpMuxContext\<close> and \<open>P2PRtpDemuxContext\<close>
  extend it to \<open>mux\<close> and \<open>demux\<close>. A C function is a definition of the same name (a leading
  \<open>p2p_\<close> is dropped where two files use the same name) that takes the state and returns the result
  and the new state. A negative return value is \<open>Inl\<close> of an \<open>averror\<close>, success is \<open>Inr\<close>.
  Cases of a long handler and turns of a loop are definitions of their own
  (\<open>demux_offer\<close>, \<open>read_turn_cdn\<close>, \<dots>), composed as the code composes them.

  Calls to libdatachannel and to the FFmpeg layers below are a parameter \<open>E\<close>: given the calls made
  so far and the next one, it says what the call returns. Every call is recorded in the state, so the
  order of effects can be stated; \<open>Abort\<close> in the record marks a NULL dereference or \<open>abort()\<close>. In
  \<open>Switch\<close> a result of None marks undefined behaviour, and the inner demuxers are a second parameter
  \<open>layers\<close>. cJSON's printer and parser are parameters \<open>pr\<close> and \<open>ps\<close>; the properties that cross the
  wire assume that the parser gives back the printed object.

  In the RTP stack \<open>RTPDemuxContext\<close>, \<open>RTPStatistics\<close>, \<open>RTPMuxContext\<close> and \<open>SRTPContext\<close> are records
  with the fields of the C structs; the queue is the list of its packets. What is written to the output
  of the muxer is the list \<open>sent\<close>. The results of library calls of the demuxer (clock, allocator,
  writes) are a parameter \<open>L\<close>, a function of the number of calls made so far; a payload handler is a
  record of functions; the block cipher and the HMAC are a parameter \<open>C\<close>; the packetisers of other files
  are a parameter \<open>other\<close>. In \<open>RtpEnc\<close> None marks undefined behaviour (a fragment loop without room, a
  unit of negative size).

  Threads: each handler, callback and turn of a loop is one atomic step. What other threads do while
  a loop sleeps is a parameter \<open>env\<close> of the loop; \<open>recv_step\<close> in \<open>Receiver\<close> is the step relation of all
  interleavings.

  \<^bold>\<open>What is shown\<close>

  Publisher and receiver only move forward through their states and reach streaming only through the
  stream handshake with the selected peer; the handshake works across the wire; the output of the
  receiver changes its source only at a key frame, falls back to the CDN after a hundred failures,
  and the CDN's streams get outputs of their own; caches and lists behave as maps and never hold
  freed entries; messages, UUIDs and dictionaries survive printing and parsing; the table-driven
  CRC, the long division of the rescaling and the scans for NAL units agree with their
  specifications; the NAL units of an access unit come out of the RTP demuxer as the same byte stream
  whatever the order of their packets; parameter sets arrive through the session description; protected packets are restored; the muxer stays within its
  buffer; reports and acknowledgements say what was lost; probe packets are counted exactly and never read beyond their end; failing set ups
  release what they opened; the waiting loops end. Where the code does not do what it means to, the
  theorem says what it does instead (lost pictures after a start from the CDN, the end of a stream
  read as an error, the endless scan, the thread that hangs, the dangling track, the duplicate that
  blocks the queue, the repair that is switched off).

  \<^bold>\<open>Bounds and fuel\<close>

  Loops that wait for other threads (\<open>ws_wait\<close>, \<open>mux_wait\<close>, \<open>whip_wait\<close>, \<open>probing_loop\<close>,
  \<open>pending_loop\<close>) and the scan of length prefixes take fuel; None means that it did not suffice.
  \<open>whip_wait_ends\<close> and \<open>probing_loop_ends\<close> give fuel that suffices once the clock passes the
  deadline, \<open>length_scan_complete\<close> the fuel for a well-formed packet. The loop that empties the queue of
  the RTP demuxer (\<open>parse_queued_loop\<close>) has the length of the queue as fuel, which
  \<open>queue_counter_and_loop\<close> shows to suffice; \<open>unsent_requests_hang\<close> and
  \<open>negative_length_never_ends\<close> show that no fuel suffices. All other recursions terminate.
  Machine integers are words where their wrap-around matters (CRC, UUID, packet headers, byte counts,
  the 128 bit division) and integers elsewhere.

  \<^bold>\<open>Not modelled\<close>

  Logging; floating point (the quality metrics are exact rationals); the mutex of the publisher; string
  ownership except in \<open>p2p_free_signal_message\<close> and leaks of packets; allocation failures in
  \<open>Uuid\<close> and in the tokenizer of \<open>Dict\<close>. The macros \<open>P2P_DEFAULT_VIDEO_GOP\<close> and
  \<open>P2P_CDN_URL_REPAIR_APP\<close> are defined nowhere in the repository and are parameters. Of the
  RTP stack: payload handlers and packetisers of other codecs than H.264 and HEVC and those of
  \<^verbatim>\<open>rtpenc.c\<close> itself; session descriptions but for the attributes of H.264 streams
  (\<^verbatim>\<open>sdp.c\<close> and \<^verbatim>\<open>rtsp.c\<close>), and RTSP; \<^verbatim>\<open>ff_rtp_finalize_packet\<close>, used by handlers that are left out; the releases
  of memory in \<^verbatim>\<open>ff_rtp_parse_close\<close> and \<^verbatim>\<open>ff_srtp_free\<close>. The rest of FFmpeg (codecs, filters, other
  formats) is used unchanged and is left out.
\<close>

section \<open>Publisher and receiver together\<close>

lemma stream_message_received:
  assumes "ps t = Some (p2p_signal_json m)" "signal_callbacks w" "payload_fits (mtype m) (payload m)"
    and "payload m \<in> {P_stream_request sid, P_stream_ready sid}"
  shows "p2p_handle_signal_message ps h (Some t) w = h (m\<lparr>payload := zero_payload (mtype m)\<rparr>) w"
  using stream_id_not_transported [OF assms(4,3)] assms(1,2) by (simp add: p2p_handle_signal_message_def)

lemma find_node_cong:
  "nodes v = nodes w \<Longrightarrow> peer_connection_node_caches v = peer_connection_node_caches w \<Longrightarrow> find_node r v = find_node r w"
  by (simp add: find_node_def node_at_def split: option.split)

text \<open>The two messages of the handshake.\<close>

definition stream_request_of :: "string \<Rightarrow> string \<Rightarrow> P2PSignalMessage" where
  "stream_request_of rid sid = (p2p_create_signal_message P2P_MSG_STREAM_REQUEST (Some rid) (Some sid))
      \<lparr>payload := P_stream_request (Some ''main_stream'')\<rparr>"

definition stream_ready_of :: "string \<Rightarrow> string \<Rightarrow> P2PSignalMessage" where
  "stream_ready_of sid rid = (p2p_create_signal_message P2P_MSG_STREAM_READY (Some sid) (Some rid))
      \<lparr>payload := P_stream_ready (Some ''main_stream'')\<rparr>"

text \<open>C1. The handshake that starts a stream works across the wire: a receiver that has selected a
  publisher sends it one text, the publisher that gets this text selects the receiver, starts to
  stream and answers with one text, and the receiver that gets the answer is streaming.\<close>

theorem stream_handshake:
  assumes "ps (pr (p2p_signal_json (stream_request_of rid sid))) = Some (p2p_signal_json (stream_request_of rid sid))"
    and "ps (pr (p2p_signal_json (stream_ready_of sid rid))) = Some (p2p_signal_json (stream_ready_of sid rid))"
    and "\<And>past c. 0 \<le> fst (E past c)"
    and "recv_state r = RECEIVER_STATE_REQUESTING_STREAM" "selected_node r = Some n" "signal_callbacks r"
    and "local_id r = Some rid" "remote_id (node_at r n) = Some sid" "find_node (Some sid) r = Some n"
    and "current_state s < SENDER_STATE_STREAMING" "signal_callbacks s" "local_id s = Some sid"
    and "find_node (Some rid) s = Some m" "status (node_at s m) = Connected" "probe_track (node_at s m) \<noteq> None"
    and "video_track (node_at s m) \<noteq> None"
  shows "\<exists>t1 r1 t2 s1 r2.
      requesting_stream E pr r = (None, r1)
      \<and> calls r1 = calls r @ [RtcSendMessage (web_socket r) (text_bytes t1), Av_usleep 100000]
    \<and> p2p_handle_signal_message ps (p2p_rtp_mux_signal_handler E pr) (Some t1) s = (Ok 0, s1)
      \<and> current_state s1 = SENDER_STATE_STREAMING \<and> selected_node s1 = Some m
      \<and> calls s1 = calls s @ [RtcSendMessage (web_socket s) (text_bytes t2), Av_gettime]
    \<and> p2p_handle_signal_message ps (p2p_rtp_demux_signal_handler E pr) (Some t2) r1 = (Ok 0, r2)
      \<and> recv_state r2 = RECEIVER_STATE_STREAMING"
proof -
  define m1 where "m1 = stream_request_of rid sid"
  define m2 where "m2 = stream_ready_of sid rid"
  note m_defs = m1_def m2_def stream_request_of_def stream_ready_of_def p2p_create_signal_message_def
  let ?t1 = "pr (p2p_signal_json m1)" and ?t2 = "pr (p2p_signal_json m2)"
  define r1 where "r1 = r\<lparr>calls := calls r @ [RtcSendMessage (web_socket r) (text_bytes ?t1), Av_usleep 100000]\<rparr>"
  have req: "requesting_stream E pr r = (None, r1)"
    using assms(3) [of "calls r" "RtcSendMessage (web_socket r) (text_bytes ?t1)"] assms(5,7,8)
    by (simp add: requesting_stream_def send_stream_request_def p2p_send_signal_message_def r1_def m_defs
        ext_int_def ext_do_def Let_def)
  define s1 where "s1 = snd (mux_stream_request E pr (Some rid) s)"
  have mux: "mux_stream_request E pr (Some rid) s = (Ok 0, s1)"
    and s1: "current_state s1 = SENDER_STATE_STREAMING" "selected_node s1 = Some m"
      "calls s1 = calls s @ [RtcSendMessage (web_socket s) (text_bytes ?t2), Av_gettime]"
    using assms(10,12-16)
    by (auto simp: s1_def mux_stream_request_def p2p_send_signal_message_def m_defs set_sender_state_def
        ext_int_def Let_def max_def)
  have "p2p_handle_signal_message ps (p2p_rtp_mux_signal_handler E pr) (Some ?t1) s
      = p2p_rtp_mux_signal_handler E pr (m1\<lparr>payload := zero_payload (mtype m1)\<rparr>) s"
    by (rule stream_message_received) (use assms(1) in \<open>simp_all add: assms(11) m_defs payload_fits_def\<close>)
  then have send: "p2p_handle_signal_message ps (p2p_rtp_mux_signal_handler E pr) (Some ?t1) s = (Ok 0, s1)"
    by (simp add: p2p_rtp_mux_signal_handler_def m_defs mux)
  define r2 where "r2 = set_receiver_state E RECEIVER_STATE_STREAMING r1"
  have r1: "find_node (Some sid) r1 = selected_node r1" "selected_node r1 = Some n" "signal_callbacks r1"
      "recv_state r1 = RECEIVER_STATE_REQUESTING_STREAM"
    using find_node_cong [of r1 r "Some sid"] assms(4,5,6,9) by (simp_all add: r1_def)
  have "p2p_handle_signal_message ps (p2p_rtp_demux_signal_handler E pr) (Some ?t2) r1
      = p2p_rtp_demux_signal_handler E pr (m2\<lparr>payload := zero_payload (mtype m2)\<rparr>) r1"
    by (rule stream_message_received) (use assms(2) in \<open>simp_all add: r1 m_defs payload_fits_def\<close>)
  then have recv: "p2p_handle_signal_message ps (p2p_rtp_demux_signal_handler E pr) (Some ?t2) r1 = (Ok 0, r2)"
    using r1 by (simp add: p2p_rtp_demux_signal_handler_def m_defs
        demux_stream_ready_def r2_def)
  have "recv_state r2 = RECEIVER_STATE_STREAMING"
    by (simp add: r2_def set_receiver_state_max r1 max_def receiver_order)
  with req send s1 recv show ?thesis
    by (intro exI [of _ ?t1] exI [of _ r1] exI [of _ ?t2] exI [of _ s1] exI [of _ r2]) (simp add: r1_def)
qed

theorem stream_handshake_witness:
  "\<exists>t1 t2 r1 s1 r2.
      p2p_handle_signal_message (\<lambda>t. Some (p2p_signal_json (if t = ''q'' then stream_request_of ''r'' ''s'' else stream_ready_of ''s'' ''r'')))
        (p2p_rtp_mux_signal_handler (\<lambda>_ _. (0, []))
          (\<lambda>j. if j = p2p_signal_json (stream_request_of ''r'' ''s'') then ''q'' else ''a'')) (Some t1) example_mux = (Ok 0, s1)
    \<and> p2p_handle_signal_message (\<lambda>t. Some (p2p_signal_json (if t = ''q'' then stream_request_of ''r'' ''s'' else stream_ready_of ''s'' ''r'')))
        (p2p_rtp_demux_signal_handler (\<lambda>_ _. (0, []))
          (\<lambda>j. if j = p2p_signal_json (stream_request_of ''r'' ''s'') then ''q'' else ''a'')) (Some t2) r1 = (Ok 0, r2)
    \<and> recv_state r2 = RECEIVER_STATE_STREAMING"
proof -
  let ?pr = "\<lambda>j. if j = p2p_signal_json (stream_request_of ''r'' ''s'') then ''q'' else ''a''"
  let ?ps = "\<lambda>t. Some (p2p_signal_json (if t = ''q'' then stream_request_of ''r'' ''s'' else stream_ready_of ''s'' ''r''))"
  let ?r = "example_demux\<lparr>recv_state := RECEIVER_STATE_REQUESTING_STREAM, selected_node := Some 2\<rparr>"
  have ne: "p2p_signal_json (stream_ready_of ''s'' ''r'') \<noteq> p2p_signal_json (stream_request_of ''r'' ''s'')"
    by code_simp
  have r: "find_node (Some ''s'') ?r = Some 2" "remote_id (node_at ?r 2) = Some ''s''" "local_id ?r = Some ''r''"
    "signal_callbacks ?r"
    by (simp_all add: find_node_def node_at_def example_demux_def zero_node_def)
  have s: "find_node (Some ''r'') example_mux = Some 1" "status (node_at example_mux 1) = Connected"
    "probe_track (node_at example_mux 1) \<noteq> None" "video_track (node_at example_mux 1) \<noteq> None"
    "local_id example_mux = Some ''s''" "signal_callbacks example_mux" "current_state example_mux < SENDER_STATE_STREAMING"
    by (simp_all add: find_node_def node_at_def example_mux_def zero_node_def less_SenderState_def)
  from stream_handshake [where ps = ?ps and pr = ?pr and E = "\<lambda>_ _. (0, [])" and r = ?r,
      OF _ _ _ _ _ r(4,3,2,1) s(7,6,5,1,2,3,4)] ne
  show ?thesis by simp blast
qed

text \<open>C39. The end of a stream is announced with a message type that no peer knows: whoever gets it,
  publisher or receiver, ends in the error state.\<close>

theorem stream_end_is_an_error:
  assumes "ps (pr (stream_end_json (local_id p))) = Some (stream_end_json (local_id p))"
    and "signal_callbacks r" "signal_callbacks s" "selected_node p \<noteq> None"
  shows "\<exists>t. p2p_rtp_muxer_write_trailer pr p = ext_do (RtcSendMessage (web_socket p) (text_bytes t)) p
    \<and> recv_state (snd (p2p_handle_signal_message ps (p2p_rtp_demux_signal_handler E pr) (Some t) r)) = RECEIVER_STATE_ERROR
    \<and> current_state (snd (p2p_handle_signal_message ps (p2p_rtp_mux_signal_handler E pr) (Some t) s)) = SENDER_STATE_ERROR"
proof -
  let ?j = "stream_end_json (local_id p)"
  have "cJSON_GetObjectItem ?j ''type'' = Some (JString ''stream_end'')"
    by (cases "local_id p") (simp_all add: stream_end_json_def cJSON_GetObjectItem_def
        cJSON_AddStringToObject_def lower_names)
  then obtain msg where msg: "p2p_signal_of_json ?j = Some msg" "mtype msg = P2P_MSG_ERROR" "payload msg = P_error None None"
    by (simp add: p2p_signal_of_json_def p2p_string_to_message_type_def p2p_create_signal_message_def payload_of_json_def)
  have "p2p_handle_signal_message ps (p2p_rtp_demux_signal_handler E pr) (Some (pr ?j)) r = p2p_rtp_demux_signal_handler E pr msg r"
    and "p2p_handle_signal_message ps (p2p_rtp_mux_signal_handler E pr) (Some (pr ?j)) s = p2p_rtp_mux_signal_handler E pr msg s"
    using assms(1-3) msg(1) by (simp_all add: p2p_handle_signal_message_def)
  moreover have "recv_state (snd (p2p_rtp_demux_signal_handler E pr msg r)) = RECEIVER_STATE_ERROR"
    using receiver_error_greatest [of "recv_state r"]
    by (simp add: p2p_rtp_demux_signal_handler_def msg(2,3) set_receiver_state_max max_def)
  moreover have "current_state (snd (p2p_rtp_mux_signal_handler E pr msg s)) = SENDER_STATE_ERROR"
    using sender_error_greatest [of "current_state s"]
    by (simp add: p2p_rtp_mux_signal_handler_def msg(2,3) set_sender_state_max max_def)
  ultimately show ?thesis
    using assms(4) by (auto simp: p2p_rtp_muxer_write_trailer_def intro!: exI [of _ "pr ?j"])
qed

theorem stream_end_is_an_error_witness:
  "\<exists>t. recv_state (snd (p2p_handle_signal_message (\<lambda>_. Some (stream_end_json (Some ''p'')))
        (p2p_rtp_demux_signal_handler (\<lambda>_ _. (0, [])) (\<lambda>_. ''t'')) (Some t) example_demux)) = RECEIVER_STATE_ERROR"
  using stream_end_is_an_error [of "\<lambda>_. Some (stream_end_json (Some ''p''))" "\<lambda>_. ''t''"
      "example_mux\<lparr>local_id := Some ''p'', selected_node := Some 2\<rparr>" example_demux "example_mux\<lparr>signal_callbacks := True\<rparr>" "\<lambda>_ _. (0, [])"]
  by (auto simp: example_demux_def)

end
